(* ===== verification/Prelude.thy ===== *)
theory Prelude
  imports Main "HOL-Library.Word" "HOL-Library.AList" "HOL-Library.Sublist"
begin

text \<open>
  Shared ground of the development: the machine integers and byte strings of the Rust
  code, Rust's \<open>Result\<close>, the integer operations of the standard library that the code
  relies on (saturating arithmetic, casts, big-endian bytes), association lists as one
  iteration order of a \<open>HashMap\<close>, and the generic lemmas the components share.
\<close>

section \<open>Types\<close>

type_synonym u8 = "8 word"
type_synonym u32 = "32 word"
type_synonym u64 = "64 word"
type_synonym bytes = "8 word list"

text \<open>Rust's \<open>Result<T, E>\<close>; an early return through \<open>?\<close> is \<open>and_then\<close>.\<close>

datatype ('a, 'e) result = Ok 'a | Err 'e

fun and_then :: "('a, 'e) result \<Rightarrow> ('a \<Rightarrow> ('b, 'e) result) \<Rightarrow> ('b, 'e) result" where
  "and_then (Ok a) f = f a"
| "and_then (Err e) f = Err e"

fun map_err :: "('e \<Rightarrow> 'f) \<Rightarrow> ('a, 'e) result \<Rightarrow> ('a, 'f) result" where
  "map_err f (Ok a) = Ok a"
| "map_err f (Err e) = Err (f e)"

fun map_ok :: "('a \<Rightarrow> 'b) \<Rightarrow> ('a, 'e) result \<Rightarrow> ('b, 'e) result" where
  "map_ok f (Ok a) = Ok (f a)"
| "map_ok f (Err e) = Err e"

fun is_ok :: "('a, 'e) result \<Rightarrow> bool" where
  "is_ok (Ok _) = True"
| "is_ok (Err _) = False"

fun ok_or :: "'a option \<Rightarrow> 'e \<Rightarrow> ('a, 'e) result" where
  "ok_or (Some a) e = Ok a"
| "ok_or None e = Err e"

text \<open>
  The collections the component proofs draw on: \<open>defs\<close> gathers the definitions of the
  model that are unfolded together, \<open>result_inv\<close> the inversions of a successful
  result.
\<close>

named_theorems defs "definitions of the model unfolded by the component proofs"
named_theorems result_inv "inversion of successful results"

lemma and_then_Ok_iff [result_inv]:
  "and_then r f = Ok b \<longleftrightarrow> (\<exists>a. r = Ok a \<and> f a = Ok b)"
  by (cases r) auto

lemma and_then_Err_iff:
  "and_then r f = Err e \<longleftrightarrow> r = Err e \<or> (\<exists>a. r = Ok a \<and> f a = Err e)"
  by (cases r) auto

lemma map_err_Ok_iff [result_inv, simp]: "map_err f r = Ok a \<longleftrightarrow> r = Ok a"
  by (cases r) auto

lemma map_ok_Ok_iff [result_inv]: "map_ok f r = Ok b \<longleftrightarrow> (\<exists>a. r = Ok a \<and> b = f a)"
  by (cases r) auto

lemma ok_or_Ok_iff [result_inv, simp]: "ok_or x e = Ok a \<longleftrightarrow> x = Some a"
  by (cases x) auto

lemma ok_or_Err_iff [simp]: "ok_or x e = Err e' \<longleftrightarrow> x = None \<and> e' = e"
  by (cases x) auto

lemma is_ok_iff: "is_ok r \<longleftrightarrow> (\<exists>a. r = Ok a)"
  by (cases r) auto

section \<open>Integer operations of the Rust standard library\<close>

definition u64_max :: u64 where
  "u64_max = - 1"

definition saturating_add :: "'a::len word \<Rightarrow> 'a word \<Rightarrow> 'a word" where
  "saturating_add a b = (if unat a + unat b < 2 ^ LENGTH('a) then a + b else - 1)"

definition saturating_sub :: "'a::len word \<Rightarrow> 'a word \<Rightarrow> 'a word" where
  "saturating_sub a b = (if a < b then 0 else a - b)"

text \<open>
  \<open>x as i64\<close> keeps the bits of a \<open>u64\<close> and reads them as two's complement; the SQLite
  columns of both stores compare their integers in that reading.
\<close>

definition as_i64 :: "u64 \<Rightarrow> int" where
  "as_i64 x = (if uint x < 2 ^ 63 then uint x else uint x - 2 ^ 64)"

definition i64_as_u64 :: "int \<Rightarrow> u64" where
  "i64_as_u64 i = word_of_int i"

lemma as_i64_roundtrip [simp]: "i64_as_u64 (as_i64 x) = x"
proof -
  have "(word_of_int (uint x - 2 ^ 64) :: u64) = word_of_int (uint x) - word_of_int (2 ^ 64)"
    by (simp only: wi_hom_sub)
  also have "(word_of_int (2 ^ 64) :: u64) = 0"
    by simp
  finally show ?thesis
    by (simp add: as_i64_def i64_as_u64_def)
qed

lemma as_i64_inject [simp]: "as_i64 x = as_i64 y \<longleftrightarrow> x = y"
  by (metis as_i64_roundtrip)

lemma as_i64_small: "x < 2 ^ 63 \<Longrightarrow> as_i64 x = uint x"
  by (simp add: as_i64_def word_less_def)

lemma as_i64_le_iff:
  "x < 2 ^ 63 \<Longrightarrow> y < 2 ^ 63 \<Longrightarrow> as_i64 x \<le> as_i64 y \<longleftrightarrow> x \<le> y"
  by (simp add: as_i64_small word_le_def)

lemma as_i64_less_iff:
  "x < 2 ^ 63 \<Longrightarrow> y < 2 ^ 63 \<Longrightarrow> as_i64 x < as_i64 y \<longleftrightarrow> x < y"
  by (simp add: as_i64_small word_less_def)

lemma saturating_sub_le: "saturating_sub a b \<le> a"
  by (auto simp: saturating_sub_def word_sub_le_iff not_less)

lemma unat_saturating_add:
  "unat (saturating_add a b) = min (unat a + unat b) (2 ^ LENGTH('a) - 1)"
  for a b :: "'a::len word"
  by (auto simp: saturating_add_def unat_word_ariths unsigned_minus_1_eq_mask mask_eq_exp_minus_1 min_def)

lemma unat_saturating_sub: "unat (saturating_sub a b) = unat a - unat b"
  by (auto simp: saturating_sub_def word_less_nat_alt unat_sub word_le_nat_alt)

lemma unat_of_nat_small: "n < 2 ^ LENGTH('a) \<Longrightarrow> unat (of_nat n :: 'a::len word) = n"
  by (simp add: unat_of_nat take_bit_nat_eq_self)

lemma unat_eqD: "unat x = unat y \<Longrightarrow> x = y"
  for x y :: "'a::len word"
  by (simp add: word_unat_eq_iff)

text \<open>\<open>to_be_bytes\<close> and \<open>from_be_bytes\<close> of the fixed-width integers, most significant byte first.\<close>

definition be_bytes :: "nat \<Rightarrow> 'a::len word \<Rightarrow> bytes" where
  "be_bytes n x = map (\<lambda>i. ucast (drop_bit (8 * i) x)) (rev [0..<n])"

definition of_be_bytes :: "bytes \<Rightarrow> 'a::len word" where
  "of_be_bytes bs = foldl (\<lambda>acc b. push_bit 8 acc + ucast b) 0 bs"

lemma length_be_bytes [simp]: "length (be_bytes n x) = n"
  by (simp add: be_bytes_def)

lemma foldl_be_bytes:
  fixes x acc :: "'a::len word"
  shows "foldl (\<lambda>acc b. push_bit 8 acc + ucast b) acc (be_bytes n x)
    = push_bit (8 * n) acc + take_bit (8 * n) x"
proof (induction n arbitrary: acc)
  case 0
  then show ?case by (simp add: be_bytes_def)
next
  case (Suc n)
  let ?b = "ucast (ucast (drop_bit (8 * n) x) :: 8 word) :: 'a word"
  have b: "?b = take_bit 8 (drop_bit (8 * n) x)"
    by (rule bit_word_eqI) (auto simp: bit_take_bit_iff bit_ucast_iff)
  have "take_bit (8 * Suc n) x
      = push_bit (8 * n) (drop_bit (8 * n) (take_bit (8 * Suc n) x))
        + take_bit (8 * n) (take_bit (8 * Suc n) x)"
    by (simp only: bits_ident)
  also have "\<dots> = push_bit (8 * n) ?b + take_bit (8 * n) x"
    by (simp add: b drop_bit_take_bit)
  finally have split: "push_bit (8 * n) ?b + take_bit (8 * n) x = take_bit (8 * Suc n) x"
    by simp
  have "be_bytes (Suc n) x = ucast (drop_bit (8 * n) x) # be_bytes n x"
    by (simp add: be_bytes_def)
  then have "foldl (\<lambda>acc b. push_bit 8 acc + ucast b) acc (be_bytes (Suc n) x)
      = push_bit (8 * n) (push_bit 8 acc + ?b) + take_bit (8 * n) x"
    by (simp add: Suc.IH)
  also have "\<dots> = push_bit (8 * Suc n) acc + (push_bit (8 * n) ?b + take_bit (8 * n) x)"
    by (simp add: push_bit_add ac_simps)
  finally show ?case by (simp only: split)
qed

lemma of_be_bytes_be_bytes:
  fixes x :: "'a::len word"
  assumes "LENGTH('a) \<le> 8 * n"
  shows "of_be_bytes (be_bytes n x) = x"
  using assms by (simp add: of_be_bytes_def foldl_be_bytes take_bit_word_eq_self)

lemma be_bytes8_inject [simp]: "be_bytes 8 (x :: u64) = be_bytes 8 y \<longleftrightarrow> x = y"
proof -
  have "of_be_bytes (be_bytes 8 z) = z" for z :: u64
    by (rule of_be_bytes_be_bytes) simp
  then show ?thesis by metis
qed

section \<open>Durations\<close>

text \<open>
  A \<open>std::time::Duration\<close> is a number of nanoseconds; \<open>as_millis() as u64\<close> drops the
  part below a millisecond and keeps the low 64 bits.
\<close>

type_synonym duration = nat

definition from_millis :: "u64 \<Rightarrow> duration" where
  "from_millis ms = unat ms * 1000000"

definition as_millis :: "duration \<Rightarrow> nat" where
  "as_millis d = d div 1000000"

definition as_millis_u64 :: "duration \<Rightarrow> u64" where
  "as_millis_u64 d = of_nat (as_millis d)"

definition as_secs :: "duration \<Rightarrow> nat" where
  "as_secs d = d div 1000000000"

lemma as_millis_from_millis [simp]: "as_millis (from_millis ms) = unat ms"
  by (simp add: as_millis_def from_millis_def)

lemma as_millis_u64_from_millis [simp]: "as_millis_u64 (from_millis ms) = ms"
  by (simp add: as_millis_u64_def)

text \<open>
  A reading of the wall clock is a number of nanoseconds relative to the Unix epoch, which
  may be negative; \<open>duration_since(UNIX_EPOCH)\<close> then fails and the code falls back to 0.
\<close>

definition unix_millis :: "int \<Rightarrow> u64" where
  "unix_millis t = (if t < 0 then 0 else of_int (t div 1000000))"

section \<open>Strings\<close>

text \<open>A \<open>String\<close> is the list of its UTF-8 bytes, each written as a character.\<close>

definition utf8 :: "string \<Rightarrow> bytes" where
  "utf8 s = map of_char s"

definition of_utf8 :: "bytes \<Rightarrow> string" where
  "of_utf8 bs = map (\<lambda>b. char_of (unat b)) bs"

lemma length_utf8 [simp]: "length (utf8 s) = length s"
  by (simp add: utf8_def)

lemma of_char_u8: "(of_char c :: u8) = of_nat (of_char c)"
  by (simp add: of_nat_of_char)

lemma unat_of_char_u8 [simp]: "unat (of_char c :: u8) = of_char c"
  unfolding of_char_u8 unat_of_nat by (simp add: take_bit_eq_mod)

lemma of_utf8_utf8 [simp]: "of_utf8 (utf8 s) = s"
  by (simp add: of_utf8_def utf8_def o_def)

lemma utf8_of_utf8 [simp]: "utf8 (of_utf8 bs) = bs"
proof -
  have "(of_char (char_of (unat b)) :: u8) = b" for b :: u8
  proof -
    have "(of_char (char_of (unat b)) :: u8) = of_nat (of_char (char_of (unat b)))"
      by (rule of_char_u8)
    also have "\<dots> = of_nat (unat b mod 256)"
      by (simp only: of_char_of)
    also have "unat b mod 256 = unat b"
      using unsigned_less [of b, where ?'a = nat] by simp
    finally show ?thesis by simp
  qed
  then show ?thesis
    by (simp add: of_utf8_def utf8_def o_def)
qed

lemma utf8_inject [simp]: "utf8 s = utf8 t \<longleftrightarrow> s = t"
  by (metis of_utf8_utf8)

text \<open>Lower-case hexadecimal digits, and \<open>format!("{:x}", n)\<close>.\<close>

definition hex_digit :: "nat \<Rightarrow> char" where
  "hex_digit d = char_of (if d < 10 then 48 + d else 87 + d)"

fun hex_nat :: "nat \<Rightarrow> string" where
  "hex_nat n = (if n < 16 then [hex_digit n] else hex_nat (n div 16) @ [hex_digit (n mod 16)])"

declare hex_nat.simps [simp del]

definition unhex_digit :: "char \<Rightarrow> nat" where
  "unhex_digit c = (if of_char c < (58 :: nat) then of_char c - 48 else of_char c - 87)"

lemma unhex_hex_digit [simp]: "d < 16 \<Longrightarrow> unhex_digit (hex_digit d) = d"
  by (simp add: unhex_digit_def hex_digit_def)

definition unhex :: "string \<Rightarrow> nat" where
  "unhex s = foldl (\<lambda>n c. 16 * n + unhex_digit c) 0 s"

lemma unhex_hex_nat [simp]: "unhex (hex_nat n) = n"
proof (induction n rule: hex_nat.induct)
  case (1 n)
  then show ?case
    by (cases "n < 16") (auto simp: hex_nat.simps [of n] unhex_def)
qed

lemma hex_nat_inject [simp]: "hex_nat m = hex_nat n \<longleftrightarrow> m = n"
  by (metis unhex_hex_nat)

lemma hex_nat_digits: "c \<in> set (hex_nat n) \<Longrightarrow> \<exists>d < 16. c = hex_digit d"
proof (induction n rule: hex_nat.induct)
  case (1 n)
  then show ?case
    by (cases "n < 16") (auto simp: hex_nat.simps [of n] intro: exI [of _ "n mod 16"])
qed

lemma append_sep_inject:
  "c \<notin> set xs \<Longrightarrow> c \<notin> set ys \<Longrightarrow> xs @ c # us = ys @ c # vs \<longleftrightarrow> xs = ys \<and> us = vs"
  by (induction xs arbitrary: ys) (auto simp: Cons_eq_append_conv, case_tac ys, auto)

text \<open>
  Well-formed UTF-8, as \<open>String::from_utf8\<close> checks it: no overlong forms, no surrogates,
  nothing above U+10FFFF.
\<close>

definition in_range :: "nat \<Rightarrow> nat \<Rightarrow> u8 \<Rightarrow> bool" where
  "in_range lo hi b \<longleftrightarrow> lo \<le> unat b \<and> unat b \<le> hi"

fun valid_utf8 :: "bytes \<Rightarrow> bool" where
  "valid_utf8 [] = True"
| "valid_utf8 (a # r) =
    (if in_range 0 127 a then valid_utf8 r
     else if in_range 194 223 a then
       (case r of b # r' \<Rightarrow> in_range 128 191 b \<and> valid_utf8 r' | _ \<Rightarrow> False)
     else if in_range 224 239 a then
       (case r of b # c # r' \<Rightarrow>
          in_range (if a = 224 then 160 else 128) (if a = 237 then 159 else 191) b
          \<and> in_range 128 191 c \<and> valid_utf8 r'
        | _ \<Rightarrow> False)
     else if in_range 240 244 a then
       (case r of b # c # d # r' \<Rightarrow>
          in_range (if a = 240 then 144 else 128) (if a = 244 then 143 else 191) b
          \<and> in_range 128 191 c \<and> in_range 128 191 d \<and> valid_utf8 r'
        | _ \<Rightarrow> False)
     else False)"

definition ascii :: "string \<Rightarrow> bool" where
  "ascii s \<longleftrightarrow> (\<forall>c \<in> set s. (of_char c :: nat) < 128)"

lemma valid_utf8_ascii: "ascii s \<Longrightarrow> valid_utf8 (utf8 s)"
  by (induction s) (auto simp: ascii_def utf8_def in_range_def)

text \<open>\<open>format!("{}", n)\<close> and \<open>format!("{:0w$}", n)\<close> of an unsigned integer.\<close>

definition digit_char :: "nat \<Rightarrow> char" where
  "digit_char d = char_of (48 + d)"

definition is_ascii_digit :: "char \<Rightarrow> bool" where
  "is_ascii_digit c \<longleftrightarrow> 48 \<le> (of_char c :: nat) \<and> (of_char c :: nat) \<le> 57"

fun dec :: "nat \<Rightarrow> string" where
  "dec n = (if n < 10 then [digit_char n] else dec (n div 10) @ [digit_char (n mod 10)])"

declare dec.simps [simp del]

definition pad_zeros :: "nat \<Rightarrow> string \<Rightarrow> string" where
  "pad_zeros w s = replicate (w - length s) (CHR ''0'') @ s"

fun join :: "string \<Rightarrow> string list \<Rightarrow> string" where
  "join sep [] = []"
| "join sep [s] = s"
| "join sep (s # t # ss) = s @ sep @ join sep (t # ss)"

lemma digit_char_is_digit: "d < 10 \<Longrightarrow> is_ascii_digit (digit_char d)"
  by (simp add: is_ascii_digit_def digit_char_def)

lemma dec_digits: "c \<in> set (dec n) \<Longrightarrow> is_ascii_digit c"
proof (induction n rule: dec.induct)
  case (1 n)
  then show ?case
    by (cases "n < 10")
      (auto simp: dec.simps [of n] digit_char_is_digit)
qed

lemma length_dec_le: "n < 10 ^ Suc k \<Longrightarrow> length (dec n) \<le> Suc k"
proof (induction k arbitrary: n)
  case 0
  then show ?case by (simp add: dec.simps)
next
  case (Suc k)
  have "n div 10 < 10 ^ Suc k"
    using Suc.prems by (simp add: less_mult_imp_div_less mult.commute)
  then show ?case
    using Suc.IH [of "n div 10"] by (simp add: dec.simps [of n])
qed

text \<open>Reading the digits back; \<open>dec\<close> is therefore injective.\<close>

definition undec :: "string \<Rightarrow> nat" where
  "undec s = foldl (\<lambda>n c. 10 * n + (of_char c - 48)) 0 s"

lemma undec_dec [simp]: "undec (dec n) = n"
proof (induction n rule: dec.induct)
  case (1 n)
  then show ?case
    by (cases "n < 10") (auto simp: dec.simps [of n] undec_def digit_char_def)
qed

lemma dec_inject [simp]: "dec m = dec n \<longleftrightarrow> m = n"
  by (metis undec_dec)

section \<open>Association lists with distinct keys\<close>

text \<open>
  A \<open>HashMap\<close> is an association list with distinct keys, in one of the orders in which
  it may be iterated; \<open>map_of\<close> reads it, \<open>AList.update\<close> inserts and \<open>AList.delete\<close>
  removes.
\<close>

abbreviation keys :: "('k \<times> 'v) list \<Rightarrow> 'k list" where
  "keys m \<equiv> map fst m"

abbreviation distinct_keys :: "('k \<times> 'v) list \<Rightarrow> bool" where
  "distinct_keys m \<equiv> distinct (keys m)"

lemma map_of_update [simp]: "map_of (AList.update k v m) = (map_of m)(k \<mapsto> v)"
  by (simp add: update_conv')

lemma map_of_delete [simp]: "map_of (AList.delete k m) = (map_of m)(k := None)"
  by (simp add: delete_conv')

lemma distinct_keys_filter [simp]: "distinct_keys m \<Longrightarrow> distinct_keys (filter P m)"
  by (induction m) auto

lemma map_of_filter_keys:
  "distinct_keys m \<Longrightarrow>
    map_of (filter P m) k = (case map_of m k of Some v \<Rightarrow> if P (k, v) then Some v else None | None \<Rightarrow> None)"
  by (induction m) (auto split: option.splits dest: map_of_SomeD simp: image_iff)

lemma delete_notin: "k \<notin> set (keys m) \<Longrightarrow> AList.delete k m = m"
  by (induction m) auto

lemma set_delete: "set (AList.delete k m) = {(k', v) \<in> set m. k' \<noteq> k}"
  by (induction m) auto

lemma update_fresh: "map_of m k = None \<Longrightarrow> AList.update k v m = m @ [(k, v)]"
  by (induction m) (auto split: if_splits)

lemma sum_list_delete:
  "distinct_keys m \<Longrightarrow> map_of m k = Some v \<Longrightarrow>
    (\<Sum>(k, v) \<leftarrow> AList.delete k m. f v) + f v = (\<Sum>(k, v) \<leftarrow> m. (f v :: nat))"
  by (induction m) (auto simp: delete_notin split: if_splits)

section \<open>Lists related pointwise\<close>

lemma list_all2_set1: "list_all2 P xs ys \<Longrightarrow> \<forall>x \<in> set xs. \<exists>y \<in> set ys. P x y"
  by (induction rule: list_all2_induct) auto

lemma list_all2_set2: "list_all2 P xs ys \<Longrightarrow> \<forall>y \<in> set ys. \<exists>x \<in> set xs. P x y"
  by (induction rule: list_all2_induct) auto

lemma list_all2_map_eq: "list_all2 P xs ys \<Longrightarrow> (\<And>x y. x \<in> set xs \<Longrightarrow> P x y \<Longrightarrow> g y = f x) \<Longrightarrow> map g ys = map f xs"
  by (induction rule: list_all2_induct) auto

end
