(* ===== verification/Errors.thy ===== *)
theory Errors
  imports Prelude
begin

text \<open>
  The error types of the protocol crate (\<open>protocol/src/error.rs\<close>) and of the mesh crate
  (\<open>mesh/src/error.rs\<close>).  The errors of the
  crates the code only calls (libsignal, serde_json) are carried as the text they
  display; of libsignal's error type only the variants that the code constructs are
  told apart.
\<close>

datatype signal_error =
    InvalidPreKeyId
  | InvalidSignedPreKeyId
  | InvalidKyberPreKeyId
  | InvalidState string string
  | OtherSignalError string

datatype parda_error =
    Signal signal_error
  | KeyGeneration string
  | SessionNotFound string
  | InvalidBundle string
  | Codec string
  | Transport string
  | Store string
  | UnsupportedEnvelopeVersion (got: u8) (max_supported: u8)
  | MalformedSealedSender string
  | SealedSenderAuth string
  | MixRouting string
  | SelfDestructExpired
  | ClockRollbackDetected (observed_ms: u64) (watermark_ms: u64)
  | SelfDestructCrypto string
  | IdentityKeyChangedAfterVerification (peer_id: string)
      (verified_fingerprint: string) (observed_fingerprint: string)
  | Internal string

type_synonym 'a parda = "('a, parda_error) result"

datatype mesh_error =
    PeerUnreachable
  | RadioUnavailable string
  | Link string
  | BundleCodec string
  | RelayRefused string
  | NoBundleForAddress
  | Protocol parda_error

type_synonym 'a mesh = "('a, mesh_error) result"

section \<open>Displayed errors\<close>

text \<open>
  The texts of the \<open>#[error]\<close> attributes; the text of a libsignal error is a parameter.
\<close>

definition em_dash :: string where
  "em_dash = map char_of [226, 128, 148 :: nat]"

fun display_parda :: "(signal_error \<Rightarrow> string) \<Rightarrow> parda_error \<Rightarrow> string" where
  "display_parda sig (Signal e) = ''Signal protocol error: '' @ sig e"
| "display_parda sig (KeyGeneration s) = ''Key generation failed: '' @ s"
| "display_parda sig (SessionNotFound s) = ''No session found for address: '' @ s"
| "display_parda sig (InvalidBundle s) = ''Invalid prekey bundle: '' @ s"
| "display_parda sig (Codec s) = ''Envelope codec error: '' @ s"
| "display_parda sig (Transport s) = ''Transport error: '' @ s"
| "display_parda sig (Store s) = ''Store error: '' @ s"
| "display_parda sig (UnsupportedEnvelopeVersion g m) = ''Unsupported envelope version '' @ dec (unat g)
     @ '': this build supports up to '' @ dec (unat m)"
| "display_parda sig (MalformedSealedSender s) = ''Malformed sealed-sender envelope: '' @ s"
| "display_parda sig (SealedSenderAuth s) = ''Sealed-sender authentication failed: '' @ s"
| "display_parda sig (MixRouting s) = ''Mix routing error: '' @ s"
| "display_parda sig SelfDestructExpired = ''Self-destructing message has already expired '' @ em_dash
     @ '' key material is gone''"
| "display_parda sig (ClockRollbackDetected o' w) = ''Clock rollback detected: observed '' @ dec (unat o')
     @ ''ms, last known-good was '' @ dec (unat w) @ ''ms''"
| "display_parda sig (SelfDestructCrypto s) = ''Self-destruct AEAD error: '' @ s"
| "display_parda sig (IdentityKeyChangedAfterVerification p v f) = ''Identity key for peer '' @ p
     @ '' changed after out-of-band verification: verified '' @ v @ '', now observing '' @ f"
| "display_parda sig (Internal s) = ''Internal error: '' @ s"

fun display_mesh :: "(signal_error \<Rightarrow> string) \<Rightarrow> mesh_error \<Rightarrow> string" where
  "display_mesh sig PeerUnreachable = ''peer not reachable''"
| "display_mesh sig (RadioUnavailable s) = ''radio unavailable: '' @ s"
| "display_mesh sig (Link s) = ''link error: '' @ s"
| "display_mesh sig (BundleCodec s) = ''bundle codec error: '' @ s"
| "display_mesh sig (RelayRefused s) = ''relay refused bundle: '' @ s"
| "display_mesh sig NoBundleForAddress = ''no bundle for the requested address''"
| "display_mesh sig (Protocol e) = ''protocol error: '' @ display_parda sig e"

end
