(* ===== verification/Signal_Store.thy ===== *)
theory Signal_Store
  imports Errors
begin

text \<open>
  The in-memory libsignal store (\<open>protocol/src/store.rs\<close>): sessions, pinned identities and
  the three kinds of prekeys.  Records of libsignal are opaque to the store and are carried
  as bytes; the rendering of a \<open>ProtocolAddress\<close>, under which sessions and identities are
  keyed, and the id of a record are functions of libsignal and hence parameters.  The
  store's handles share one \<open>RefCell\<close>, so every operation acts on the one state.
\<close>

section \<open>State\<close>

datatype address = Address (addr_name: string) (addr_device: u32)

type_synonym key_pair = "bytes \<times> bytes"
type_synonym 'a signal = "('a, signal_error) result"

record store_state =
  identity_key_pair :: "key_pair option"
  registration_id :: u32
  trusted_identities :: "string \<rightharpoonup> bytes"
  sessions :: "string \<rightharpoonup> bytes"
  prekeys :: "u32 \<rightharpoonup> bytes"
  signed_prekeys :: "u32 \<rightharpoonup> bytes"
  kyber_prekeys :: "u32 \<rightharpoonup> bytes"

record burn_result =
  session_removed :: bool
  identity_trust_removed :: bool

definition new_signal_store :: "key_pair \<Rightarrow> u32 \<Rightarrow> store_state" where
  "new_signal_store ikp reg =
    \<lparr>identity_key_pair = Some ikp, registration_id = reg, trusted_identities = (\<lambda>_. None),
     sessions = (\<lambda>_. None), prekeys = (\<lambda>_. None), signed_prekeys = (\<lambda>_. None),
     kyber_prekeys = (\<lambda>_. None)\<rparr>"

section \<open>Operations\<close>

text \<open>A record whose id cannot be read stops the batch; the records before it stay.\<close>

fun store_prekey_batch ::
  "(bytes \<Rightarrow> u32 signal) \<Rightarrow> bytes list \<Rightarrow> store_state \<Rightarrow> unit signal \<times> store_state" where
  "store_prekey_batch pk_id [] st = (Ok (), st)"
| "store_prekey_batch pk_id (pk # pks) st =
    (case pk_id pk of
       Err e \<Rightarrow> (Err e, st)
     | Ok i \<Rightarrow> store_prekey_batch pk_id pks (st\<lparr>prekeys := (prekeys st)(i \<mapsto> pk)\<rparr>))"

definition store_signed_prekey_record ::
  "(bytes \<Rightarrow> u32 signal) \<Rightarrow> bytes \<Rightarrow> store_state \<Rightarrow> unit signal \<times> store_state" where
  "store_signed_prekey_record spk_id r st =
    (case spk_id r of
       Err e \<Rightarrow> (Err e, st)
     | Ok i \<Rightarrow> (Ok (), st\<lparr>signed_prekeys := (signed_prekeys st)(i \<mapsto> r)\<rparr>))"

definition burn_session :: "(address \<Rightarrow> string) \<Rightarrow> address \<Rightarrow> store_state \<Rightarrow> burn_result \<times> store_state" where
  "burn_session show_addr a st =
    (let addr_str = show_addr a in
     (\<lparr>session_removed = sessions st addr_str \<noteq> None,
       identity_trust_removed = trusted_identities st addr_str \<noteq> None\<rparr>,
      st\<lparr>sessions := (sessions st)(addr_str := None),
         trusted_identities := (trusted_identities st)(addr_str := None)\<rparr>))"

definition has_conversation_state :: "(address \<Rightarrow> string) \<Rightarrow> address \<Rightarrow> store_state \<Rightarrow> bool" where
  "has_conversation_state show_addr a st \<longleftrightarrow>
    sessions st (show_addr a) \<noteq> None \<or> trusted_identities st (show_addr a) \<noteq> None"

definition load_session :: "(address \<Rightarrow> string) \<Rightarrow> address \<Rightarrow> store_state \<Rightarrow> bytes option signal" where
  "load_session show_addr a st = Ok (sessions st (show_addr a))"

definition store_session :: "(address \<Rightarrow> string) \<Rightarrow> address \<Rightarrow> bytes \<Rightarrow> store_state \<Rightarrow> store_state" where
  "store_session show_addr a r st = st\<lparr>sessions := (sessions st)(show_addr a \<mapsto> r)\<rparr>"

definition get_pre_key :: "u32 \<Rightarrow> store_state \<Rightarrow> bytes signal" where
  "get_pre_key i st = ok_or (prekeys st i) InvalidPreKeyId"

definition save_pre_key :: "u32 \<Rightarrow> bytes \<Rightarrow> store_state \<Rightarrow> store_state" where
  "save_pre_key i r st = st\<lparr>prekeys := (prekeys st)(i \<mapsto> r)\<rparr>"

definition remove_pre_key :: "u32 \<Rightarrow> store_state \<Rightarrow> store_state" where
  "remove_pre_key i st = st\<lparr>prekeys := (prekeys st)(i := None)\<rparr>"

definition get_signed_pre_key :: "u32 \<Rightarrow> store_state \<Rightarrow> bytes signal" where
  "get_signed_pre_key i st = ok_or (signed_prekeys st i) InvalidSignedPreKeyId"

definition save_signed_pre_key :: "u32 \<Rightarrow> bytes \<Rightarrow> store_state \<Rightarrow> store_state" where
  "save_signed_pre_key i r st = st\<lparr>signed_prekeys := (signed_prekeys st)(i \<mapsto> r)\<rparr>"

definition get_kyber_pre_key :: "u32 \<Rightarrow> store_state \<Rightarrow> bytes signal" where
  "get_kyber_pre_key i st = ok_or (kyber_prekeys st i) InvalidKyberPreKeyId"

definition save_kyber_pre_key :: "u32 \<Rightarrow> bytes \<Rightarrow> store_state \<Rightarrow> store_state" where
  "save_kyber_pre_key i r st = st\<lparr>kyber_prekeys := (kyber_prekeys st)(i \<mapsto> r)\<rparr>"

definition mark_kyber_pre_key_used :: "u32 \<Rightarrow> store_state \<Rightarrow> store_state" where
  "mark_kyber_pre_key_used i st = st\<lparr>kyber_prekeys := (kyber_prekeys st)(i := None)\<rparr>"

definition get_identity_key_pair :: "store_state \<Rightarrow> key_pair signal" where
  "get_identity_key_pair st =
    ok_or (identity_key_pair st) (InvalidState ''identity'' ''not initialized'')"

definition get_local_registration_id :: "store_state \<Rightarrow> u32 signal" where
  "get_local_registration_id st = Ok (registration_id st)"

definition save_identity :: "(address \<Rightarrow> string) \<Rightarrow> address \<Rightarrow> bytes \<Rightarrow> store_state \<Rightarrow> bool \<times> store_state" where
  "save_identity show_addr a ik st =
    (let changed = (case trusted_identities st (show_addr a) of Some existing \<Rightarrow> existing \<noteq> ik | None \<Rightarrow> True)
     in (changed, st\<lparr>trusted_identities := (trusted_identities st)(show_addr a \<mapsto> ik)\<rparr>))"

definition is_trusted_identity :: "(address \<Rightarrow> string) \<Rightarrow> address \<Rightarrow> bytes \<Rightarrow> store_state \<Rightarrow> bool" where
  "is_trusted_identity show_addr a ik st =
    (case trusted_identities st (show_addr a) of Some stored \<Rightarrow> stored = ik | None \<Rightarrow> True)"

definition get_identity :: "(address \<Rightarrow> string) \<Rightarrow> address \<Rightarrow> store_state \<Rightarrow> bytes option signal" where
  "get_identity show_addr a st = Ok (trusted_identities st (show_addr a))"

section \<open>The contract of a one-time key store\<close>

text \<open>
  The prekey and the Kyber prekey tables answer the same way: a key that was saved is
  returned until it is used up, and then never again.
\<close>

locale one_time_keys =
  fixes get :: "u32 \<Rightarrow> 's \<Rightarrow> bytes signal"
    and save :: "u32 \<Rightarrow> bytes \<Rightarrow> 's \<Rightarrow> 's"
    and use_up :: "u32 \<Rightarrow> 's \<Rightarrow> 's"
    and missing :: signal_error
  assumes get_save: "get i (save j r s) = (if i = j then Ok r else get i s)"
    and get_use: "get i (use_up j s) = (if i = j then Err missing else get i s)"
begin

lemma get_use_all:
  "get i (fold use_up js s) = (if i \<in> set js then Err missing else get i s)"
  by (induction js arbitrary: s) (auto simp: get_use)

lemma used_up_key_is_gone: "get i (fold use_up js (use_up i s)) = Err missing"
  by (simp add: get_use_all get_use)

lemma get_after_other_uses:
  "i \<notin> set js \<Longrightarrow> get i (fold use_up js (save i r s)) = Ok r"
  by (simp add: get_use_all get_save)

end

interpretation ec_keys: one_time_keys get_pre_key save_pre_key remove_pre_key InvalidPreKeyId
  by unfold_locales (simp_all add: get_pre_key_def save_pre_key_def remove_pre_key_def)

interpretation kyber_keys: one_time_keys get_kyber_pre_key save_kyber_pre_key
    mark_kyber_pre_key_used InvalidKyberPreKeyId
  by unfold_locales (simp_all add: get_kyber_pre_key_def save_kyber_pre_key_def
      mark_kyber_pre_key_used_def)

section \<open>Properties\<close>

text \<open>
  Burning a conversation removes exactly that conversation's session and pinned
  identity, reports which of the two existed, leaves every other conversation and all keys
  as they were, and makes the next identity from that address a first contact again.
\<close>

theorem burn_session_exact:
  assumes "inj show_addr" "burn_session show_addr a st = (r, st')"
  shows "session_removed r = (sessions st (show_addr a) \<noteq> None)
    \<and> identity_trust_removed r = (trusted_identities st (show_addr a) \<noteq> None)
    \<and> \<not> has_conversation_state show_addr a st'
    \<and> is_trusted_identity show_addr a ik st'
    \<and> (\<forall>b. b \<noteq> a \<longrightarrow> load_session show_addr b st' = load_session show_addr b st
        \<and> get_identity show_addr b st' = get_identity show_addr b st)
    \<and> prekeys st' = prekeys st \<and> signed_prekeys st' = signed_prekeys st
    \<and> kyber_prekeys st' = kyber_prekeys st \<and> identity_key_pair st' = identity_key_pair st
    \<and> fst (burn_session show_addr a st') = \<lparr>session_removed = False, identity_trust_removed = False\<rparr>"
  using assms by (auto simp: burn_session_def Let_def has_conversation_state_def
      is_trusted_identity_def load_session_def get_identity_def inj_eq)

text \<open>A rendering of addresses for the witnesses.\<close>

definition show_address :: "address \<Rightarrow> string" where
  "show_address a = dec (unat (addr_device a)) @ ''.'' @ addr_name a"

lemma dec_no_dot: "CHR ''.'' \<notin> set (dec n)"
  using dec_digits [of "CHR ''.''" n] by (auto simp: is_ascii_digit_def)

lemma inj_show_address: "inj show_address"
  by (rule injI, case_tac x, case_tac y)
    (auto simp: show_address_def append_sep_inject dec_no_dot dest: unat_eqD)

definition burn_example :: store_state where
  "burn_example = store_session show_address (Address ''bob'' 1) [1]
     (snd (save_identity show_address (Address ''bob'' 1) [2] (new_signal_store ([3], [4]) 7)))"

theorem burn_session_exact_witness:
  "\<not> has_conversation_state show_address (Address ''bob'' 1)
      (snd (burn_session show_address (Address ''bob'' 1) burn_example))"
  using burn_session_exact [OF inj_show_address
      prod.collapse [of "burn_session show_address (Address ''bob'' 1) burn_example", symmetric]]
  by simp

end
