(* ===== verification/Trust.thy ===== *)
theory Trust
  imports Errors
begin

text \<open>
  Out-of-band verification of identity keys (\<open>protocol/src/trust.rs\<close>).  An identity key is
  its serialised bytes; HKDF-SHA256 (salt, input key material, info, giving the 60 output
  bytes) is the parameter \<open>hkdf\<close>.  The trait \<open>TrustStore\<close> is the locale \<open>trust_store\<close>,
  interpreted by \<open>InMemoryTrustStore\<close>; its clients take the store's lookup.
\<close>

section \<open>Fingerprints\<close>

type_synonym identity_key = bytes
type_synonym fingerprint = bytes

definition FINGERPRINT_CONTEXT :: bytes where
  "FINGERPRINT_CONTEXT = utf8 ''PARDA-Fingerprint-v1''"

definition FINGERPRINT_LEN :: nat where
  "FINGERPRINT_LEN = 60"

text \<open>The order of Rust's byte slices.\<close>

fun bytes_le :: "bytes \<Rightarrow> bytes \<Rightarrow> bool" where
  "bytes_le [] ys = True"
| "bytes_le (x # xs) [] = False"
| "bytes_le (x # xs) (y # ys) = (x < y \<or> x = y \<and> bytes_le xs ys)"

type_synonym hkdf = "bytes \<Rightarrow> bytes \<Rightarrow> bytes \<Rightarrow> bytes"

definition compute_fingerprint :: "hkdf \<Rightarrow> identity_key \<Rightarrow> identity_key \<Rightarrow> fingerprint" where
  "compute_fingerprint hkdf a b =
    (let (fst_key, snd_key) = (if bytes_le a b then (a, b) else (b, a))
     in hkdf FINGERPRINT_CONTEXT (fst_key @ snd_key) FINGERPRINT_CONTEXT)"

fun chunks_exact :: "nat \<Rightarrow> 'a list \<Rightarrow> 'a list list" where
  "chunks_exact n xs =
    (if n = 0 \<or> length xs < n then [] else take n xs # chunks_exact n (drop n xs))"

declare chunks_exact.simps [simp del]

definition chunk_value :: "bytes \<Rightarrow> u64" where
  "chunk_value chunk = foldl (\<lambda>acc b. or (push_bit 8 acc) (ucast b)) 0 chunk"

definition digit_group :: "bytes \<Rightarrow> string" where
  "digit_group chunk = pad_zeros 5 (dec (unat (chunk_value chunk mod 100000)))"

definition fingerprint_digits :: "fingerprint \<Rightarrow> string" where
  "fingerprint_digits fp = join '' '' (map digit_group (chunks_exact 5 fp))"

definition debug_fingerprint :: "fingerprint \<Rightarrow> string" where
  "debug_fingerprint fp = ''Fingerprint('' @ fingerprint_digits fp @ '')''"

section \<open>The trust store\<close>

datatype trust_level = Tofu | Verified

record trust_mem =
  verified_map :: "string \<rightharpoonup> fingerprint"

definition new_trust_store :: trust_mem where
  "new_trust_store = \<lparr>verified_map = (\<lambda>_. None)\<rparr>"

definition lookup_verified :: "trust_mem \<Rightarrow> string \<Rightarrow> fingerprint option" where
  "lookup_verified s peer = verified_map s peer"

definition record_verified :: "string \<Rightarrow> fingerprint \<Rightarrow> trust_mem \<Rightarrow> trust_mem" where
  "record_verified peer fp s = s\<lparr>verified_map := (verified_map s)(peer \<mapsto> fp)\<rparr>"

definition forget_verification :: "string \<Rightarrow> trust_mem \<Rightarrow> trust_mem" where
  "forget_verification peer s = s\<lparr>verified_map := (verified_map s)(peer := None)\<rparr>"

definition get_trust_level :: "('s \<Rightarrow> string \<Rightarrow> fingerprint option) \<Rightarrow> 's \<Rightarrow> string \<Rightarrow> trust_level" where
  "get_trust_level verified s peer = (case verified s peer of Some _ \<Rightarrow> Verified | None \<Rightarrow> Tofu)"

definition check_identity ::
  "hkdf \<Rightarrow> ('s \<Rightarrow> string \<Rightarrow> fingerprint option) \<Rightarrow> 's \<Rightarrow> string \<Rightarrow> identity_key \<Rightarrow> identity_key \<Rightarrow> unit parda" where
  "check_identity hkdf verified s peer local_key remote_key =
    (case verified s peer of
       None \<Rightarrow> Ok ()
     | Some fp \<Rightarrow>
         let observed = compute_fingerprint hkdf local_key remote_key in
         if observed = fp then Ok ()
         else Err (IdentityKeyChangedAfterVerification peer (fingerprint_digits fp)
                (fingerprint_digits observed)))"

text \<open>What the owner of a trust store does to it over time, oldest first.\<close>

datatype trust_event =
    Verify (trust_peer: string) fingerprint
  | Forget (trust_peer: string)

fun trust_outcome :: "trust_event \<Rightarrow> fingerprint option" where
  "trust_outcome (Verify p fp) = Some fp"
| "trust_outcome (Forget p) = None"

definition last_verification :: "trust_event list \<Rightarrow> string \<Rightarrow> fingerprint option" where
  "last_verification evs p = (case rev (filter (\<lambda>ev. trust_peer ev = p) evs) of
     [] \<Rightarrow> None
   | ev # _ \<Rightarrow> trust_outcome ev)"

lemma last_verification_Nil [simp]: "last_verification [] p = None"
  by (simp add: last_verification_def)

lemma last_verification_snoc [simp]:
  "last_verification (evs @ [ev]) p = (if trust_peer ev = p then trust_outcome ev else last_verification evs p)"
  by (simp add: last_verification_def)

fun trust_step :: "(string \<Rightarrow> fingerprint \<Rightarrow> 's \<Rightarrow> 's) \<Rightarrow> (string \<Rightarrow> 's \<Rightarrow> 's) \<Rightarrow> trust_event \<Rightarrow> 's \<Rightarrow> 's" where
  "trust_step rec forget (Verify p fp) s = rec p fp s"
| "trust_step rec forget (Forget p) s = forget p s"

section \<open>The contract of a trust store\<close>

locale trust_store =
  fixes verified :: "'s \<Rightarrow> string \<Rightarrow> fingerprint option"
    and rec :: "string \<Rightarrow> fingerprint \<Rightarrow> 's \<Rightarrow> 's"
    and forget :: "string \<Rightarrow> 's \<Rightarrow> 's"
  assumes verified_rec: "verified (rec p fp s) = (verified s)(p \<mapsto> fp)"
    and verified_forget: "verified (forget p s) = (verified s)(p := None)"
begin

lemma check_after_record:
  "check_identity hkdf verified (rec p (compute_fingerprint hkdf l r) s) p l r' = Ok ()
    \<longleftrightarrow> compute_fingerprint hkdf l r' = compute_fingerprint hkdf l r"
  by (simp add: check_identity_def verified_rec Let_def)

lemma check_other_peer:
  "q \<noteq> p \<Longrightarrow> check_identity hkdf verified (rec p fp s) q l r = check_identity hkdf verified s q l r"
  "q \<noteq> p \<Longrightarrow> check_identity hkdf verified (forget p s) q l r = check_identity hkdf verified s q l r"
  by (simp_all add: check_identity_def verified_rec verified_forget)

lemma check_after_forget: "check_identity hkdf verified (forget p s) p l r = Ok ()"
  by (simp add: check_identity_def verified_forget)

lemma trust_levels:
  "get_trust_level verified (rec p fp s) p = Verified"
  "get_trust_level verified (forget p s) p = Tofu"
  by (simp_all add: get_trust_level_def verified_rec verified_forget)

lemma verified_after:
  assumes "verified s = (\<lambda>_. None)"
  shows "verified (fold (trust_step rec forget) evs s) = last_verification evs"
proof (induction evs rule: rev_induct)
  case Nil
  then show ?case
    using assms by (simp add: fun_eq_iff)
next
  case (snoc ev evs)
  then show ?case
    by (cases ev) (auto simp: fun_eq_iff verified_rec verified_forget)
qed

end

lemma trust_mem_laws:
  "lookup_verified (record_verified p fp s) = (lookup_verified s)(p \<mapsto> fp)"
  "lookup_verified (forget_verification p s) = (lookup_verified s)(p := None)"
  by (auto simp: lookup_verified_def record_verified_def forget_verification_def)

interpretation mem_ts: trust_store lookup_verified record_verified forget_verification
  by unfold_locales (rule trust_mem_laws)+

definition trust_after :: "trust_event list \<Rightarrow> trust_mem" where
  "trust_after evs = fold (trust_step record_verified forget_verification) evs new_trust_store"

lemma lookup_trust_after: "lookup_verified (trust_after evs) = last_verification evs"
  unfolding trust_after_def
  by (rule mem_ts.verified_after) (simp add: fun_eq_iff lookup_verified_def new_trust_store_def)

lemma check_identity_cases:
  "check_identity hkdf verified s p l r = Ok () \<longleftrightarrow>
    (\<forall>fp. verified s p = Some fp \<longrightarrow> compute_fingerprint hkdf l r = fp)"
  by (simp add: check_identity_def Let_def split: option.split)

lemma check_identity_Err:
  "check_identity hkdf verified s p l r = Err e \<longleftrightarrow>
    (\<exists>fp. verified s p = Some fp \<and> compute_fingerprint hkdf l r \<noteq> fp
      \<and> e = IdentityKeyChangedAfterVerification p (fingerprint_digits fp)
          (fingerprint_digits (compute_fingerprint hkdf l r)))"
  by (auto simp: check_identity_def Let_def split: option.split)

section \<open>Order and groups\<close>

lemma bytes_le_total: "bytes_le a b \<or> bytes_le b a"
  by (induction a b rule: bytes_le.induct) auto

lemma bytes_le_antisym: "bytes_le a b \<Longrightarrow> bytes_le b a \<Longrightarrow> a = b"
  by (induction a b rule: bytes_le.induct) (auto elim: bytes_le.elims)

lemma length_chunks_exact: "0 < n \<Longrightarrow> length xs = n * k \<Longrightarrow> length (chunks_exact n xs) = k"
  by (induction k arbitrary: xs) (auto simp: chunks_exact.simps)

lemma unat_mod_100000: "unat (x mod 100000 :: u64) < 100000"
  by (simp add: unat_mod)

lemma length_digit_group: "length (digit_group chunk) = 5"
proof -
  have "length (dec (unat (chunk_value chunk mod 100000))) \<le> Suc 4"
    by (rule length_dec_le) (use unat_mod_100000 in simp)
  then show ?thesis
    by (simp add: digit_group_def pad_zeros_def)
qed

lemma digit_group_digits: "c \<in> set (digit_group chunk) \<Longrightarrow> is_ascii_digit c"
  by (auto simp: digit_group_def pad_zeros_def is_ascii_digit_def dest: dec_digits split: if_splits)

section \<open>Properties\<close>

text \<open>
  Both parties compute the same fingerprint from either perspective, whatever the two
  keys and the key derivation function.
\<close>

theorem fingerprint_symmetric:
  "compute_fingerprint hkdf a b = compute_fingerprint hkdf b a"
  using bytes_le_total [of a b] bytes_le_antisym [of a b]
  by (auto simp: compute_fingerprint_def)

text \<open>
  The displayed form of a 60-byte fingerprint is twelve groups of exactly five decimal
  digits, separated by single spaces.
\<close>

theorem fingerprint_digits_shape:
  assumes "length fp = FINGERPRINT_LEN"
  shows "\<exists>gs. fingerprint_digits fp = join '' '' gs \<and> length gs = 12
    \<and> (\<forall>g \<in> set gs. length g = 5 \<and> (\<forall>c \<in> set g. is_ascii_digit c))"
  using assms length_chunks_exact [of 5 fp 12]
  by (intro exI [of _ "map digit_group (chunks_exact 5 fp)"])
    (auto simp: fingerprint_digits_def FINGERPRINT_LEN_def length_digit_group dest: digit_group_digits)

theorem fingerprint_digits_shape_witness:
  "\<exists>gs. fingerprint_digits (replicate 60 255) = join '' '' gs \<and> length gs = 12"
  using fingerprint_digits_shape [of "replicate 60 255"] by (auto simp: FINGERPRINT_LEN_def)

text \<open>
  After a peer was verified with the key \<open>r\<close>, exactly the keys with the verified
  fingerprint are accepted from that peer, whatever happens to other peers in between; a
  mismatch is the dedicated error that shows both fingerprints; forgetting the
  verification is the only way back to accepting any key.
\<close>

theorem verified_peer_is_pinned:
  fixes s :: trust_mem
    and hkdf :: hkdf and l r :: identity_key
  assumes "p \<noteq> q"
  defines "s' \<equiv> record_verified p (compute_fingerprint hkdf l r) s"
  shows "check_identity hkdf lookup_verified (record_verified q fp s') p l r'
      = (if compute_fingerprint hkdf l r' = compute_fingerprint hkdf l r then Ok ()
         else Err (IdentityKeyChangedAfterVerification p
           (fingerprint_digits (compute_fingerprint hkdf l r))
           (fingerprint_digits (compute_fingerprint hkdf l r'))))
    \<and> check_identity hkdf lookup_verified (forget_verification q s') p l r'
      = check_identity hkdf lookup_verified s' p l r'
    \<and> check_identity hkdf lookup_verified (forget_verification p s') p l r' = Ok ()
    \<and> get_trust_level lookup_verified (forget_verification p s') p = Tofu"
  using assms(1)
  by (simp add: mem_ts.check_other_peer mem_ts.check_after_forget mem_ts.trust_levels)
    (simp add: s'_def check_identity_def trust_mem_laws Let_def)

theorem verified_peer_is_pinned_witness:
  "\<exists>e. check_identity (\<lambda>salt ikm info. ikm) lookup_verified
      (record_verified ''eve'' [] (record_verified ''bob''
        (compute_fingerprint (\<lambda>salt ikm info. ikm) [1] [2]) new_trust_store)) ''bob'' [1] [3] = Err e"
  using verified_peer_is_pinned [of "''bob''" "''eve''" "\<lambda>salt ikm info. ikm" "[]" "[1]" "[2]"
      new_trust_store "[3]"]
  by (simp add: compute_fingerprint_def)

end
