(* ===== verification/Envelope.thy ===== *)
theory Envelope
  imports Errors
begin

text \<open>
  The wire envelope (\<open>protocol/src/envelope.rs\<close>): its record, the version and
  sealed-sender checks every decrypt path makes first, and the two declarations of
  self-destruction.  Serialisation is the derived serde code, which is not part of the
  repository: the components that put an envelope on a wire take an encoder and a
  decoder and name the round trip they rely on (\<open>envelope_codec\<close>).
\<close>

section \<open>Wire types\<close>

definition ENVELOPE_VERSION_V1 :: u8 where
  "ENVELOPE_VERSION_V1 = 1"

definition ENVELOPE_VERSION_V2 :: u8 where
  "ENVELOPE_VERSION_V2 = 2"

definition MAX_SUPPORTED_ENVELOPE_VERSION :: u8 where
  "MAX_SUPPORTED_ENVELOPE_VERSION = ENVELOPE_VERSION_V2"

definition default_envelope_version :: u8 where
  "default_envelope_version = ENVELOPE_VERSION_V1"

datatype envelope_type = PreKey | Ratchet | SealedSender

fun debug_envelope_type :: "envelope_type \<Rightarrow> string" where
  "debug_envelope_type PreKey = ''PreKey''"
| "debug_envelope_type Ratchet = ''Ratchet''"
| "debug_envelope_type SealedSender = ''SealedSender''"

record message_envelope =
  sender_id :: string
  recipient_id :: string
  ciphertext :: bytes
  env_type :: envelope_type
  timestamp_ms :: u64
  version :: u8
  sealed_sender :: bool
  routing_hint :: "bytes option"
  self_destruct_at :: "u64 option"
  read_triggered_destruct :: bool
  dead_drop_address :: "bytes option"

section \<open>Operations\<close>

definition validate_version :: "message_envelope \<Rightarrow> unit parda" where
  "validate_version e =
    (if version e > MAX_SUPPORTED_ENVELOPE_VERSION then
       Err (UnsupportedEnvelopeVersion (version e) MAX_SUPPORTED_ENVELOPE_VERSION)
     else if sealed_sender e \<and> version e < ENVELOPE_VERSION_V2 then
       Err (MalformedSealedSender ''sealed_sender = true is not valid on a version-1 envelope'')
     else if sealed_sender e \<and> env_type e \<noteq> SealedSender then
       Err (MalformedSealedSender (''sealed_sender = true requires envelope_type = SealedSender, got ''
              @ debug_envelope_type (env_type e)))
     else if \<not> sealed_sender e \<and> env_type e = SealedSender then
       Err (MalformedSealedSender ''envelope_type = SealedSender requires sealed_sender = true'')
     else Ok ())"

text \<open>The addition is Rust's \<open>u64\<close> addition of a release build, which wraps.\<close>

definition with_self_destruct :: "duration \<Rightarrow> message_envelope \<Rightarrow> message_envelope" where
  "with_self_destruct expiry_window e =
    e\<lparr>self_destruct_at := Some (timestamp_ms e + as_millis_u64 expiry_window)\<rparr>"

definition with_read_triggered_destruct :: "message_envelope \<Rightarrow> message_envelope" where
  "with_read_triggered_destruct e = e\<lparr>read_triggered_destruct := True\<rparr>"

text \<open>The round trip the wire formats rely on.\<close>

definition envelope_codec ::
  "(message_envelope \<Rightarrow> (bytes, string) result) \<Rightarrow> (bytes \<Rightarrow> (message_envelope, string) result) \<Rightarrow> bool" where
  "envelope_codec enc decode \<longleftrightarrow> (\<forall>e b. enc e = Ok b \<longrightarrow> decode b = Ok e)"

section \<open>What a valid envelope is\<close>

definition envelope_ok :: "message_envelope \<Rightarrow> bool" where
  "envelope_ok e \<longleftrightarrow> version e \<le> 2 \<and> (sealed_sender e \<longleftrightarrow> env_type e = SealedSender)
    \<and> (sealed_sender e \<longrightarrow> version e = 2)"

lemmas version_defs = ENVELOPE_VERSION_V1_def ENVELOPE_VERSION_V2_def
  MAX_SUPPORTED_ENVELOPE_VERSION_def default_envelope_version_def

lemma validate_version_Ok [simp]: "validate_version e = Ok () \<longleftrightarrow> envelope_ok e"
  by (cases "env_type e") (auto simp: validate_version_def envelope_ok_def version_defs not_less)

lemma validate_version_Err_cases:
  assumes "validate_version e = Err x"
  obtains (version) "x = UnsupportedEnvelopeVersion (version e) 2" "version e > 2"
  | (sealed) s where "x = MalformedSealedSender s" "version e \<le> 2"
      "sealed_sender e \<noteq> (env_type e = SealedSender) \<or> sealed_sender e \<and> version e < 2"
  using assms by (auto simp: validate_version_def version_defs not_less split: if_splits)

lemma validate_version_with_read_triggered [simp]:
  "validate_version (with_read_triggered_destruct e) = validate_version e"
  by (simp add: validate_version_def with_read_triggered_destruct_def)

lemma validate_version_with_self_destruct [simp]:
  "validate_version (with_self_destruct w e) = validate_version e"
  by (simp add: validate_version_def with_self_destruct_def)

lemma unat_self_destruct_at:
  assumes "unat (timestamp_ms e) + as_millis w < 2 ^ 64"
  shows "\<exists>d. self_destruct_at (with_self_destruct w e) = Some d
    \<and> unat d = unat (timestamp_ms e) + as_millis w"
proof -
  have "as_millis w < 2 ^ 64"
    using assms by linarith
  then have "unat (as_millis_u64 w) = as_millis w"
    by (simp add: as_millis_u64_def unat_of_nat take_bit_nat_eq_self)
  then show ?thesis
    using assms by (simp add: with_self_destruct_def unat_word_ariths)
qed

end
