(* ===== verification/Identity.thy ===== *)
theory Identity
  imports Signal_Store
begin

text \<open>
  Local identities and prekey bundles (\<open>protocol/src/identity.rs\<close>), and the certificate
  authority of sealed sender (\<open>protocol/src/sealed_sender.rs\<close>).  Key generation, signatures
  and certificates are libsignal's: the functions of \<open>cert_lib\<close> and of a signature scheme.
  Key pairs drawn from the random generator are arguments, one per draw.
\<close>

section \<open>Prekey bundles\<close>

record prekey_bundle =
  pb_registration_id :: u32
  pb_device_id :: u32
  pb_prekey :: "(u32 \<times> bytes) option"
  pb_signed_prekey_id :: u32
  pb_signed_prekey_public :: bytes
  pb_signature :: bytes
  pb_identity_key :: bytes

record prekey_record =
  pk_id :: u32
  pk_pair :: key_pair

record signed_prekey_record =
  spk_id :: u32
  spk_timestamp :: u64
  spk_pair :: key_pair
  spk_signature :: bytes

record local_identity =
  li_registration_id :: u32
  li_identity_key_pair :: key_pair
  li_signed_prekey :: signed_prekey_record
  li_one_time_prekeys :: "prekey_record list"

definition ONE_TIME_PREKEY_BATCH :: nat where
  "ONE_TIME_PREKEY_BATCH = 100"

text \<open>
  \<open>sign\<close> is \<open>calculate_signature\<close> with its error as displayed; \<open>wall\<close> is the reading of the
  wall clock, whose error \<open>clock_err\<close> is reported when it is before the epoch.
\<close>

definition generate_identity ::
  "(bytes \<Rightarrow> bytes \<Rightarrow> (bytes, string) result) \<Rightarrow> string \<Rightarrow> key_pair \<Rightarrow> key_pair \<Rightarrow> (nat \<Rightarrow> key_pair)
    \<Rightarrow> int \<Rightarrow> u32 \<Rightarrow> local_identity parda" where
  "generate_identity sign clock_err identity_kp signed_kp one_time_kp wall reg =
    and_then (if wall < 0 then Err (KeyGeneration clock_err) else Ok (unix_millis wall)) (\<lambda>now_ms.
    and_then (map_err KeyGeneration (sign (snd identity_kp) (fst signed_kp))) (\<lambda>signature.
    Ok \<lparr>li_registration_id = reg,
        li_identity_key_pair = identity_kp,
        li_signed_prekey = \<lparr>spk_id = 1, spk_timestamp = now_ms, spk_pair = signed_kp,
          spk_signature = signature\<rparr>,
        li_one_time_prekeys =
          map (\<lambda>i. \<lparr>pk_id = of_nat i, pk_pair = one_time_kp i\<rparr>) [0..<ONE_TIME_PREKEY_BATCH]\<rparr>))"

definition build_prekey_bundle ::
  "(prekey_bundle \<Rightarrow> prekey_bundle signal) \<Rightarrow> local_identity \<Rightarrow> prekey_bundle parda" where
  "build_prekey_bundle bundle_new li =
    (let otpk = (case li_one_time_prekeys li of [] \<Rightarrow> None | pk # _ \<Rightarrow> Some (pk_id pk, fst (pk_pair pk)))
     in map_err Signal (bundle_new
       \<lparr>pb_registration_id = li_registration_id li,
        pb_device_id = 1,
        pb_prekey = otpk,
        pb_signed_prekey_id = spk_id (li_signed_prekey li),
        pb_signed_prekey_public = fst (spk_pair (li_signed_prekey li)),
        pb_signature = spk_signature (li_signed_prekey li),
        pb_identity_key = fst (li_identity_key_pair li)\<rparr>))"

section \<open>Sender certificates\<close>

definition SERVER_CERT_KEY_ID :: u32 where
  "SERVER_CERT_KEY_ID = 1"

definition DEFAULT_SENDER_CERT_TTL :: duration where
  "DEFAULT_SENDER_CERT_TTL = 24 * 60 * 60 * 1000000000"

text \<open>The certificate operations of libsignal; certificates are opaque bytes.\<close>

record cert_lib =
  cl_public_of :: "bytes \<Rightarrow> bytes"
  cl_server_cert :: "u32 \<Rightarrow> bytes \<Rightarrow> bytes \<Rightarrow> bytes signal"
  cl_sender_cert :: "string \<Rightarrow> bytes \<Rightarrow> u32 \<Rightarrow> u64 \<Rightarrow> bytes \<Rightarrow> bytes \<Rightarrow> bytes signal"
  cl_validate :: "bytes \<Rightarrow> bytes \<Rightarrow> u64 \<Rightarrow> bool signal"

record certificate_authority =
  ca_trust_root :: key_pair
  ca_server_key_pair :: key_pair
  ca_server_certificate :: bytes

definition from_trust_root :: "cert_lib \<Rightarrow> key_pair \<Rightarrow> key_pair \<Rightarrow> certificate_authority parda" where
  "from_trust_root cl trust_root server_kp =
    and_then (map_err Signal (cl_server_cert cl SERVER_CERT_KEY_ID (fst server_kp) (snd trust_root)))
      (\<lambda>server_certificate.
    Ok \<lparr>ca_trust_root = trust_root, ca_server_key_pair = server_kp,
        ca_server_certificate = server_certificate\<rparr>)"

definition trust_root_public_key :: "certificate_authority \<Rightarrow> bytes" where
  "trust_root_public_key ca = fst (ca_trust_root ca)"

text \<open>\<open>since_epoch\<close> is the time since the Unix epoch; the code panics on an earlier clock.\<close>

definition issue_sender_certificate ::
  "cert_lib \<Rightarrow> certificate_authority \<Rightarrow> string \<Rightarrow> bytes \<Rightarrow> u32 \<Rightarrow> duration \<Rightarrow> duration \<Rightarrow> bytes parda" where
  "issue_sender_certificate cl ca sender_uuid identity_public_key device_id since_epoch ttl =
    map_err Signal (cl_sender_cert cl sender_uuid identity_public_key device_id
      (as_millis_u64 (since_epoch + ttl)) (ca_server_certificate ca) (snd (ca_server_key_pair ca)))"

definition validate_sender_certificate ::
  "cert_lib \<Rightarrow> bytes \<Rightarrow> bytes \<Rightarrow> duration \<Rightarrow> unit parda" where
  "validate_sender_certificate cl cert trust_root since_epoch =
    and_then (map_err Signal (cl_validate cl cert trust_root (as_millis_u64 since_epoch))) (\<lambda>valid.
    if valid then Ok ()
    else Err (SealedSenderAuth ''sender certificate failed trust-root/expiry validation''))"

text \<open>A drawn key pair: the public half is that of the private one.\<close>

definition matching :: "(bytes \<Rightarrow> bytes) \<Rightarrow> key_pair \<Rightarrow> bool" where
  "matching public_of kp \<longleftrightarrow> fst kp = public_of (snd kp)"

text \<open>
  What libsignal documents of its certificates: a sender certificate signed with the server's
  private key, under a server certificate for that key's public half which the trust root's
  private key signed, validates under the trust root's public key until its expiration, and not
  after it.
\<close>

definition cert_law :: "cert_lib \<Rightarrow> bool" where
  "cert_law cl \<longleftrightarrow>
    (\<forall>root server sc uuid ik dev expiry cert now.
      cl_server_cert cl SERVER_CERT_KEY_ID (cl_public_of cl server) root = Ok sc \<longrightarrow>
      cl_sender_cert cl uuid ik dev expiry sc server = Ok cert \<longrightarrow>
      cl_validate cl cert (cl_public_of cl root) now = Ok (now \<le> expiry))"

text \<open>A signature scheme: what a private key signs verifies under its public key.\<close>

record signature_lib =
  sg_public_of :: "bytes \<Rightarrow> bytes"
  sg_sign :: "bytes \<Rightarrow> bytes \<Rightarrow> (bytes, string) result"
  sg_verify :: "bytes \<Rightarrow> bytes \<Rightarrow> bytes \<Rightarrow> bool"

definition signature_law :: "signature_lib \<Rightarrow> bool" where
  "signature_law G \<longleftrightarrow> (\<forall>sk m sg. sg_sign G sk m = Ok sg \<longrightarrow> sg_verify G (sg_public_of G sk) m sg)"

section \<open>Lemmas\<close>

lemma distinct_one_time_ids:
  assumes "generate_identity sign ce ik sk otk wall reg = Ok li"
  shows "map pk_id (li_one_time_prekeys li) = map of_nat [0..<100]"
    and "distinct (map pk_id (li_one_time_prekeys li))"
proof -
  show ids: "map pk_id (li_one_time_prekeys li) = map of_nat [0..<100]"
    using assms by (auto simp: generate_identity_def and_then_Ok_iff ONE_TIME_PREKEY_BATCH_def)
  have "inj_on (of_nat :: nat \<Rightarrow> u32) (set [0..<100])"
  proof (rule inj_onI)
    fix i j :: nat
    assume *: "i \<in> set [0..<100]" "j \<in> set [0..<100]" "(of_nat i :: u32) = of_nat j"
    have "unat (of_nat k :: u32) = k" if "k < 100" for k :: nat
      using that by (intro unat_of_nat_small) simp
    with * show "i = j"
      by (metis atLeastLessThan_iff set_upt)
  qed
  then show "distinct (map pk_id (li_one_time_prekeys li))"
    by (simp add: ids distinct_map)
qed

lemma as_millis_u64_small: "as_millis d < 2 ^ 64 \<Longrightarrow> unat (as_millis_u64 d) = as_millis d"
  by (simp add: as_millis_u64_def unat_of_nat take_bit_nat_eq_self)

lemma certificate_lifetime:
  assumes "cert_law cl" "matching (cl_public_of cl) root" "matching (cl_public_of cl) server"
    and "from_trust_root cl root server = Ok ca"
    and "issue_sender_certificate cl ca uuid ik dev issued ttl = Ok cert"
    and "as_millis (issued + ttl) < 2 ^ 64" "as_millis now < 2 ^ 64"
  shows "validate_sender_certificate cl cert (trust_root_public_key ca) now =
    (if as_millis now \<le> as_millis (issued + ttl) then Ok ()
     else Err (SealedSenderAuth ''sender certificate failed trust-root/expiry validation''))"
proof -
  obtain sc where sc: "cl_server_cert cl SERVER_CERT_KEY_ID (fst server) (snd root) = Ok sc"
    and ca: "ca = \<lparr>ca_trust_root = root, ca_server_key_pair = server, ca_server_certificate = sc\<rparr>"
    using assms(4) by (auto simp: from_trust_root_def and_then_Ok_iff)
  have "cl_sender_cert cl uuid ik dev (as_millis_u64 (issued + ttl)) sc (snd server) = Ok cert"
    using assms(5) by (simp add: issue_sender_certificate_def ca)
  then have "cl_validate cl cert (fst root) (as_millis_u64 now)
      = Ok (as_millis_u64 now \<le> as_millis_u64 (issued + ttl))"
    using assms(1-3) sc by (auto simp: cert_law_def matching_def)
  moreover have "as_millis_u64 now \<le> as_millis_u64 (issued + ttl) \<longleftrightarrow> as_millis now \<le> as_millis (issued + ttl)"
    using assms(6,7) by (simp add: word_le_nat_alt as_millis_u64_small)
  ultimately show ?thesis
    by (simp add: validate_sender_certificate_def trust_root_public_key_def ca)
qed

section \<open>Properties\<close>

text \<open>
  A fresh identity has one hundred one-time prekeys with distinct ids, and its bundle
  carries the identity's public halves only: the first one-time prekey, the signed prekey
  with the signature made over it by the identity key, and device 1.
\<close>

theorem bundle_of_fresh_identity:
  assumes "generate_identity sign ce ik sk otk wall reg = Ok li"
    and "build_prekey_bundle Ok li = Ok b"
  shows "length (li_one_time_prekeys li) = 100 \<and> distinct (map pk_id (li_one_time_prekeys li))
    \<and> pb_prekey b = Some (0, fst (otk 0)) \<and> pb_identity_key b = fst ik
    \<and> pb_signed_prekey_public b = fst sk \<and> sign (snd ik) (fst sk) = Ok (pb_signature b)
    \<and> pb_registration_id b = reg \<and> pb_device_id b = 1"
proof -
  have "length (li_one_time_prekeys li) = 100"
    using distinct_one_time_ids(1) [OF assms(1)] by (metis length_map length_upt minus_nat.diff_0)
  moreover have "[0..<ONE_TIME_PREKEY_BATCH] = 0 # [1..<ONE_TIME_PREKEY_BATCH]"
    by (simp add: ONE_TIME_PREKEY_BATCH_def upt_rec)
  ultimately show ?thesis
    using assms distinct_one_time_ids(2) [OF assms(1)]
    by (auto simp: generate_identity_def build_prekey_bundle_def and_then_Ok_iff)
qed

theorem bundle_of_fresh_identity_witness:
  "\<exists>li b. generate_identity (\<lambda>k m. Ok (k @ m)) [] ([1], [2]) ([3], [4]) (\<lambda>i. ([of_nat i], [])) 0 9 = Ok li
    \<and> build_prekey_bundle Ok li = Ok b \<and> pb_signature b = [2, 3]"
proof -
  obtain li where li: "generate_identity (\<lambda>k m. Ok (k @ m)) [] ([1], [2]) ([3], [4])
      (\<lambda>i. ([of_nat i], [])) 0 9 = Ok li"
    by (simp add: generate_identity_def)
  obtain b where b: "build_prekey_bundle Ok li = Ok b"
    by (simp add: build_prekey_bundle_def)
  show ?thesis
    using bundle_of_fresh_identity [OF li b] li b by auto
qed

text \<open>
  A sender certificate issued with a time to live by an authority whose key pairs match is
  accepted by \<open>validate_sender_certificate\<close> exactly until that time has passed, and is refused as a
  sealed-sender authentication failure afterwards.
\<close>

theorem sender_certificate_lifetime:
  assumes "cert_law cl" "matching (cl_public_of cl) root" "matching (cl_public_of cl) server"
    and "from_trust_root cl root server = Ok ca"
    and "issue_sender_certificate cl ca uuid ik dev issued ttl = Ok cert"
    and "as_millis (issued + ttl) < 2 ^ 64" "as_millis now < 2 ^ 64"
  shows "validate_sender_certificate cl cert (trust_root_public_key ca) now =
    (if as_millis now \<le> as_millis (issued + ttl) then Ok ()
     else Err (SealedSenderAuth ''sender certificate failed trust-root/expiry validation''))"
  using assms by (rule certificate_lifetime)

definition toy_certs :: cert_lib where
  "toy_certs = \<lparr>cl_public_of = map (\<lambda>b. b - 1), cl_server_cert = (\<lambda>i pk sk. Ok (map (\<lambda>b. b - 1) sk)),
     cl_sender_cert = (\<lambda>uuid ik dev expiry sc sk. Ok (be_bytes 8 expiry @ sc)),
     cl_validate = (\<lambda>cert root now. Ok (drop 8 cert = root \<and> now \<le> of_be_bytes (take 8 cert)))\<rparr>"

lemma toy_certs_law: "cert_law toy_certs"
  by (auto simp: cert_law_def toy_certs_def of_be_bytes_be_bytes)

lemma toy_pairs: "matching (cl_public_of toy_certs) ([1], [2])" "matching (cl_public_of toy_certs) ([3], [4])"
  by (simp_all add: matching_def toy_certs_def)

theorem sender_certificate_lifetime_witness:
  "\<exists>ca cert. from_trust_root toy_certs ([1], [2]) ([3], [4]) = Ok ca
    \<and> issue_sender_certificate toy_certs ca ''alice'' [5] 1 1000000 DEFAULT_SENDER_CERT_TTL = Ok cert
    \<and> validate_sender_certificate toy_certs cert (trust_root_public_key ca) 86400001000000 = Ok ()
    \<and> validate_sender_certificate toy_certs cert (trust_root_public_key ca) 86400002000000
        = Err (SealedSenderAuth ''sender certificate failed trust-root/expiry validation'')"
proof -
  obtain ca where ca: "from_trust_root toy_certs ([1], [2]) ([3], [4]) = Ok ca"
    by (simp add: from_trust_root_def toy_certs_def)
  obtain cert where cert: "issue_sender_certificate toy_certs ca ''alice'' [5] 1 1000000
      DEFAULT_SENDER_CERT_TTL = Ok cert"
    by (simp add: issue_sender_certificate_def toy_certs_def)
  show ?thesis
    using ca cert sender_certificate_lifetime [OF toy_certs_law toy_pairs ca cert]
    by (auto simp: as_millis_def DEFAULT_SENDER_CERT_TTL_def)
qed

end
