(* ===== verification/Session.thy ===== *)
theory Session
  imports Signal_Store Trust Envelope Identity
begin

text \<open>
  Sessions (\<open>protocol/src/session.rs\<close>): \<open>SessionManager\<close> over the in-memory Signal store.
  X3DH, the Double Ratchet and the sealed-sender construction are libsignal's and appear as
  the functions of \<open>libsignal\<close>, each a transformer of the store it is handed; what the
  repository adds around them (version checks, routing on the envelope type, the
  verified-identity gates, the fields of the envelopes it emits) is modelled in full.  The
  reading of \<open>now_ms()\<close> is an argument; the code panics on a clock before the epoch.
\<close>

section \<open>The interface of libsignal\<close>

datatype ciphertext_message =
    PreKeySignalMessage bytes
  | SignalMessage bytes
  | SenderKeyMessage bytes
  | PlaintextContent bytes

fun serialize_message :: "ciphertext_message \<Rightarrow> bytes" where
  "serialize_message (PreKeySignalMessage b) = b"
| "serialize_message (SignalMessage b) = b"
| "serialize_message (SenderKeyMessage b) = b"
| "serialize_message (PlaintextContent b) = b"

record unsealed =
  us_sender_uuid :: string
  us_device_id :: u32
  us_message :: bytes

record libsignal =
  show_addr :: "address \<Rightarrow> string"
  bundle_identity_key :: "prekey_bundle \<Rightarrow> bytes signal"
  process_prekey_bundle :: "address \<Rightarrow> prekey_bundle \<Rightarrow> store_state \<Rightarrow> unit signal \<times> store_state"
  message_encrypt :: "bytes \<Rightarrow> address \<Rightarrow> store_state \<Rightarrow> ciphertext_message signal \<times> store_state"
  sealed_sender_encrypt :: "address \<Rightarrow> bytes \<Rightarrow> bytes \<Rightarrow> store_state \<Rightarrow> bytes signal \<times> store_state"
  parse_prekey_message :: "bytes \<Rightarrow> bytes signal"
  parse_signal_message :: "bytes \<Rightarrow> bytes signal"
  message_decrypt :: "ciphertext_message \<Rightarrow> address \<Rightarrow> store_state \<Rightarrow> bytes signal \<times> store_state"
  sealed_sender_decrypt ::
    "bytes \<Rightarrow> bytes \<Rightarrow> u64 \<Rightarrow> string \<Rightarrow> u32 \<Rightarrow> store_state \<Rightarrow> unsealed signal \<times> store_state"

section \<open>The session manager\<close>

record session_manager =
  local_address :: address
  store :: store_state

record sealed_sender_plaintext =
  sender_uuid :: string
  device_id :: u32
  plaintext :: bytes

definition debug_sealed_plaintext :: "sealed_sender_plaintext \<Rightarrow> string" where
  "debug_sealed_plaintext p =
    ''SealedSenderPlaintext { sender_uuid: '' @ sender_uuid p @ '', device_id: '' @ dec (unat (device_id p))
      @ '', plaintext: <'' @ dec (length (plaintext p)) @ '' bytes redacted> }''"

definition burn_conversation :: "libsignal \<Rightarrow> session_manager \<Rightarrow> address \<Rightarrow> burn_result \<times> session_manager" where
  "burn_conversation ls sm remote =
    (let (r, st) = burn_session (show_addr ls) remote (store sm) in (r, sm\<lparr>store := st\<rparr>))"

definition initiate_session ::
  "libsignal \<Rightarrow> session_manager \<Rightarrow> address \<Rightarrow> prekey_bundle \<Rightarrow> unit parda \<times> session_manager" where
  "initiate_session ls sm remote bundle =
    (let (r, st) = process_prekey_bundle ls remote bundle (store sm)
     in (map_err Signal r, sm\<lparr>store := st\<rparr>))"

definition initiate_session_verified ::
  "libsignal \<Rightarrow> hkdf \<Rightarrow> ('t \<Rightarrow> string \<Rightarrow> fingerprint option) \<Rightarrow> session_manager \<Rightarrow> address \<Rightarrow> prekey_bundle
    \<Rightarrow> 't \<Rightarrow> string \<Rightarrow> unit parda \<times> session_manager" where
  "initiate_session_verified ls hkdf verified sm remote bundle ts peer =
    (case and_then (map_err Signal (get_identity_key_pair (store sm))) (\<lambda>local_identity.
          and_then (map_err Signal (bundle_identity_key ls bundle)) (\<lambda>remote_identity.
          check_identity hkdf verified ts peer (fst local_identity) remote_identity)) of
       Err e \<Rightarrow> (Err e, sm)
     | Ok _ \<Rightarrow> initiate_session ls sm remote bundle)"

definition envelope_type_of :: "ciphertext_message \<Rightarrow> envelope_type" where
  "envelope_type_of c = (case c of
     PreKeySignalMessage _ \<Rightarrow> PreKey
   | SignalMessage _ \<Rightarrow> Ratchet
   | _ \<Rightarrow> Ratchet)"

definition encrypt ::
  "libsignal \<Rightarrow> u64 \<Rightarrow> session_manager \<Rightarrow> address \<Rightarrow> bytes \<Rightarrow> message_envelope parda \<times> session_manager" where
  "encrypt ls now_ms sm remote pt =
    (let (r, st) = message_encrypt ls pt remote (store sm)
     in (map_ok (\<lambda>c.
          \<lparr>sender_id = addr_name (local_address sm), recipient_id = addr_name remote,
           ciphertext = serialize_message c, env_type = envelope_type_of c,
           timestamp_ms = now_ms, version = ENVELOPE_VERSION_V2, sealed_sender = False,
           routing_hint = None, self_destruct_at = None, read_triggered_destruct = False,
           dead_drop_address = None\<rparr>) (map_err Signal r),
         sm\<lparr>store := st\<rparr>))"

definition encrypt_sealed ::
  "libsignal \<Rightarrow> u64 \<Rightarrow> session_manager \<Rightarrow> address \<Rightarrow> bytes \<Rightarrow> bytes \<Rightarrow> message_envelope parda \<times> session_manager" where
  "encrypt_sealed ls now_ms sm remote pt sender_cert =
    (let (r, st) = sealed_sender_encrypt ls remote sender_cert pt (store sm)
     in (map_ok (\<lambda>sealed_bytes.
          \<lparr>sender_id = [], recipient_id = addr_name remote,
           ciphertext = sealed_bytes, env_type = SealedSender,
           timestamp_ms = now_ms, version = ENVELOPE_VERSION_V2, sealed_sender = True,
           routing_hint = None, self_destruct_at = None, read_triggered_destruct = False,
           dead_drop_address = None\<rparr>) (map_err Signal r),
         sm\<lparr>store := st\<rparr>))"

definition parse_ciphertext :: "libsignal \<Rightarrow> message_envelope \<Rightarrow> ciphertext_message parda" where
  "parse_ciphertext ls e = (case env_type e of
     PreKey \<Rightarrow> map_ok PreKeySignalMessage (map_err Signal (parse_prekey_message ls (ciphertext e)))
   | Ratchet \<Rightarrow> map_ok SignalMessage (map_err Signal (parse_signal_message ls (ciphertext e)))
   | SealedSender \<Rightarrow> Err (MalformedSealedSender
       ''sealed-sender envelopes must be decrypted via decrypt_sealed, not decrypt''))"

definition decrypt :: "libsignal \<Rightarrow> session_manager \<Rightarrow> message_envelope \<Rightarrow> bytes parda \<times> session_manager" where
  "decrypt ls sm e =
    (case and_then (validate_version e) (\<lambda>_. parse_ciphertext ls e) of
       Err x \<Rightarrow> (Err x, sm)
     | Ok c \<Rightarrow>
         let (r, st) = message_decrypt ls c (Address (sender_id e) 1) (store sm)
         in (map_err Signal r, sm\<lparr>store := st\<rparr>))"

definition decrypt_sealed ::
  "libsignal \<Rightarrow> u64 \<Rightarrow> session_manager \<Rightarrow> message_envelope \<Rightarrow> bytes \<Rightarrow> string \<Rightarrow> u32
    \<Rightarrow> sealed_sender_plaintext parda \<times> session_manager" where
  "decrypt_sealed ls now_ms sm e trust_root local_uuid local_device_id =
    (case validate_version e of
       Err x \<Rightarrow> (Err x, sm)
     | Ok _ \<Rightarrow>
         if env_type e \<noteq> SealedSender then
           (Err (MalformedSealedSender (''decrypt_sealed requires envelope_type = SealedSender, got ''
              @ debug_envelope_type (env_type e))), sm)
         else
           let (r, st) = sealed_sender_decrypt ls (ciphertext e) trust_root now_ms local_uuid
                 local_device_id (store sm)
           in (map_ok (\<lambda>u. \<lparr>sender_uuid = us_sender_uuid u, device_id = us_device_id u,
                 plaintext = us_message u\<rparr>) (map_err Signal r), sm\<lparr>store := st\<rparr>))"

definition no_identity_message :: "string \<Rightarrow> string" where
  "no_identity_message a = ''no identity key recorded for authenticated sender '' @ a
     @ '' '' @ map char_of [226, 128, 148 :: nat] @ '' cannot check it against a verified fingerprint''"

definition decrypt_sealed_verified ::
  "libsignal \<Rightarrow> hkdf \<Rightarrow> ('t \<Rightarrow> string \<Rightarrow> fingerprint option) \<Rightarrow> u64 \<Rightarrow> session_manager \<Rightarrow> message_envelope
    \<Rightarrow> bytes \<Rightarrow> string \<Rightarrow> u32 \<Rightarrow> 't \<Rightarrow> string \<Rightarrow> sealed_sender_plaintext parda \<times> session_manager" where
  "decrypt_sealed_verified ls hkdf verified now_ms sm e trust_root local_uuid local_device_id ts peer =
    (case map_err Signal (get_identity_key_pair (store sm)) of
       Err x \<Rightarrow> (Err x, sm)
     | Ok local_identity \<Rightarrow>
         let (r, sm') = decrypt_sealed ls now_ms sm e trust_root local_uuid local_device_id in
         (and_then r (\<lambda>result.
          let sender_address = Address (sender_uuid result) (device_id result) in
          and_then (map_err Signal (get_identity (show_addr ls) sender_address (store sm'))) (\<lambda>known.
          and_then (ok_or known (SealedSenderAuth (no_identity_message (show_addr ls sender_address))))
            (\<lambda>remote_identity.
          and_then (check_identity hkdf verified ts peer (fst local_identity) remote_identity) (\<lambda>_.
          Ok result)))), sm'))"

section \<open>Lemmas\<close>

lemma parse_ciphertext_not_sealed:
  "parse_ciphertext ls e = Ok c \<Longrightarrow> env_type e \<noteq> SealedSender"
  by (auto simp: parse_ciphertext_def)

lemma envelope_type_of_plain [simp]: "envelope_type_of c \<noteq> SealedSender"
  by (simp add: envelope_type_of_def split: ciphertext_message.split)

lemma encrypt_envelope:
  assumes "encrypt ls now sm remote pt = (Ok e, sm')"
  shows "envelope_ok e \<and> \<not> sealed_sender e \<and> env_type e \<noteq> SealedSender
    \<and> sender_id e = addr_name (local_address sm) \<and> recipient_id e = addr_name remote
    \<and> timestamp_ms e = now \<and> self_destruct_at e = None \<and> \<not> read_triggered_destruct e
    \<and> dead_drop_address e = None"
  using assms by (auto simp: encrypt_def Let_def map_ok_Ok_iff envelope_ok_def version_defs
      split: prod.splits)

lemma encrypt_sealed_envelope:
  assumes "encrypt_sealed ls now sm remote pt cert = (Ok e, sm')"
  shows "envelope_ok e \<and> sealed_sender e \<and> env_type e = SealedSender
    \<and> sender_id e = [] \<and> recipient_id e = addr_name remote
    \<and> timestamp_ms e = now \<and> self_destruct_at e = None \<and> \<not> read_triggered_destruct e
    \<and> dead_drop_address e = None"
  using assms by (auto simp: encrypt_sealed_def Let_def map_ok_Ok_iff envelope_ok_def version_defs
      split: prod.splits)

lemma decrypt_refuses_sealed:
  assumes "sealed_sender e \<or> env_type e = SealedSender \<or> \<not> envelope_ok e"
  shows "\<exists>x. decrypt ls sm e = (Err x, sm)"
proof (cases "and_then (validate_version e) (\<lambda>_. parse_ciphertext ls e)")
  case (Ok c)
  then show ?thesis
    using assms by (auto simp: and_then_Ok_iff envelope_ok_def dest: parse_ciphertext_not_sealed)
qed (simp add: decrypt_def)

lemma decrypt_sealed_refuses_plain:
  assumes "\<not> sealed_sender e \<or> env_type e \<noteq> SealedSender \<or> \<not> envelope_ok e"
  shows "\<exists>x. decrypt_sealed ls now sm e root uuid dev = (Err x, sm)"
  using assms
  by (cases "env_type e = SealedSender")
    (auto simp: decrypt_sealed_def envelope_ok_def simp flip: validate_version_Ok split: result.split,
      auto simp: envelope_ok_def)

section \<open>Properties\<close>

text \<open>
  The two encryption paths and the two decryption paths never mix: a plain envelope
  names its sender and is refused by \<open>decrypt_sealed\<close>, a sealed envelope carries no sender
  at all and is refused by \<open>decrypt\<close>, both pass the version check, and a refusal leaves the
  session state untouched.
\<close>

theorem sealed_and_plain_never_mix:
  assumes "encrypt ls now sm remote pt = (Ok e, sm1)"
    and "encrypt_sealed ls now sm remote pt cert = (Ok se, sm2)"
  shows "validate_version e = Ok () \<and> sender_id e = addr_name (local_address sm)
    \<and> validate_version se = Ok () \<and> sender_id se = []
    \<and> recipient_id e = addr_name remote \<and> recipient_id se = addr_name remote
    \<and> (\<exists>x. decrypt_sealed ls now' rcv e root uuid dev = (Err x, rcv))
    \<and> (\<exists>x. decrypt ls rcv se = (Err x, rcv))"
  using encrypt_envelope [OF assms(1)] encrypt_sealed_envelope [OF assms(2)]
    decrypt_sealed_refuses_plain [of e ls now' rcv root uuid dev] decrypt_refuses_sealed [of se ls rcv]
  by auto

definition toy_signal :: libsignal where
  "toy_signal = \<lparr>show_addr = show_address, bundle_identity_key = (\<lambda>b. Ok (pb_identity_key b)),
     process_prekey_bundle = (\<lambda>a b st. (Ok (), store_session show_address a [1] st)),
     message_encrypt = (\<lambda>p a st. (Ok (SignalMessage p), st)),
     sealed_sender_encrypt = (\<lambda>a c p st. (Ok p, st)),
     parse_prekey_message = Ok, parse_signal_message = Ok,
     message_decrypt = (\<lambda>c a st. (Ok (serialize_message c), st)),
     sealed_sender_decrypt = (\<lambda>b root now uuid dev st.
       (Ok \<lparr>us_sender_uuid = ''alice'', us_device_id = 1, us_message = b\<rparr>,
        snd (save_identity show_address (Address ''alice'' 1) [9] st)))\<rparr>"

definition toy_manager :: session_manager where
  "toy_manager = \<lparr>local_address = Address ''bob'' 1, store = new_signal_store ([5], [6]) 1\<rparr>"

theorem sealed_and_plain_never_mix_witness:
  "\<exists>x e. encrypt toy_signal 5 toy_manager (Address ''alice'' 1) [1] = (Ok e, toy_manager)
    \<and> decrypt_sealed toy_signal 5 toy_manager e [] [] 1 = (Err x, toy_manager)"
proof -
  obtain e se where "encrypt toy_signal 5 toy_manager (Address ''alice'' 1) [1] = (Ok e, toy_manager)"
    "encrypt_sealed toy_signal 5 toy_manager (Address ''alice'' 1) [1] [] = (Ok se, toy_manager)"
    by (simp add: encrypt_def encrypt_sealed_def toy_signal_def)
  with sealed_and_plain_never_mix [OF this] show ?thesis by blast
qed

text \<open>
  C6: A bundle whose identity key contradicts a verified fingerprint never starts a session:
  \<open>initiate_session_verified\<close> reports the changed key and the store is exactly what it was.
\<close>

theorem substituted_bundle_is_rejected:
  assumes "identity_key_pair (store sm) = Some ik" "bundle_identity_key ls bundle = Ok remote_key"
    and "verified ts peer = Some fp" "compute_fingerprint hkdf (fst ik) remote_key \<noteq> fp"
  shows "initiate_session_verified ls hkdf verified sm remote bundle ts peer =
    (Err (IdentityKeyChangedAfterVerification peer (fingerprint_digits fp)
       (fingerprint_digits (compute_fingerprint hkdf (fst ik) remote_key))), sm)"
  using assms
  by (simp add: initiate_session_verified_def get_identity_key_pair_def check_identity_def Let_def)

theorem substituted_bundle_is_rejected_witness:
  "snd (initiate_session_verified toy_signal (\<lambda>salt ikm info. ikm) lookup_verified toy_manager
      (Address ''alice'' 1) \<lparr>pb_registration_id = 1, pb_device_id = 1, pb_prekey = None,
        pb_signed_prekey_id = 1, pb_signed_prekey_public = [], pb_signature = [], pb_identity_key = [8]\<rparr>
      (record_verified ''alice'' [5, 9] new_trust_store) ''alice'') = toy_manager"
  by (subst substituted_bundle_is_rejected [where ik = "([5], [6])" and remote_key = "[8]" and fp = "[5, 9]"])
    (simp_all add: toy_manager_def toy_signal_def new_signal_store_def lookup_verified_def
      record_verified_def compute_fingerprint_def)

text \<open>
  C5: Whatever was verified and forgotten before, and whatever is recorded,
  \<open>decrypt_sealed_verified\<close> hands out a plaintext exactly when the manager has an identity,
  \<open>decrypt_sealed\<close> succeeded, an identity key is recorded for the authenticated sender, and
  the last verification of the peer, if it was not forgotten since, was of that key's
  fingerprint.  A decrypted message is withheld behind the missing-identity error when no
  key is recorded and behind the changed-key error, with both fingerprints, on a mismatch.
\<close>

theorem no_plaintext_from_changed_identity:
  assumes run: "decrypt_sealed_verified ls hkdf lookup_verified now sm e root uuid dev (trust_after evs) peer
      = (r, sm')"
  shows "(\<forall>p. r = Ok p \<longleftrightarrow>
      (\<exists>ik rk. identity_key_pair (store sm) = Some ik
        \<and> decrypt_sealed ls now sm e root uuid dev = (Ok p, sm')
        \<and> trusted_identities (store sm') (show_addr ls (Address (sender_uuid p) (device_id p))) = Some rk
        \<and> last_verification evs peer \<in> {None, Some (compute_fingerprint hkdf (fst ik) rk)}))
    \<and> (\<forall>p ik. identity_key_pair (store sm) = Some ik
        \<and> decrypt_sealed ls now sm e root uuid dev = (Ok p, sm') \<and> (\<nexists>q. r = Ok q) \<longrightarrow>
        r = Err (case trusted_identities (store sm') (show_addr ls (Address (sender_uuid p) (device_id p))) of
            None \<Rightarrow> SealedSenderAuth (no_identity_message
              (show_addr ls (Address (sender_uuid p) (device_id p))))
          | Some rk \<Rightarrow> IdentityKeyChangedAfterVerification peer
              (fingerprint_digits (the (last_verification evs peer)))
              (fingerprint_digits (compute_fingerprint hkdf (fst ik) rk))))"
proof (cases "identity_key_pair (store sm)")
  case None
  with run show ?thesis
    by (auto simp: decrypt_sealed_verified_def get_identity_key_pair_def)
next
  case (Some ik)
  obtain d sm_d where d: "decrypt_sealed ls now sm e root uuid dev = (d, sm_d)"
    by fastforce
  note run' = run [unfolded decrypt_sealed_verified_def get_identity_key_pair_def Some
      option.case map_err.simps result.case d Let_def prod.case]
  show ?thesis
  proof (cases d)
    case (Err x)
    with run' d show ?thesis
      by auto
  next
    case (Ok p)
    with run' d Some show ?thesis
      by (cases "trusted_identities (store sm_d) (show_addr ls (Address (sender_uuid p) (device_id p)))";
          cases "last_verification evs peer")
        (auto simp: get_identity_def check_identity_def lookup_trust_after Let_def split: if_splits)
  qed
qed

definition toy_pins :: "bytes \<Rightarrow> trust_event list" where
  "toy_pins fp = [Verify ''alice'' [1], Forget ''alice'', Verify ''alice'' fp, Verify ''eve'' [2]]"

theorem no_plaintext_from_changed_identity_witness:
  "\<exists>e p. fst (decrypt_sealed_verified toy_signal (\<lambda>salt ikm info. ikm) lookup_verified 5 toy_manager e [] [] 1
        (trust_after (toy_pins [5, 9])) ''alice'') = Ok p
    \<and> (\<forall>p. fst (decrypt_sealed_verified toy_signal (\<lambda>salt ikm info. ikm) lookup_verified 5 toy_manager e [] [] 1
        (trust_after (toy_pins [5, 8])) ''alice'') \<noteq> Ok p)"
proof -
  let ?run = "\<lambda>e fp. decrypt_sealed_verified toy_signal (\<lambda>salt ikm info. ikm) lookup_verified 5 toy_manager e
    [] [] 1 (trust_after (toy_pins fp)) ''alice''"
  obtain e where e: "encrypt_sealed toy_signal 5 toy_manager (Address ''alice'' 1) [1] [] = (Ok e, toy_manager)"
    by (simp add: encrypt_sealed_def toy_signal_def)
  then have "envelope_ok e" "env_type e = SealedSender"
    using encrypt_sealed_envelope by blast+
  then have d: "decrypt_sealed toy_signal 5 toy_manager e [] [] 1
      = (Ok \<lparr>sender_uuid = ''alice'', device_id = 1, plaintext = ciphertext e\<rparr>,
         toy_manager\<lparr>store := snd (save_identity show_address (Address ''alice'' 1) [9] (store toy_manager))\<rparr>)"
    by (cases "validate_version e") (auto simp: decrypt_sealed_def toy_signal_def
        simp flip: validate_version_Ok)
  then have end_state: "snd (?run e fp) = snd (decrypt_sealed toy_signal 5 toy_manager e [] [] 1)" for fp
    by (simp add: decrypt_sealed_verified_def get_identity_key_pair_def toy_manager_def new_signal_store_def)
  have facts: "identity_key_pair (store toy_manager) = Some ([5], [6])"
    "last_verification (toy_pins fp) ''alice'' = Some fp"
    "compute_fingerprint (\<lambda>salt ikm info. ikm) [5] [9] = [5, 9]"
    "trusted_identities (snd (save_identity show_address (Address ''alice'' 1) [9] (store toy_manager)))
      (show_addr toy_signal (Address ''alice'' 1)) = Some [9]" for fp
    by (simp_all add: toy_manager_def new_signal_store_def toy_pins_def last_verification_def
        compute_fingerprint_def save_identity_def toy_signal_def Let_def)
  have key: "fst (?run e fp) = Ok p \<longleftrightarrow> p = \<lparr>sender_uuid = ''alice'', device_id = 1, plaintext = ciphertext e\<rparr>
      \<and> fp = [5, 9]" for fp p
    using no_plaintext_from_changed_identity [of toy_signal "\<lambda>salt ikm info. ikm" 5 toy_manager e "[]" "[]" 1
        "toy_pins fp" "''alice''" "fst (?run e fp)" "snd (?run e fp)", THEN conjunct1, THEN spec [of _ p]]
    by (cases "p = \<lparr>sender_uuid = ''alice'', device_id = 1, plaintext = ciphertext e\<rparr>")
      (simp_all add: prod_eq_iff end_state d facts)
  show ?thesis
    by (intro exI [of _ e]) (simp add: key)
qed

end
