(* ===== verification/Clock_Guard.thy ===== *)
theory Clock_Guard
  imports Errors
begin

text \<open>
  Clock-rollback detection (\<open>protocol/src/clock_guard.rs\<close>).  The trait
  \<open>ClockWatermarkStore\<close> is the locale \<open>watermark_store\<close>; \<open>check_clock_integrity\<close> takes the
  two operations of the store it is given, as the code takes a \<open>dyn\<close> reference, and the
  store's state is passed through.  \<open>InMemoryClockWatermarkStore\<close> interprets the locale.
\<close>

section \<open>The in-memory store\<close>

record watermark_mem =
  watermark :: "u64 option"

definition new_watermark_store :: watermark_mem where
  "new_watermark_store = \<lparr>watermark = None\<rparr>"

definition load_watermark_ms :: "watermark_mem \<Rightarrow> u64 option" where
  "load_watermark_ms s = watermark s"

definition store_watermark_ms :: "u64 \<Rightarrow> watermark_mem \<Rightarrow> watermark_mem" where
  "store_watermark_ms wall_clock_ms s = s\<lparr>watermark := Some wall_clock_ms\<rparr>"

section \<open>The check\<close>

datatype clock_check =
    ClockOk
  | RollbackDetected (rd_watermark: u64) (rd_observed: u64)

definition check_clock_integrity ::
  "('s \<Rightarrow> u64 option) \<Rightarrow> (u64 \<Rightarrow> 's \<Rightarrow> 's) \<Rightarrow> 's \<Rightarrow> u64 \<Rightarrow> clock_check \<times> 's" where
  "check_clock_integrity load store s now_ms =
    (case load s of
       Some w \<Rightarrow> if now_ms < w then (RollbackDetected w now_ms, s)
                 else (ClockOk, store now_ms s)
     | None \<Rightarrow> (ClockOk, store now_ms s))"

text \<open>A run of checks over the clock readings of a device, in order.\<close>

fun check_all ::
  "('s \<Rightarrow> u64 option) \<Rightarrow> (u64 \<Rightarrow> 's \<Rightarrow> 's) \<Rightarrow> 's \<Rightarrow> u64 list \<Rightarrow> clock_check list \<times> 's" where
  "check_all load store s [] = ([], s)"
| "check_all load store s (t # ts) =
    (let (r, s') = check_clock_integrity load store s t;
         (rs, s'') = check_all load store s' ts in (r # rs, s''))"

section \<open>The contract of a watermark store\<close>

locale watermark_store =
  fixes load :: "'s \<Rightarrow> u64 option"
    and store :: "u64 \<Rightarrow> 's \<Rightarrow> 's"
  assumes load_store: "load (store w s) = Some w"
begin

lemma check_ok_iff:
  "fst (check_clock_integrity load store s t) = ClockOk \<longleftrightarrow> (\<forall>w. load s = Some w \<longrightarrow> w \<le> t)"
  by (auto simp: check_clock_integrity_def split: option.split)

lemma check_watermark:
  "load (snd (check_clock_integrity load store s t))
    = Some (case load s of Some w \<Rightarrow> max w t | None \<Rightarrow> t)"
  by (auto simp: check_clock_integrity_def load_store max_def split: option.split)

lemma check_rollback:
  assumes "fst (check_clock_integrity load store s t) \<noteq> ClockOk"
  shows "\<exists>w. load s = Some w \<and> t < w
    \<and> check_clock_integrity load store s t = (RollbackDetected w t, s)"
  using assms by (auto simp: check_clock_integrity_def split: option.splits if_splits)

lemma check_all_watermark:
  "load (snd (check_all load store s ts))
    = (case load s of Some w \<Rightarrow> Some (foldl max w ts)
       | None \<Rightarrow> (case ts of [] \<Rightarrow> None | t # ts \<Rightarrow> Some (foldl max t ts)))"
proof (induction ts arbitrary: s)
  case Nil
  then show ?case by (simp split: option.split)
next
  case (Cons t ts)
  show ?case
    using Cons.IH [of "snd (check_clock_integrity load store s t)"]
    by (simp add: check_watermark case_prod_unfold Let_def split: option.split)
qed

end

lemma foldl_max_eq_Max: "foldl max w ts = Max (insert w (set ts))"
  for w :: "'a::linorder"
proof (induction ts arbitrary: w)
  case (Cons t ts)
  then show ?case
    by (cases "ts = []") (simp_all add: max.left_commute max.commute)
qed simp

lemma watermark_mem_load_store: "load_watermark_ms (store_watermark_ms w s) = Some w"
  by (simp add: load_watermark_ms_def store_watermark_ms_def)

interpretation mem_wm: watermark_store load_watermark_ms store_watermark_ms
  by unfold_locales (rule watermark_mem_load_store)

lemma new_watermark_store_empty [simp]: "load_watermark_ms new_watermark_store = None"
  by (simp add: load_watermark_ms_def new_watermark_store_def)

section \<open>Properties\<close>

text \<open>
  After any non-empty sequence of clock readings, accepted or rejected, the in-memory
  watermark is the largest reading ever observed, and the next reading is accepted exactly
  when it reaches that maximum: a rolled-back clock never becomes the new baseline and a
  smaller rollback earns no credit.
\<close>

theorem watermark_is_maximum:
  assumes "ts \<noteq> []"
  defines "s \<equiv> snd (check_all load_watermark_ms store_watermark_ms new_watermark_store ts)"
  shows "load_watermark_ms s = Some (Max (set ts))
    \<and> (fst (check_clock_integrity load_watermark_ms store_watermark_ms s t) = ClockOk
        \<longleftrightarrow> Max (set ts) \<le> t)
    \<and> (t < Max (set ts) \<longrightarrow>
        check_clock_integrity load_watermark_ms store_watermark_ms s t
          = (RollbackDetected (Max (set ts)) t, s))"
proof -
  obtain u us where ts: "ts = u # us"
    using assms(1) by (cases ts) auto
  have w: "load_watermark_ms s = Some (Max (set ts))"
    by (simp add: s_def ts mem_wm.check_all_watermark foldl_max_eq_Max del: check_all.simps)
  then show ?thesis
    by (auto simp: mem_wm.check_ok_iff check_clock_integrity_def)
qed

theorem watermark_is_maximum_witness:
  "load_watermark_ms (snd (check_all load_watermark_ms store_watermark_ms new_watermark_store
      [5000, 3000, 4999])) = Some 5000
    \<and> check_clock_integrity load_watermark_ms store_watermark_ms
        (snd (check_all load_watermark_ms store_watermark_ms new_watermark_store [5000, 3000, 4999])) 4999
      = (RollbackDetected 5000 4999,
         snd (check_all load_watermark_ms store_watermark_ms new_watermark_store [5000, 3000, 4999]))"
  using watermark_is_maximum [of "[5000, 3000, 4999]" 4999] by simp

end
