(* ===== verification/Self_Destruct.thy ===== *)
theory Self_Destruct
  imports Clock_Guard
begin

text \<open>
  Self-destructing messages (\<open>protocol/src/self_destruct.rs\<close>): key derivation, sealing in
  the three destruct modes, opening, erasure, the clock-guarded opening, and the persisted
  state that survives a restart.  HKDF-SHA256 and ChaCha20-Poly1305 are the functions of
  \<open>sd_crypto\<close>; the random seed and nonce, and the readings of the two clocks, are
  arguments of the operations that draw them.  The shared \<open>Arc<Mutex<Option<DerivedKey>>>\<close>
  is the field \<open>sd_key\<close>: every access of the code holds the lock, so concurrent callers
  and the expiry task interleave as the atomic steps of \<open>sd_step\<close>.
\<close>

section \<open>Modes and key derivation\<close>

datatype destruct_mode = TimeBound | ReadTriggered | Combined

fun mode_tag :: "destruct_mode \<Rightarrow> u8" where
  "mode_tag TimeBound = 0"
| "mode_tag ReadTriggered = 1"
| "mode_tag Combined = 2"

fun erases_on_read :: "destruct_mode \<Rightarrow> bool" where
  "erases_on_read TimeBound = False"
| "erases_on_read ReadTriggered = True"
| "erases_on_read Combined = True"

definition DEFAULT_EXPIRY_WINDOW :: duration where
  "DEFAULT_EXPIRY_WINDOW = 5 * 60 * 1000000000"

definition KDF_CONTEXT :: bytes where
  "KDF_CONTEXT = utf8 ''PARDA-Phase3-SelfDestructKey-V1''"

definition NONCE_LEN :: nat where
  "NONCE_LEN = 12"

record sd_crypto =
  hkdf_expand :: "bytes \<Rightarrow> bytes \<Rightarrow> bytes"
  aead_encrypt :: "bytes \<Rightarrow> bytes \<Rightarrow> bytes \<Rightarrow> (bytes, string) result"
  aead_decrypt :: "bytes \<Rightarrow> bytes \<Rightarrow> bytes \<Rightarrow> (bytes, string) result"

definition aead_law :: "sd_crypto \<Rightarrow> bool" where
  "aead_law c \<longleftrightarrow>
    (\<forall>k n p x. aead_encrypt c k n p = Ok x \<longrightarrow> aead_decrypt c k n x = Ok p)"

definition kdf_info :: "destruct_mode \<Rightarrow> u64 \<Rightarrow> u64 \<Rightarrow> bytes" where
  "kdf_info mode timestamp expiry_window_ms =
    KDF_CONTEXT @ [mode_tag mode] @ be_bytes 8 timestamp @ be_bytes 8 expiry_window_ms"

definition derive_key :: "sd_crypto \<Rightarrow> bytes \<Rightarrow> destruct_mode \<Rightarrow> u64 \<Rightarrow> u64 \<Rightarrow> bytes" where
  "derive_key c seed mode timestamp expiry_window_ms =
    hkdf_expand c seed (kdf_info mode timestamp expiry_window_ms)"

section \<open>The message\<close>

text \<open>
  \<open>sd_timer\<close> is the monotonic instant of the spawned expiry task, if one was spawned.
\<close>

record sdm =
  sd_ciphertext :: bytes
  sd_key :: "bytes option"
  sd_mode :: destruct_mode
  sd_expires_at_ms :: "u64 option"
  sd_timer :: "nat option"

record persisted_state =
  ps_ciphertext :: bytes
  ps_key_bytes :: bytes
  ps_mode :: destruct_mode
  ps_expires_at_ms :: "u64 option"

definition from_parts :: "bytes \<Rightarrow> bytes \<Rightarrow> destruct_mode \<Rightarrow> u64 option \<Rightarrow> persisted_state" where
  "from_parts ct key_bytes mode expires_at =
    \<lparr>ps_ciphertext = ct, ps_key_bytes = key_bytes, ps_mode = mode, ps_expires_at_ms = expires_at\<rparr>"

definition seal_inner ::
  "sd_crypto \<Rightarrow> bytes \<Rightarrow> bytes \<Rightarrow> int \<Rightarrow> bytes \<Rightarrow> destruct_mode \<Rightarrow> u64 \<Rightarrow> u64 \<Rightarrow> sdm parda" where
  "seal_inner c seed nonce wall plaintext mode timestamp expiry_window_ms =
    (let key = derive_key c seed mode timestamp expiry_window_ms in
     and_then (map_err SelfDestructCrypto (aead_encrypt c key nonce plaintext)) (\<lambda>ct.
     Ok \<lparr>sd_ciphertext = nonce @ ct,
         sd_key = Some key,
         sd_mode = mode,
         sd_expires_at_ms = (case mode of
             ReadTriggered \<Rightarrow> None
           | TimeBound \<Rightarrow> Some (saturating_add (unix_millis wall) expiry_window_ms)
           | Combined \<Rightarrow> Some (saturating_add (unix_millis wall) expiry_window_ms)),
         sd_timer = None\<rparr>))"

definition spawn_expiry_timer :: "nat \<Rightarrow> duration \<Rightarrow> sdm \<Rightarrow> sdm" where
  "spawn_expiry_timer mono_now expiry_window m = m\<lparr>sd_timer := Some (mono_now + expiry_window)\<rparr>"

definition seal ::
  "sd_crypto \<Rightarrow> bytes \<Rightarrow> bytes \<Rightarrow> int \<Rightarrow> nat \<Rightarrow> bytes \<Rightarrow> u64 \<Rightarrow> duration \<Rightarrow> sdm parda" where
  "seal c seed nonce wall mono_now plaintext timestamp expiry_window =
    map_ok (spawn_expiry_timer mono_now expiry_window)
      (seal_inner c seed nonce wall plaintext TimeBound timestamp (as_millis_u64 expiry_window))"

definition seal_read_triggered ::
  "sd_crypto \<Rightarrow> bytes \<Rightarrow> bytes \<Rightarrow> int \<Rightarrow> bytes \<Rightarrow> u64 \<Rightarrow> sdm parda" where
  "seal_read_triggered c seed nonce wall plaintext timestamp =
    seal_inner c seed nonce wall plaintext ReadTriggered timestamp 0"

definition seal_combined ::
  "sd_crypto \<Rightarrow> bytes \<Rightarrow> bytes \<Rightarrow> int \<Rightarrow> nat \<Rightarrow> bytes \<Rightarrow> u64 \<Rightarrow> duration \<Rightarrow> sdm parda" where
  "seal_combined c seed nonce wall mono_now plaintext timestamp expiry_window =
    map_ok (spawn_expiry_timer mono_now expiry_window)
      (seal_inner c seed nonce wall plaintext Combined timestamp (as_millis_u64 expiry_window))"

text \<open>Erasure overwrites the key while it is still there, then clears the slot.\<close>

definition zeroize :: "bytes \<Rightarrow> bytes" where
  "zeroize k = replicate (length k) 0"

definition erase :: "sdm \<Rightarrow> sdm" where
  "erase m = (let m = m\<lparr>sd_key := map_option zeroize (sd_key m)\<rparr> in m\<lparr>sd_key := None\<rparr>)"

definition expire_now :: "sdm \<Rightarrow> sdm" where
  "expire_now m = erase m"

definition is_expired :: "sdm \<Rightarrow> bool" where
  "is_expired m \<longleftrightarrow> sd_key m = None"

text \<open>\<open>open\<close>: the decryption and, for the read-erasing modes, the erasure.\<close>

definition open_msg :: "sd_crypto \<Rightarrow> sdm \<Rightarrow> bytes parda \<times> sdm" where
  "open_msg c m =
    (case sd_key m of
       None \<Rightarrow> (Err SelfDestructExpired, m)
     | Some key \<Rightarrow>
         if length (sd_ciphertext m) < NONCE_LEN then
           (Err (SelfDestructCrypto ''stored ciphertext shorter than the nonce prefix''), m)
         else
           case aead_decrypt c key (take NONCE_LEN (sd_ciphertext m)) (drop NONCE_LEN (sd_ciphertext m)) of
             Err e \<Rightarrow> (Err (SelfDestructCrypto e), m)
           | Ok plaintext \<Rightarrow>
               (Ok plaintext, if erases_on_read (sd_mode m) then erase m else m))"

definition open_with_clock_guard ::
  "sd_crypto \<Rightarrow> ('s \<Rightarrow> u64 option) \<Rightarrow> (u64 \<Rightarrow> 's \<Rightarrow> 's) \<Rightarrow> sdm \<Rightarrow> 's \<Rightarrow> u64 \<Rightarrow> bytes parda \<times> sdm \<times> 's" where
  "open_with_clock_guard c load store m s now_ms =
    (case check_clock_integrity load store s now_ms of
       (RollbackDetected wm obs, s') \<Rightarrow>
         (Err (ClockRollbackDetected obs wm), expire_now m, s')
     | (ClockOk, s') \<Rightarrow> let (r, m') = open_msg c m in (r, m', s'))"

definition export_for_persistence :: "sdm \<Rightarrow> persisted_state parda" where
  "export_for_persistence m =
    and_then (ok_or (sd_key m) SelfDestructExpired) (\<lambda>key.
    Ok \<lparr>ps_ciphertext = sd_ciphertext m, ps_key_bytes = key, ps_mode = sd_mode m,
        ps_expires_at_ms = sd_expires_at_ms m\<rparr>)"

definition restore ::
  "('s \<Rightarrow> u64 option) \<Rightarrow> (u64 \<Rightarrow> 's \<Rightarrow> 's) \<Rightarrow> persisted_state \<Rightarrow> 's \<Rightarrow> nat \<Rightarrow> u64 \<Rightarrow> sdm parda \<times> 's" where
  "restore load store state s mono_now now_ms =
    (case check_clock_integrity load store s now_ms of
       (RollbackDetected wm obs, s') \<Rightarrow>
         (Err (ClockRollbackDetected obs wm), s')
     | (ClockOk, s') \<Rightarrow>
         let message = \<lparr>sd_ciphertext = ps_ciphertext state, sd_key = Some (ps_key_bytes state),
               sd_mode = ps_mode state, sd_expires_at_ms = ps_expires_at_ms state, sd_timer = None\<rparr>
         in (case ps_expires_at_ms state of
               None \<Rightarrow> Ok message
             | Some deadline \<Rightarrow>
                 if now_ms \<ge> deadline then Err SelfDestructExpired
                 else Ok (spawn_expiry_timer mono_now (from_millis (deadline - now_ms)) message), s'))"

section \<open>Interleavings\<close>

text \<open>
  All clones of a message share its key.  A state of a running process is the message, the
  monotonic clock and the watermark store; a step is one critical section of one caller
  (any number of threads may be calling), the expiry task waking at or after its deadline,
  or the clock moving on.
\<close>

record 's sd_world =
  sd_msg :: sdm
  sd_clock :: nat
  sd_store :: 's

datatype sd_label =
    LOpen "bytes parda"
  | LGuarded u64 "bytes parda"
  | LExpire
  | LTimer
  | LTick nat

fun opened :: "sd_label \<Rightarrow> bool" where
  "opened (LOpen r) = is_ok r"
| "opened (LGuarded _ r) = is_ok r"
| "opened LExpire = False"
| "opened LTimer = False"
| "opened (LTick _) = False"

inductive sd_step ::
  "sd_crypto \<Rightarrow> ('s \<Rightarrow> u64 option) \<Rightarrow> (u64 \<Rightarrow> 's \<Rightarrow> 's) \<Rightarrow> 's sd_world \<Rightarrow> sd_label \<Rightarrow> 's sd_world \<Rightarrow> bool"
  for c load store
where
  open_step: "open_msg c (sd_msg w) = (r, m) \<Longrightarrow>
    sd_step c load store w (LOpen r) (w\<lparr>sd_msg := m\<rparr>)"
| guarded_step: "open_with_clock_guard c load store (sd_msg w) (sd_store w) now = (r, m, s) \<Longrightarrow>
    sd_step c load store w (LGuarded now r) (w\<lparr>sd_msg := m, sd_store := s\<rparr>)"
| expire_step: "sd_step c load store w LExpire (w\<lparr>sd_msg := expire_now (sd_msg w)\<rparr>)"
| timer_step: "sd_timer (sd_msg w) = Some d \<Longrightarrow> d \<le> sd_clock w \<Longrightarrow>
    sd_step c load store w LTimer (w\<lparr>sd_msg := erase (sd_msg w)\<rparr>)"
| tick_step: "sd_step c load store w (LTick n) (w\<lparr>sd_clock := sd_clock w + n\<rparr>)"

inductive sd_run ::
  "sd_crypto \<Rightarrow> ('s \<Rightarrow> u64 option) \<Rightarrow> (u64 \<Rightarrow> 's \<Rightarrow> 's) \<Rightarrow> 's sd_world \<Rightarrow> sd_label list \<Rightarrow> 's sd_world \<Rightarrow> bool"
  for c load store
where
  run_nil: "sd_run c load store w [] w"
| run_cons: "sd_step c load store w l w' \<Longrightarrow> sd_run c load store w' ls w'' \<Longrightarrow>
    sd_run c load store w (l # ls) w''"

inductive_cases sd_run_ConsE: "sd_run c load store w (l # ls) w'"
inductive_cases sd_run_NilE: "sd_run c load store w [] w'"

section \<open>Erasure and opening\<close>

lemma erase_sel [simp]:
  "sd_key (erase m) = None"
  "sd_ciphertext (erase m) = sd_ciphertext m"
  "sd_mode (erase m) = sd_mode m"
  "sd_expires_at_ms (erase m) = sd_expires_at_ms m"
  "sd_timer (erase m) = sd_timer m"
  by (simp_all add: erase_def Let_def)

lemma erase_idem [simp]: "erase (erase m) = erase m"
  by (simp add: erase_def Let_def)

lemma open_msg_mode [simp]: "sd_mode (snd (open_msg c m)) = sd_mode m"
  and open_msg_timer [simp]: "sd_timer (snd (open_msg c m)) = sd_timer m"
  by (simp_all add: open_msg_def split: option.split result.split)

lemma open_msg_gone: "is_expired m \<Longrightarrow> open_msg c m = (Err SelfDestructExpired, m)"
  by (simp add: open_msg_def is_expired_def)

lemma open_msg_erases:
  "open_msg c m = (Ok p, m') \<Longrightarrow> erases_on_read (sd_mode m) \<Longrightarrow> is_expired m'"
  by (auto simp: open_msg_def is_expired_def split: option.splits result.splits if_splits)

lemma open_msg_TimeBound: "\<not> erases_on_read (sd_mode m) \<Longrightarrow> snd (open_msg c m) = m"
  by (simp add: open_msg_def split: option.split result.split)

lemma open_guarded_msg_mode:
  "open_with_clock_guard c load store m s now = (r, m', s') \<Longrightarrow>
    sd_mode m' = sd_mode m \<and> sd_timer m' = sd_timer m"
  by (auto simp: open_with_clock_guard_def expire_now_def case_prod_unfold Let_def
      split: prod.splits clock_check.splits)

lemma open_guarded_gone:
  "open_with_clock_guard c load store m s now = (r, m', s') \<Longrightarrow> is_expired m \<Longrightarrow>
    is_expired m' \<and> \<not> is_ok r"
  by (auto simp: open_with_clock_guard_def open_msg_gone expire_now_def is_expired_def
      split: prod.splits clock_check.splits)

lemma open_guarded_erases:
  "open_with_clock_guard c load store m s now = (Ok p, m', s') \<Longrightarrow> erases_on_read (sd_mode m) \<Longrightarrow>
    is_expired m'"
  by (auto simp: open_with_clock_guard_def Let_def dest: open_msg_erases
      split: prod.splits clock_check.splits)

lemma open_guarded_rollback:
  assumes "open_with_clock_guard c load store m s now = (r, m', s')" "\<not> is_ok r" "r \<noteq> fst (open_msg c m)"
  shows "is_expired m' \<and> (\<exists>o' w. r = Err (ClockRollbackDetected o' w))"
  using assms by (auto simp: open_with_clock_guard_def Let_def expire_now_def is_expired_def
      split: prod.splits clock_check.splits)

section \<open>Runs\<close>

lemma step_mode: "sd_step c load store w l w' \<Longrightarrow> sd_mode (sd_msg w') = sd_mode (sd_msg w)"
  by (cases rule: sd_step.cases)
    (auto simp: expire_now_def dest: open_guarded_msg_mode dest!: arg_cong [of "open_msg _ _" _ snd])

lemma step_timer: "sd_step c load store w l w' \<Longrightarrow> sd_timer (sd_msg w') = sd_timer (sd_msg w)"
  by (cases rule: sd_step.cases)
    (auto simp: expire_now_def dest: open_guarded_msg_mode dest!: arg_cong [of "open_msg _ _" _ snd])

lemma step_clock: "sd_step c load store w l w' \<Longrightarrow> sd_clock w \<le> sd_clock w'"
  by (cases rule: sd_step.cases) auto

lemma run_clock: "sd_run c load store w ls w' \<Longrightarrow> sd_clock w \<le> sd_clock w'"
  by (induction rule: sd_run.induct) (auto dest: step_clock)

lemma step_gone:
  "sd_step c load store w l w' \<Longrightarrow> is_expired (sd_msg w) \<Longrightarrow> is_expired (sd_msg w') \<and> \<not> opened l"
  by (cases rule: sd_step.cases)
    (auto simp: open_msg_gone expire_now_def is_expired_def dest: open_guarded_gone)

lemma run_gone:
  "sd_run c load store w ls w' \<Longrightarrow> is_expired (sd_msg w) \<Longrightarrow>
    is_expired (sd_msg w') \<and> (\<forall>l \<in> set ls. \<not> opened l)"
  by (induction rule: sd_run.induct) (auto dest: step_gone)

lemma step_erases:
  "sd_step c load store w l w' \<Longrightarrow> opened l \<and> erases_on_read (sd_mode (sd_msg w)) \<or> l = LExpire \<or> l = LTimer \<Longrightarrow>
    is_expired (sd_msg w')"
  by (cases rule: sd_step.cases)
    (auto simp: is_ok_iff expire_now_def is_expired_def [symmetric] dest: open_msg_erases open_guarded_erases,
      auto simp: is_expired_def)

lemma run_append:
  "sd_run c load store w (ls @ ls') w'' \<longleftrightarrow> (\<exists>w'. sd_run c load store w ls w' \<and> sd_run c load store w' ls' w'')"
  by (induction ls arbitrary: w)
    (auto intro: sd_run.intros elim!: sd_run_ConsE sd_run_NilE, blast intro: sd_run.intros)

section \<open>Sealing\<close>

lemma seal_inner_Ok:
  assumes "seal_inner c seed nonce wall p mode ts w = Ok m"
  obtains ct where "aead_encrypt c (derive_key c seed mode ts w) nonce p = Ok ct"
    "sd_ciphertext m = nonce @ ct" "sd_key m = Some (derive_key c seed mode ts w)"
    "sd_mode m = mode" "sd_timer m = None"
    "sd_expires_at_ms m = (if mode = ReadTriggered then None
      else Some (saturating_add (unix_millis wall) w))"
  using assms by (cases mode) (auto simp: seal_inner_def Let_def and_then_Ok_iff)

lemma seal_inner_open:
  assumes "aead_law c" "length nonce = NONCE_LEN" "seal_inner c seed nonce wall p mode ts w = Ok m"
  shows "fst (open_msg c m) = Ok p"
  using assms(3)
  by (rule seal_inner_Ok) (use assms(1,2) in \<open>auto simp: open_msg_def aead_law_def\<close>)

lemma open_msg_cong:
  "sd_ciphertext m = sd_ciphertext m' \<Longrightarrow> sd_key m = sd_key m' \<Longrightarrow>
    fst (open_msg c m) = fst (open_msg c m')"
  by (simp add: open_msg_def split: option.split result.split)

lemma open_msg_timer_irrelevant [simp]:
  "fst (open_msg c (m\<lparr>sd_timer := t\<rparr>)) = fst (open_msg c m)"
  by (rule open_msg_cong) simp_all

lemma seal_Ok:
  "seal c seed nonce wall mono_now p ts window = Ok m \<longleftrightarrow>
    (\<exists>m0. seal_inner c seed nonce wall p TimeBound ts (as_millis_u64 window) = Ok m0
      \<and> m = m0\<lparr>sd_timer := Some (mono_now + window)\<rparr>)"
  by (auto simp: seal_def spawn_expiry_timer_def map_ok_Ok_iff)

lemma seal_combined_Ok:
  "seal_combined c seed nonce wall mono_now p ts window = Ok m \<longleftrightarrow>
    (\<exists>m0. seal_inner c seed nonce wall p Combined ts (as_millis_u64 window) = Ok m0
      \<and> m = m0\<lparr>sd_timer := Some (mono_now + window)\<rparr>)"
  by (auto simp: seal_combined_def spawn_expiry_timer_def map_ok_Ok_iff)

section \<open>Runs before the deadline\<close>

fun disturbs :: "sd_label \<Rightarrow> bool" where
  "disturbs LExpire = True"
| "disturbs (LGuarded _ (Err (ClockRollbackDetected _ _))) = True"
| "disturbs _ = False"

fun open_result :: "sd_label \<Rightarrow> bytes parda option" where
  "open_result (LOpen r) = Some r"
| "open_result (LGuarded _ r) = Some r"
| "open_result _ = None"

lemma step_before_deadline:
  assumes "sd_step c load store w l w'" "\<not> disturbs l"
    and "sd_timer (sd_msg w) = Some d" "sd_clock w' < d"
    and "open_msg c (sd_msg w) = (Ok p, sd_msg w)"
  shows "sd_msg w' = sd_msg w \<and> (\<forall>r. open_result l = Some r \<longrightarrow> r = Ok p)"
  using assms(1)
proof cases
  case (guarded_step now r m s)
  have "m = sd_msg w \<and> r = Ok p"
    using guarded_step(3) assms(2,5) guarded_step(1)
    by (auto simp: open_with_clock_guard_def split: prod.splits clock_check.splits)
  then show ?thesis
    using guarded_step by simp
qed (use assms in auto)

lemma run_before_deadline:
  assumes "sd_run c load store w ls w'" "\<forall>l \<in> set ls. \<not> disturbs l"
    and "sd_timer (sd_msg w) = Some d" "sd_clock w' < d"
    and "open_msg c (sd_msg w) = (Ok p, sd_msg w)"
  shows "sd_msg w' = sd_msg w \<and> (\<forall>l \<in> set ls. \<forall>r. open_result l = Some r \<longrightarrow> r = Ok p)"
  using assms
proof (induction rule: sd_run.induct)
  case (run_cons w l w1 ls w2)
  have "sd_clock w1 < d"
    using run_clock [OF run_cons.hyps(2)] run_cons.prems by simp
  then have "sd_msg w1 = sd_msg w \<and> (\<forall>r. open_result l = Some r \<longrightarrow> r = Ok p)"
    using step_before_deadline [OF run_cons.hyps(1)] run_cons.prems by auto
  then show ?case
    using run_cons by auto
qed simp

section \<open>Properties\<close>

text \<open>
  A concrete cipher for the witnesses: it meets the law the properties assume of the AEAD.
\<close>

definition toy_crypto :: sd_crypto where
  "toy_crypto = \<lparr>hkdf_expand = (\<lambda>ikm info. ikm @ info),
     aead_encrypt = (\<lambda>k n p. Ok (p @ n)),
     aead_decrypt = (\<lambda>k n x. Ok (take (length x - length n) x))\<rparr>"

lemma toy_crypto_law: "aead_law toy_crypto"
  by (simp add: aead_law_def toy_crypto_def)

text \<open>
  C1: In the modes that erase on read, whatever the interleaving of plain and guarded
  openings by any number of callers, explicit expiry and the timer, at most one opening
  ever returns the plaintext.
\<close>

theorem read_triggered_opens_at_most_once:
  assumes "sd_run c load store w ls w'" "erases_on_read (sd_mode (sd_msg w))"
  shows "length (filter opened ls) \<le> 1"
  using assms
proof (induction rule: sd_run.induct)
  case (run_cons w l w1 ls w2)
  show ?case
  proof (cases "opened l")
    case True
    then have "is_expired (sd_msg w1)"
      using step_erases [OF run_cons.hyps(1)] run_cons.prems by blast
    then have "filter opened ls = []"
      using run_gone [OF run_cons.hyps(2)] by (simp add: filter_empty_conv)
    then show ?thesis by simp
  next
    case False
    then show ?thesis
      using run_cons by (simp add: step_mode)
  qed
qed simp

definition read_world :: "watermark_mem sd_world" where
  "read_world = \<lparr>sd_msg = \<lparr>sd_ciphertext = replicate 12 0 @ utf8 ''hi'' @ replicate 12 0,
      sd_key = Some [7], sd_mode = ReadTriggered, sd_expires_at_ms = None, sd_timer = None\<rparr>,
    sd_clock = 0, sd_store = new_watermark_store\<rparr>"

theorem read_triggered_opens_at_most_once_witness:
  "length (filter opened [LOpen (Ok (utf8 ''hi'')), LOpen (Err SelfDestructExpired)]) \<le> 1"
proof (rule read_triggered_opens_at_most_once)
  let ?w = "read_world\<lparr>sd_msg := erase (sd_msg read_world)\<rparr>"
  have s1: "sd_step toy_crypto load_watermark_ms store_watermark_ms read_world
      (LOpen (Ok (utf8 ''hi''))) ?w"
    by (rule open_step) (simp add: open_msg_def read_world_def toy_crypto_def NONCE_LEN_def)
  have s2: "sd_step toy_crypto load_watermark_ms store_watermark_ms ?w
      (LOpen (Err SelfDestructExpired)) (?w\<lparr>sd_msg := sd_msg ?w\<rparr>)"
    by (rule open_step) (simp add: open_msg_def)
  show "sd_run toy_crypto load_watermark_ms store_watermark_ms read_world
      [LOpen (Ok (utf8 ''hi'')), LOpen (Err SelfDestructExpired)] (?w\<lparr>sd_msg := sd_msg ?w\<rparr>)"
    by (rule run_cons [OF s1 run_cons [OF s2 run_nil]])
qed (simp add: read_world_def)

text \<open>
  C2: Once the timer has fired, the message was expired explicitly, or a read-erasing
  message was opened, the plaintext is gone for good: no later opening in any
  interleaving succeeds, the message stays expired, and exporting it is refused.
\<close>

theorem expired_message_stays_gone:
  assumes "sd_run c load store w (ls @ l # ls') w'"
    and "l = LTimer \<or> l = LExpire \<or> opened l \<and> erases_on_read (sd_mode (sd_msg w))"
  shows "(\<forall>k \<in> set ls'. \<not> opened k) \<and> is_expired (sd_msg w')
    \<and> fst (open_msg c (sd_msg w')) = Err SelfDestructExpired
    \<and> export_for_persistence (sd_msg w') = Err SelfDestructExpired"
proof -
  obtain w1 w2 where r: "sd_run c load store w ls w1" "sd_step c load store w1 l w2"
    "sd_run c load store w2 ls' w'"
    using assms(1) by (auto simp: run_append elim: sd_run_ConsE)
  have "sd_mode (sd_msg w1) = sd_mode (sd_msg w)"
    using r(1) by (induction rule: sd_run.induct) (auto dest: step_mode)
  then have "is_expired (sd_msg w2)"
    using step_erases [OF r(2)] assms(2) by auto
  then show ?thesis
    using run_gone [OF r(3)] by (auto simp: open_msg_gone export_for_persistence_def is_expired_def)
qed

theorem expired_message_stays_gone_witness:
  "\<not> opened (LOpen (Err SelfDestructExpired))
    \<and> is_expired (sd_msg (read_world\<lparr>sd_msg := expire_now (sd_msg read_world)\<rparr>))"
proof -
  let ?w = "read_world\<lparr>sd_msg := expire_now (sd_msg read_world)\<rparr>"
  have "sd_step toy_crypto load_watermark_ms store_watermark_ms ?w
      (LOpen (Err SelfDestructExpired)) (?w\<lparr>sd_msg := sd_msg ?w\<rparr>)"
    by (rule open_step) (simp add: open_msg_def expire_now_def)
  then have "sd_run toy_crypto load_watermark_ms store_watermark_ms read_world
      ([] @ LExpire # [LOpen (Err SelfDestructExpired)]) (?w\<lparr>sd_msg := sd_msg ?w\<rparr>)"
    by (auto intro: sd_run.intros expire_step)
  from expired_message_stays_gone [OF this] show ?thesis by simp
qed

text \<open>
  C3: A time-bound message stays readable, any number of times, until its monotonic
  deadline \<open>seal time + window\<close>: as long as that has not been reached, nobody expires it
  and no rollback is detected, every opening returns exactly the sealed plaintext.
\<close>

theorem time_bound_readable_until_deadline:
  assumes "aead_law c" "length nonce = NONCE_LEN"
    and "seal c seed nonce wall mono_now p ts window = Ok m"
    and "sd_run c load store \<lparr>sd_msg = m, sd_clock = mono_now, sd_store = s\<rparr> ls w'"
    and "sd_clock w' < mono_now + window" "\<forall>l \<in> set ls. \<not> disturbs l"
  shows "(\<forall>l \<in> set ls. \<forall>r. open_result l = Some r \<longrightarrow> r = Ok p)
    \<and> open_msg c (sd_msg w') = (Ok p, sd_msg w')"
proof -
  obtain m0 where m0: "seal_inner c seed nonce wall p TimeBound ts (as_millis_u64 window) = Ok m0"
    and m: "m = m0\<lparr>sd_timer := Some (mono_now + window)\<rparr>"
    using assms(3) by (auto simp: seal_Ok)
  have "sd_mode m = TimeBound"
    using m0 by (rule seal_inner_Ok) (simp add: m)
  then have "snd (open_msg c m) = m"
    by (simp add: open_msg_TimeBound)
  moreover have "fst (open_msg c m) = Ok p"
    using seal_inner_open [OF assms(1,2) m0] by (simp add: m)
  ultimately have "open_msg c m = (Ok p, m)"
    by (metis prod.collapse)
  then show ?thesis
    using run_before_deadline [OF assms(4,6) _ assms(5)] by (auto simp: m)
qed

definition toy_sealed :: sdm where
  "toy_sealed = \<lparr>sd_ciphertext = replicate 12 1 @ utf8 ''hi'' @ replicate 12 1,
     sd_key = Some ([7] @ kdf_info TimeBound 1000 60), sd_mode = TimeBound,
     sd_expires_at_ms = Some 5060, sd_timer = Some 60000000\<rparr>"

lemma toy_sealed:
  "seal toy_crypto [7] (replicate 12 1) 5000000000 0 (utf8 ''hi'') 1000 60000000 = Ok toy_sealed"
proof -
  have "unix_millis 5000000000 = 5000" "as_millis_u64 60000000 = 60"
    by (simp_all add: unix_millis_def as_millis_u64_def as_millis_def)
  moreover have "saturating_add 5000 60 = (5060 :: u64)"
    by (simp add: saturating_add_def)
  ultimately show ?thesis
    by (simp add: seal_def seal_inner_def toy_crypto_def toy_sealed_def derive_key_def
        spawn_expiry_timer_def)
qed

theorem time_bound_readable_until_deadline_witness:
  "open_msg toy_crypto toy_sealed = (Ok (utf8 ''hi''), toy_sealed)"
proof -
  have "sd_run toy_crypto load_watermark_ms store_watermark_ms
      \<lparr>sd_msg = toy_sealed, sd_clock = 0, sd_store = new_watermark_store\<rparr> [LTick 59]
      (\<lparr>sd_msg = toy_sealed, sd_clock = 0, sd_store = new_watermark_store\<rparr>\<lparr>sd_clock := 0 + 59\<rparr>)"
    by (rule run_cons [OF _ run_nil]) (use tick_step [of _ _ _ "\<lparr>sd_msg = toy_sealed, sd_clock = 0,
      sd_store = new_watermark_store\<rparr>" 59] in simp)
  from time_bound_readable_until_deadline [OF toy_crypto_law _ toy_sealed this]
  show ?thesis by (simp add: NONCE_LEN_def)
qed

text \<open>
  C4: Restart survival.  A time-bound or combined message exported while alive and restored
  in a new process comes back with exactly its plaintext and a timer armed for the
  remaining part of its life, counted from the sealing; it is refused when the clock is
  behind the watermark, and refused as expired from its declared deadline on.
\<close>

theorem restore_after_restart:
  fixes s :: watermark_mem and mono' :: nat and now :: u64
  assumes "aead_law c" "length nonce = NONCE_LEN"
    and "seal c seed nonce wall mono_now p ts window = Ok m
      \<or> seal_combined c seed nonce wall mono_now p ts window = Ok m"
    and "export_for_persistence m = Ok st"
    and "unat (unix_millis wall) + as_millis window < 2 ^ 64"
  defines "deadline \<equiv> unat (unix_millis wall) + as_millis window"
  defines "restored \<equiv> fst (restore load_watermark_ms store_watermark_ms st s mono' now)"
  shows "(\<exists>w. load_watermark_ms s = Some w \<and> now < w \<and> restored = Err (ClockRollbackDetected now w))
    \<or> deadline \<le> unat now \<and> restored = Err SelfDestructExpired
    \<or> unat now < deadline \<and> (\<exists>m'. restored = Ok m' \<and> fst (open_msg c m') = Ok p
        \<and> sd_timer m' = Some (mono' + (deadline - unat now) * 1000000))"
proof -
  let ?w = "as_millis_u64 window"
  obtain mode m0 where mode: "mode \<noteq> ReadTriggered"
    and m0: "seal_inner c seed nonce wall p mode ts ?w = Ok m0"
    and m: "m = m0\<lparr>sd_timer := Some (mono_now + window)\<rparr>"
    using assms(3) by (auto simp: seal_Ok seal_combined_Ok)
  define d where "d = saturating_add (unix_millis wall) ?w"
  have "as_millis window < 2 ^ 64"
    using assms(5) by linarith
  then have "unat ?w = as_millis window"
    by (simp add: as_millis_u64_def unat_of_nat take_bit_nat_eq_self)
  then have d: "unat d = deadline"
    using assms(5) by (simp add: d_def deadline_def unat_saturating_add)
  have st: "ps_ciphertext st = sd_ciphertext m0" "sd_key m0 = Some (ps_key_bytes st)"
    "ps_mode st = sd_mode m0" "ps_expires_at_ms st = Some d"
    using assms(4) m0 mode
    by (auto simp: export_for_persistence_def m and_then_Ok_iff d_def elim!: seal_inner_Ok)
  have same: "fst (open_msg c \<lparr>sd_ciphertext = sd_ciphertext m0, sd_key = sd_key m0,
      sd_mode = sd_mode m0, sd_expires_at_ms = e, sd_timer = t\<rparr>) = Ok p" for e t
    using open_msg_cong [of "\<lparr>sd_ciphertext = sd_ciphertext m0, sd_key = sd_key m0,
      sd_mode = sd_mode m0, sd_expires_at_ms = e, sd_timer = t\<rparr>" m0 c]
      seal_inner_open [OF assms(1,2) m0] by simp
  have rem: "unat (d - now) = deadline - unat now" if "now < d"
    using that d by (simp add: unat_sub less_imp_le)
  show ?thesis
  proof (cases "fst (check_clock_integrity load_watermark_ms store_watermark_ms s now)")
    case ClockOk
    then show ?thesis
      using same st rem d
      by (cases "d \<le> now")
        (auto simp: restored_def restore_def case_prod_unfold Let_def spawn_expiry_timer_def
          from_millis_def not_le word_le_nat_alt word_less_nat_alt split: clock_check.splits)
  next
    case (RollbackDetected w o')
    then obtain w where "load_watermark_ms s = Some w" "now < w"
      "check_clock_integrity load_watermark_ms store_watermark_ms s now = (RollbackDetected w now, s)"
      using mem_wm.check_rollback [of s now] by auto
    then show ?thesis
      by (simp add: restored_def restore_def)
  qed
qed

theorem restore_after_restart_witness:
  "\<exists>st m'. export_for_persistence toy_sealed = Ok st
    \<and> fst (restore load_watermark_ms store_watermark_ms st new_watermark_store 7 5050) = Ok m'
    \<and> fst (open_msg toy_crypto m') = Ok (utf8 ''hi'') \<and> sd_timer m' = Some 10000007"
proof -
  obtain st where st: "export_for_persistence toy_sealed = Ok st"
    by (simp add: export_for_persistence_def toy_sealed_def)
  have ms: "unat (unix_millis 5000000000) = 5000" "as_millis 60000000 = 60"
    by (simp_all add: unix_millis_def as_millis_def)
  have "unat (unix_millis 5000000000) + as_millis 60000000 < 2 ^ 64"
    unfolding ms by simp
  from restore_after_restart [OF toy_crypto_law _ disjI1 [OF toy_sealed] st this,
    where s = new_watermark_store and mono' = 7 and now = 5050]
  show ?thesis
    using st by (auto simp: NONCE_LEN_def ms)
qed

text \<open>
  Domain separation of the key derivation: two messages derive their keys from the same
  HKDF \<open>info\<close> only if they agree in mode, declared timestamp and window.
\<close>

theorem kdf_info_inject:
  "kdf_info mode ts w = kdf_info mode' ts' w' \<longleftrightarrow> mode = mode' \<and> ts = ts' \<and> w = w'"
proof -
  have "mode_tag mode = mode_tag mode' \<longleftrightarrow> mode = mode'"
    by (cases mode; cases mode') simp_all
  then show ?thesis
    by (auto simp: kdf_info_def)
qed

end
