(* ===== verification/Std_Text.thy ===== *)
theory Std_Text
  imports Prelude
begin

text \<open>
  The string operations of the Rust standard library that the daemons parse their
  environment, headers and key files with.  A string is the list of its UTF-8 bytes.
\<close>

section \<open>Prefixes and separators\<close>

definition strip_prefix :: "'a list \<Rightarrow> 'a list \<Rightarrow> 'a list option" where
  "strip_prefix p s = (if take (length p) s = p then Some (drop (length p) s) else None)"

fun split_on :: "char \<Rightarrow> string \<Rightarrow> string list" where
  "split_on c [] = [[]]"
| "split_on c (x # xs) =
    (if x = c then [] # split_on c xs
     else (case split_on c xs of p # ps \<Rightarrow> (x # p) # ps | [] \<Rightarrow> [[x]]))"

fun split_once :: "char \<Rightarrow> string \<Rightarrow> (string \<times> string) option" where
  "split_once c [] = None"
| "split_once c (x # xs) =
    (if x = c then Some ([], xs) else map_option (\<lambda>(a, b). (x # a, b)) (split_once c xs))"

lemma strip_prefix_append [simp]: "strip_prefix p (p @ s) = Some s"
  by (simp add: strip_prefix_def)

lemma strip_prefix_iff: "strip_prefix p s = Some t \<longleftrightarrow> s = p @ t"
proof
  assume "strip_prefix p s = Some t"
  then have "take (length p) s = p" "drop (length p) s = t"
    by (auto simp: strip_prefix_def split: if_splits)
  then show "s = p @ t"
    by (metis append_take_drop_id)
qed simp

lemma split_on_nonempty [simp]: "split_on c s \<noteq> []"
  by (induction s) (auto split: list.split)

lemma split_on_parts: "p \<in> set (split_on c s) \<Longrightarrow> c \<notin> set p"
proof (induction s arbitrary: p)
  case (Cons x xs)
  obtain q qs where q: "split_on c xs = q # qs"
    by (metis list.exhaust split_on_nonempty)
  then have "c \<notin> set r" if "r \<in> set (q # qs)" for r
    using Cons.IH that by simp
  with Cons.prems q show ?case
    by (cases "x = c") auto
qed simp

lemma join_split_on: "join [c] (split_on c s) = s"
proof (induction s)
  case (Cons x xs)
  obtain p ps where p: "split_on c xs = p # ps"
    by (metis list.exhaust split_on_nonempty)
  with Cons.IH show ?case
    by (cases ps) auto
qed simp

lemma split_once_append: "c \<notin> set a \<Longrightarrow> split_once c (a @ c # b) = Some (a, b)"
  by (induction a) auto

lemma split_once_Some: "split_once c s = Some (a, b) \<Longrightarrow> s = a @ c # b \<and> c \<notin> set a"
  by (induction s arbitrary: a) (auto split: if_splits)

section \<open>Trimming\<close>

text \<open>The characters with the Unicode property \<open>White_Space\<close>, each as its UTF-8 bytes.\<close>

definition whitespace :: "string list" where
  "whitespace = map (map (char_of :: nat \<Rightarrow> char))
    ([[9], [10], [11], [12], [13], [32], [194, 133], [194, 160], [225, 154, 128]]
     @ map (\<lambda>n. [226, 128, n]) ([128..<139] @ [168, 169, 175])
     @ [[226, 129, 159], [227, 128, 128]])"

fun strip_any :: "string list \<Rightarrow> string \<Rightarrow> string option" where
  "strip_any [] s = None"
| "strip_any (p # ps) s = (if take (length p) s = p then Some (drop (length p) s) else strip_any ps s)"

lemma strip_any_shorter: "strip_any ps s = Some t \<Longrightarrow> [] \<notin> set ps \<Longrightarrow> length t < length s"
  by (induction ps) (cases s; auto split: if_splits)+

lemma prefix_hd: "take (length p) s = p \<Longrightarrow> p \<noteq> [] \<Longrightarrow> s \<noteq> [] \<and> hd s = hd p"
  by (cases s; cases p) auto

lemma strip_any_None: "s = [] \<or> hd s \<notin> hd ` set ps \<Longrightarrow> [] \<notin> set ps \<Longrightarrow> strip_any ps s = None"
proof (induction ps)
  case (Cons p ps)
  then have "take (length p) s \<noteq> p"
    using prefix_hd [of p s] by auto
  with Cons show ?case by auto
qed simp

function strip_while :: "string list \<Rightarrow> string \<Rightarrow> string" where
  "strip_while ps s =
    (if [] \<in> set ps then s else (case strip_any ps s of Some t \<Rightarrow> strip_while ps t | None \<Rightarrow> s))"
  by pat_completeness auto

termination
  by (relation "measure (\<lambda>(ps, s). length s)") (auto dest: strip_any_shorter)

declare strip_while.simps [simp del]

lemma strip_while_Nil [simp]: "strip_while ps [] = []"
  by (simp add: strip_while.simps strip_any_None)

definition trim :: "string \<Rightarrow> string" where
  "trim s = rev (strip_while (map rev whitespace) (rev (strip_while whitespace s)))"

text \<open>No white-space character begins or ends with a printable ASCII character.\<close>

lemma whitespace_codes:
  "list_all (\<lambda>w. (of_char (hd w) :: nat) \<notin> {33..<128} \<and> (of_char (hd (rev w)) :: nat) \<notin> {33..<128}) whitespace"
  by (simp add: whitespace_def)

lemma strip_while_keeps: "s = [] \<or> hd s \<notin> hd ` set ps \<Longrightarrow> strip_while ps s = s"
  by (simp add: strip_while.simps [of ps] strip_any_None)

lemma trim_keeps:
  assumes "s \<noteq> []" "of_char (hd s) \<in> {33..<128 :: nat}" "of_char (last s) \<in> {33..<128 :: nat}"
  shows "trim s = s"
proof -
  have space: "(of_char (hd w) :: nat) \<notin> {33..<128} \<and> (of_char (hd (rev w)) :: nat) \<notin> {33..<128}"
    if "w \<in> set whitespace" for w
    using whitespace_codes that unfolding list_all_iff by blast
  have "hd s \<notin> hd ` set whitespace" "hd (rev s) \<notin> hd ` set (map rev whitespace)"
    using assms space by (auto simp: hd_rev)
  then show ?thesis
    by (simp add: trim_def strip_while_keeps)
qed

section \<open>Numbers\<close>

text \<open>\<open>str::parse\<close> of an unsigned integer: an optional plus sign and at least one digit, in range.\<close>

definition parse_unsigned :: "nat \<Rightarrow> string \<Rightarrow> nat option" where
  "parse_unsigned bound s =
    (let digits = (case s of c # (d # ds) \<Rightarrow> if c = CHR ''+'' then d # ds else s | _ \<Rightarrow> s)
     in if digits \<noteq> [] \<and> list_all is_ascii_digit digits \<and> undec digits < bound
        then Some (undec digits) else None)"

lemma parse_unsigned_dec:
  assumes "n < bound"
  shows "parse_unsigned bound (dec n) = Some n"
proof -
  have ne: "dec n \<noteq> []"
    by (simp add: dec.simps [of n])
  have digits: "\<forall>c \<in> set (dec n). is_ascii_digit c"
    using dec_digits by blast
  obtain c cs where c: "dec n = c # cs"
    using ne by (cases "dec n") auto
  have "\<not> is_ascii_digit (CHR ''+'')"
    by (simp add: is_ascii_digit_def)
  then have "c \<noteq> CHR ''+''"
    using digits c by auto
  moreover have "undec (c # cs) = n"
    by (simp flip: c)
  ultimately show ?thesis
    using assms digits c by (auto simp: parse_unsigned_def list_all_iff split: list.split)
qed

text \<open>
  \<open>u8::from_str_radix(s, 16)\<close>: a plus sign is skipped here as well, so a pair such as
  \<open>+f\<close> is a number.
\<close>

definition hex_value :: "char \<Rightarrow> nat option" where
  "hex_value c = (let n = (of_char c :: nat) in
    if 48 \<le> n \<and> n \<le> 57 then Some (n - 48)
    else if 97 \<le> n \<and> n \<le> 102 then Some (n - 87)
    else if 65 \<le> n \<and> n \<le> 70 then Some (n - 55)
    else None)"

fun hex_digits_value :: "nat \<Rightarrow> string \<Rightarrow> nat option" where
  "hex_digits_value acc [] = Some acc"
| "hex_digits_value acc (c # cs) = (case hex_value c of
     None \<Rightarrow> None
   | Some d \<Rightarrow> if acc * 16 + d < 256 then hex_digits_value (acc * 16 + d) cs else None)"

definition u8_from_hex :: "string \<Rightarrow> u8 option" where
  "u8_from_hex s =
    (let digits = (case s of c # (d # ds) \<Rightarrow> if c = CHR ''+'' then d # ds else s | _ \<Rightarrow> s)
     in if digits = [] then None else map_option of_nat (hex_digits_value 0 digits))"

text \<open>\<open>format!("{b:02x}")\<close>, byte by byte.\<close>

definition hex_byte :: "u8 \<Rightarrow> string" where
  "hex_byte b = [hex_digit (unat b div 16), hex_digit (unat b mod 16)]"

definition hex_bytes :: "bytes \<Rightarrow> string" where
  "hex_bytes bs = concat (map hex_byte bs)"

lemma hex_value_digit: "d < 16 \<Longrightarrow> hex_value (hex_digit d) = Some d"
  by (auto simp: hex_value_def hex_digit_def Let_def)

lemma hex_digit_code: "d < 16 \<Longrightarrow> (of_char (hex_digit d) :: nat) = (if d < 10 then 48 + d else 87 + d)"
  by (simp add: hex_digit_def)

lemma hex_digit_neq_plus: "d < 16 \<Longrightarrow> hex_digit d \<noteq> CHR ''+''"
  by (auto dest!: arg_cong [where f = "of_char :: char \<Rightarrow> nat"] simp: hex_digit_code split: if_splits)

lemma u8_from_hex_byte: "u8_from_hex (hex_byte b) = Some b"
proof -
  have b: "unat b < 256"
    using unsigned_less [of b, where ?'a = nat] by simp
  then have "unat b div 16 < 16" "unat b mod 16 < 16"
    by simp_all
  then show ?thesis
    using b by (simp add: u8_from_hex_def hex_byte_def hex_digit_neq_plus hex_value_digit)
qed

end
