(* ===== verification/Bundle.thy ===== *)
theory Bundle
  imports Envelope Std_Text
begin

text \<open>
  Dead-drop bundles (\<open>mesh/src/bundle.rs\<close>): an envelope wrapped as the payload of an
  RFC 9171 bundle whose destination encodes the blinded address, and the two readings a
  carrier makes of it, its address and its expiry.  The crates called (bp7's CBOR codec and
  endpoint identifiers, serde's JSON, hex) are the fields of \<open>bundle_lib\<close>; what they
  document is \<open>bundle_lib_law\<close>.
\<close>

section \<open>The library interface\<close>

type_synonym addr32 = bytes

record bp7_bundle =
  bp_destination :: string
  bp_creation_time :: u64
  bp_lifetime :: duration
  bp_payload :: "bytes option"

record bundle_lib =
  json_to_vec :: "message_envelope \<Rightarrow> (bytes, string) result"
  json_from_slice :: "bytes \<Rightarrow> (message_envelope, string) result"
  hex_encode :: "bytes \<Rightarrow> string"
  hex_decode :: "string \<Rightarrow> (bytes, string) result"
  eid_with_dtn :: "string \<Rightarrow> (string, string) result"
  primary_build :: "bp7_bundle \<Rightarrow> (bp7_bundle, string) result"
  to_cbor :: "bp7_bundle \<Rightarrow> bytes"
  bundle_try_from :: "bytes \<Rightarrow> (bp7_bundle, string) result"

text \<open>
  The round trips of the three codecs, the textual form of a \<open>dtn\<close> endpoint
  (\<open>dtn://\<close> in front of the demux), and that building a primary block keeps the fields it
  was given.
\<close>

definition bundle_lib_law :: "bundle_lib \<Rightarrow> bool" where
  "bundle_lib_law L \<longleftrightarrow>
    envelope_codec (json_to_vec L) (json_from_slice L)
    \<and> (\<forall>b. hex_decode L (hex_encode L b) = Ok b)
    \<and> (\<forall>s t. eid_with_dtn L s = Ok t \<longrightarrow> t = ''dtn://'' @ s)
    \<and> (\<forall>b b'. primary_build L b = Ok b' \<longrightarrow> b' = b)
    \<and> (\<forall>d t ms p. let b = \<lparr>bp_destination = d, bp_creation_time = t, bp_lifetime = from_millis ms,
          bp_payload = p\<rparr> in bundle_try_from L (to_cbor L b) = Ok b)"

section \<open>Operations\<close>

definition DEAD_DROP_DEMUX_PREFIX :: string where
  "DEAD_DROP_DEMUX_PREFIX = ''parda-dead-drop/''"

definition DEAD_DROP_URI_PREFIX :: string where
  "DEAD_DROP_URI_PREFIX = ''dtn://parda-dead-drop/''"

definition DEFAULT_MAX_LIFETIME_MS :: u64 where
  "DEFAULT_MAX_LIFETIME_MS = 7 * 24 * 60 * 60 * 1000"

definition address_to_eid :: "bundle_lib \<Rightarrow> addr32 \<Rightarrow> string mesh" where
  "address_to_eid L addr =
    map_err (\<lambda>e. BundleCodec (''address did not encode as a valid EID: '' @ e))
      (eid_with_dtn L (DEAD_DROP_DEMUX_PREFIX @ hex_encode L addr))"

definition destination_address :: "bundle_lib \<Rightarrow> bp7_bundle \<Rightarrow> addr32 mesh" where
  "destination_address L b =
    and_then (ok_or (strip_prefix DEAD_DROP_URI_PREFIX (bp_destination b))
                (BundleCodec ''not a PARDA dead-drop bundle'')) (\<lambda>hex_part.
    and_then (map_err (\<lambda>e. BundleCodec (''malformed address hex: '' @ e)) (hex_decode L hex_part)) (\<lambda>bs.
    if length bs = 32 then Ok bs else Err (BundleCodec ''address was not 32 bytes'')))"

definition bundle_lifetime_ms :: "message_envelope \<Rightarrow> u64" where
  "bundle_lifetime_ms e = (case self_destruct_at e of
     Some deadline_ms \<Rightarrow> saturating_sub deadline_ms (timestamp_ms e)
   | None \<Rightarrow> DEFAULT_MAX_LIFETIME_MS)"

text \<open>\<open>clock_err\<close> is the text of the error of a wall clock before the epoch.\<close>

definition wrap :: "bundle_lib \<Rightarrow> string \<Rightarrow> int \<Rightarrow> message_envelope \<Rightarrow> addr32 \<Rightarrow> bytes mesh" where
  "wrap L clock_err wall e addr =
    and_then (map_err (\<lambda>x. BundleCodec (''envelope did not serialize: '' @ x)) (json_to_vec L e)) (\<lambda>payload.
    and_then (if wall < 0 then Err (BundleCodec clock_err) else Ok (unix_millis wall)) (\<lambda>now_ms.
    and_then (address_to_eid L addr) (\<lambda>eid.
    and_then (map_err (\<lambda>x. BundleCodec (''primary block build failed: '' @ x))
        (primary_build L \<lparr>bp_destination = eid, bp_creation_time = now_ms,
           bp_lifetime = from_millis (bundle_lifetime_ms e), bp_payload = Some payload\<rparr>)) (\<lambda>b.
    Ok (to_cbor L b)))))"

definition bytes_as_bundle :: "bundle_lib \<Rightarrow> bytes \<Rightarrow> bp7_bundle mesh" where
  "bytes_as_bundle L bs = map_err BundleCodec (bundle_try_from L bs)"

definition unwrap :: "bundle_lib \<Rightarrow> bytes \<Rightarrow> (addr32 \<times> message_envelope) mesh" where
  "unwrap L bs =
    and_then (map_err BundleCodec (bundle_try_from L bs)) (\<lambda>b.
    and_then (destination_address L b) (\<lambda>addr.
    and_then (ok_or (bp_payload b) (BundleCodec ''bundle has no payload block'')) (\<lambda>payload.
    and_then (map_err (\<lambda>x. BundleCodec (''payload did not decode as an envelope: '' @ x))
        (json_from_slice L payload)) (\<lambda>e.
    Ok (addr, e)))))"

text \<open>The sum of creation time and lifetime is an unchecked \<open>u64\<close> addition.\<close>

definition expiry_ms :: "bundle_lib \<Rightarrow> bytes \<Rightarrow> u64 mesh" where
  "expiry_ms L bs =
    and_then (map_err BundleCodec (bundle_try_from L bs)) (\<lambda>b.
    Ok (bp_creation_time b + as_millis_u64 (bp_lifetime b)))"

section \<open>Lemmas\<close>

lemma dead_drop_uri: "DEAD_DROP_URI_PREFIX = ''dtn://'' @ DEAD_DROP_DEMUX_PREFIX"
  by (simp add: DEAD_DROP_URI_PREFIX_def DEAD_DROP_DEMUX_PREFIX_def)

lemma wrap_Ok:
  assumes "bundle_lib_law L" "wrap L ce wall e addr = Ok bs"
  obtains payload where "json_to_vec L e = Ok payload" "0 \<le> wall"
    "bundle_try_from L bs = Ok \<lparr>bp_destination = DEAD_DROP_URI_PREFIX @ hex_encode L addr,
       bp_creation_time = unix_millis wall, bp_lifetime = from_millis (bundle_lifetime_ms e),
       bp_payload = Some payload\<rparr>"
proof -
  obtain payload eid b where *: "json_to_vec L e = Ok payload" "0 \<le> wall"
    "eid_with_dtn L (DEAD_DROP_DEMUX_PREFIX @ hex_encode L addr) = Ok eid"
    "primary_build L \<lparr>bp_destination = eid, bp_creation_time = unix_millis wall,
       bp_lifetime = from_millis (bundle_lifetime_ms e), bp_payload = Some payload\<rparr> = Ok b"
    "bs = to_cbor L b"
    using assms(2) by (auto simp: wrap_def address_to_eid_def and_then_Ok_iff split: if_splits)
  have "eid = ''dtn://'' @ DEAD_DROP_DEMUX_PREFIX @ hex_encode L addr"
    using assms(1) *(3) unfolding bundle_lib_law_def by blast
  then have eid: "eid = DEAD_DROP_URI_PREFIX @ hex_encode L addr"
    by (simp add: dead_drop_uri)
  have b: "b = \<lparr>bp_destination = eid, bp_creation_time = unix_millis wall,
       bp_lifetime = from_millis (bundle_lifetime_ms e), bp_payload = Some payload\<rparr>"
    using assms(1) *(4) unfolding bundle_lib_law_def by blast
  have "bundle_try_from L bs = Ok b"
    using assms(1) unfolding bundle_lib_law_def Let_def *(5) b by blast
  then show thesis
    using that [of payload] *(1,2) by (simp add: b eid)
qed

lemma destination_address_length: "destination_address L b = Ok a \<Longrightarrow> length a = 32"
  by (auto simp: destination_address_def and_then_Ok_iff split: if_splits)

lemma destination_address_wrapped:
  assumes "bundle_lib_law L" "length addr = 32" "bp_destination b = DEAD_DROP_URI_PREFIX @ hex_encode L addr"
  shows "destination_address L b = Ok addr"
  using assms by (simp add: destination_address_def bundle_lib_law_def)

lemma wrap_unwrap_expiry:
  assumes "bundle_lib_law L" "length addr = 32" "wrap L ce wall e addr = Ok bs"
  shows "unwrap L bs = Ok (addr, e)"
    and "expiry_ms L bs = Ok (unix_millis wall + bundle_lifetime_ms e)"
    and "\<exists>b. bundle_try_from L bs = Ok b \<and> destination_address L b = Ok addr"
proof -
  obtain payload where *: "json_to_vec L e = Ok payload"
    "bundle_try_from L bs = Ok \<lparr>bp_destination = DEAD_DROP_URI_PREFIX @ hex_encode L addr,
       bp_creation_time = unix_millis wall, bp_lifetime = from_millis (bundle_lifetime_ms e),
       bp_payload = Some payload\<rparr>"
    using assms(1,3) by (rule wrap_Ok)
  have "json_from_slice L payload = Ok e"
    using assms(1) *(1) by (auto simp: bundle_lib_law_def envelope_codec_def)
  then show "unwrap L bs = Ok (addr, e)"
    and "expiry_ms L bs = Ok (unix_millis wall + bundle_lifetime_ms e)"
    and "\<exists>b. bundle_try_from L bs = Ok b \<and> destination_address L b = Ok addr"
    using *(2) destination_address_wrapped [OF assms(1,2)]
    by (simp_all add: unwrap_def expiry_ms_def)
qed

section \<open>Properties\<close>

text \<open>
  A wrapped envelope comes back unchanged with its address, and the bundle read as a
  carrier reads it expires exactly its lifetime after the moment of wrapping: the declared
  deadline minus the declared timestamp, or seven days when no deadline is declared.
\<close>

theorem wrap_unwrap_roundtrip:
  assumes "bundle_lib_law L" "length addr = 32" "wrap L ce wall e addr = Ok bs"
  shows "unwrap L bs = Ok (addr, e)
    \<and> expiry_ms L bs = Ok (unix_millis wall + (case self_destruct_at e of
          Some d \<Rightarrow> saturating_sub d (timestamp_ms e) | None \<Rightarrow> DEFAULT_MAX_LIFETIME_MS))"
  using wrap_unwrap_expiry [OF assms] by (simp add: bundle_lifetime_ms_def)

text \<open>A codec for the witnesses: a bundle is its fields, length-prefixed.\<close>

definition sample_envelope :: message_envelope where
  "sample_envelope = \<lparr>sender_id = [], recipient_id = [], ciphertext = [1, 2, 3, 4],
     env_type = SealedSender, timestamp_ms = 1000000, version = 2, sealed_sender = True,
     routing_hint = None, self_destruct_at = Some 1060000, read_triggered_destruct = False,
     dead_drop_address = None\<rparr>"

definition toy_bundle_lib :: bundle_lib where
  "toy_bundle_lib = \<lparr>
     json_to_vec = (\<lambda>e. if e = sample_envelope then Ok [42] else Err ''other''),
     json_from_slice = (\<lambda>b. if b = [42] then Ok sample_envelope else Err ''json''),
     hex_encode = of_utf8, hex_decode = (\<lambda>s. Ok (utf8 s)),
     eid_with_dtn = (\<lambda>s. Ok (''dtn://'' @ s)), primary_build = Ok,
     to_cbor = (\<lambda>b. be_bytes 8 (bp_creation_time b) @ be_bytes 8 (as_millis_u64 (bp_lifetime b))
        @ (case bp_payload b of None \<Rightarrow> [0] | Some p \<Rightarrow> Cons 1 (replicate (length p) 1 @ [0] @ p))
        @ utf8 (bp_destination b)),
     bundle_try_from = (\<lambda>bs.
        let t = of_be_bytes (take 8 bs); l = of_be_bytes (take 8 (drop 8 bs)); r = drop 16 bs in
        if r = [] then Err ''cbor''
        else if hd r = 0 then
          Ok \<lparr>bp_destination = of_utf8 (tl r), bp_creation_time = t, bp_lifetime = from_millis l,
             bp_payload = None\<rparr>
        else
          let n = length (takeWhile (\<lambda>x. x = 1) (tl r)); q = drop (Suc n) (tl r) in
          Ok \<lparr>bp_destination = of_utf8 (drop n q), bp_creation_time = t, bp_lifetime = from_millis l,
             bp_payload = Some (take n q)\<rparr>)\<rparr>"

lemma takeWhile_ones: "takeWhile (\<lambda>x. x = 1) (replicate n 1 @ 0 # xs) = replicate n (1 :: u8)"
  by (induction n) auto

lemma toy_bundle_lib_law: "bundle_lib_law toy_bundle_lib"
proof -
  have "(of_be_bytes (be_bytes 8 x) :: u64) = x" for x :: u64
    by (rule of_be_bytes_be_bytes) simp
  then show ?thesis
    by (auto simp: bundle_lib_law_def toy_bundle_lib_def envelope_codec_def Let_def takeWhile_ones
        split: option.split if_splits)
qed

lemma toy_wrap:
  "\<exists>bs. wrap toy_bundle_lib [] 1500000000000 sample_envelope (replicate 32 7) = Ok bs"
  by (simp add: wrap_def address_to_eid_def toy_bundle_lib_def)

theorem wrap_unwrap_roundtrip_witness:
  "\<exists>bs. wrap toy_bundle_lib [] 1500000000000 sample_envelope (replicate 32 7) = Ok bs
    \<and> unwrap toy_bundle_lib bs = Ok (replicate 32 7, sample_envelope)
    \<and> expiry_ms toy_bundle_lib bs = Ok 1560000"
proof -
  obtain bs where bs: "wrap toy_bundle_lib [] 1500000000000 sample_envelope (replicate 32 7) = Ok bs"
    using toy_wrap by blast
  have "unix_millis 1500000000000 = 1500000"
    by (simp add: unix_millis_def)
  then show ?thesis
    using wrap_unwrap_roundtrip [OF toy_bundle_lib_law _ bs] bs
    by (simp add: sample_envelope_def saturating_sub_def)
qed

text \<open>
  C29: The carrier's deadline and the declared one differ by the composing delay: a bundle
  wrapped some time after its envelope was stamped expires that much later than the
  envelope's \<open>self_destruct_at\<close>, so a carrier may hold it past the declared expiry.
\<close>

theorem carrier_expiry_lags_declared_deadline:
  assumes "bundle_lib_law L" "length addr = 32" "wrap L ce wall e addr = Ok bs"
    and "self_destruct_at e = Some d" "timestamp_ms e \<le> d" "timestamp_ms e \<le> unix_millis wall"
    and "unat d + unat (unix_millis wall) < 2 ^ 64"
  shows "\<exists>x. expiry_ms L bs = Ok x
    \<and> unat x = unat d + (unat (unix_millis wall) - unat (timestamp_ms e))"
proof -
  have "expiry_ms L bs = Ok (unix_millis wall + (d - timestamp_ms e))"
    using wrap_unwrap_expiry [OF assms(1-3)] assms(4,5)
    by (simp add: bundle_lifetime_ms_def saturating_sub_def not_less [symmetric])
  moreover have "unat (unix_millis wall + (d - timestamp_ms e))
      = unat d + (unat (unix_millis wall) - unat (timestamp_ms e))"
    using assms(5-7) by (simp add: unat_word_ariths unat_sub word_le_nat_alt)
  ultimately show ?thesis by blast
qed

theorem carrier_expiry_lags_declared_deadline_witness:
  "\<exists>bs x. wrap toy_bundle_lib [] 1500000000000 sample_envelope (replicate 32 7) = Ok bs
    \<and> expiry_ms toy_bundle_lib bs = Ok x \<and> unat x = 1060000 + 500000"
proof -
  obtain bs where bs: "wrap toy_bundle_lib [] 1500000000000 sample_envelope (replicate 32 7) = Ok bs"
    using toy_wrap by blast
  have "unix_millis 1500000000000 = 1500000"
    by (simp add: unix_millis_def)
  then show ?thesis
    using carrier_expiry_lags_declared_deadline [OF toy_bundle_lib_law _ bs, of 1060000] bs
    by (auto simp: sample_envelope_def)
qed

end
