(* ===== verification/Relay.thy ===== *)
theory Relay
  imports Bundle
begin

text \<open>
  The store-and-forward relay (\<open>mesh/src/relay.rs\<close>): its bounded store of opaque bundles,
  admission, retrieval, the expiry sweep, and the epidemic sync session two relays run over
  a link.  \<open>by_hash\<close> is an association list, one iteration order of the code's hash map;
  SHA-256 is the parameter \<open>sha\<close>; every reading of the clock is an argument.  Sizes are
  natural numbers: a \<open>usize\<close> cannot overflow on bytes held in memory.
\<close>

section \<open>State\<close>

record relay_config =
  max_total_bundles :: nat
  max_total_bytes :: nat
  max_bundles_per_session :: nat

definition default_relay_config :: relay_config where
  "default_relay_config =
    \<lparr>max_total_bundles = 500, max_total_bytes = 8 * 1024 * 1024, max_bundles_per_session = 20\<rparr>"

record stored_bundle =
  sb_bytes :: bytes
  sb_address :: addr32
  sb_expiry_ms :: u64

record relay_store =
  by_hash :: "(bytes \<times> stored_bundle) list"
  total_bytes :: nat

definition new_relay_store :: relay_store where
  "new_relay_store = \<lparr>by_hash = [], total_bytes = 0\<rparr>"

definition stored_count :: "relay_store \<Rightarrow> nat" where
  "stored_count s = length (by_hash s)"

definition stored_bytes :: "relay_store \<Rightarrow> nat" where
  "stored_bytes s = total_bytes s"

definition debug_all_stored_bytes :: "relay_store \<Rightarrow> bytes list" where
  "debug_all_stored_bytes s = map (sb_bytes \<circ> snd) (by_hash s)"

record relay_lib =
  codec :: bundle_lib
  sha :: "bytes \<Rightarrow> bytes"

section \<open>Operations on the store\<close>

text \<open>The checks made before the lock is taken: expiry, framing and address.\<close>

definition admit_precheck :: "relay_lib \<Rightarrow> u64 \<Rightarrow> bytes \<Rightarrow> (u64 \<times> addr32) mesh" where
  "admit_precheck L now bs =
    and_then (expiry_ms (codec L) bs) (\<lambda>expiry.
    and_then (if expiry \<le> now then Err (RelayRefused ''bundle already expired on arrival'')
              else Ok ()) (\<lambda>_.
    and_then (bytes_as_bundle (codec L) bs) (\<lambda>b.
    and_then (destination_address (codec L) b) (\<lambda>addr. Ok (expiry, addr)))))"

definition admit_checked ::
  "relay_lib \<Rightarrow> relay_config \<Rightarrow> u64 \<Rightarrow> bytes \<Rightarrow> nat option \<Rightarrow> relay_store \<Rightarrow> unit mesh \<times> relay_store" where
  "admit_checked L cfg now bs session_budget s =
    (case admit_precheck L now bs of
       Err e \<Rightarrow> (Err e, s)
     | Ok (expiry, addr) \<Rightarrow>
         let hash = sha L bs in
         if map_of (by_hash s) hash \<noteq> None then (Ok (), s)
         else if session_budget = Some 0 then
           (Err (RelayRefused ''per-session admission cap reached''), s)
         else if length (by_hash s) \<ge> max_total_bundles cfg
             \<or> total_bytes s + length bs > max_total_bytes cfg then
           (Err (RelayRefused ''global storage cap reached''), s)
         else
           (Ok (), \<lparr>by_hash = AList.update hash \<lparr>sb_bytes = bs, sb_address = addr, sb_expiry_ms = expiry\<rparr>
                      (by_hash s),
                    total_bytes = total_bytes s + length bs\<rparr>))"

definition admit :: "relay_lib \<Rightarrow> relay_config \<Rightarrow> u64 \<Rightarrow> bytes \<Rightarrow> relay_store \<Rightarrow> unit mesh \<times> relay_store" where
  "admit L cfg now bs s = admit_checked L cfg now bs None s"

definition bundles_for_addresses :: "addr32 list \<Rightarrow> relay_store \<Rightarrow> bytes list" where
  "bundles_for_addresses addresses s =
    map (sb_bytes \<circ> snd) (filter (\<lambda>(h, b). sb_address b \<in> set addresses) (by_hash s))"

text \<open>Removal of a list of hashes, collecting what was removed.\<close>

fun remove_hashes :: "bytes list \<Rightarrow> relay_store \<Rightarrow> bytes list \<times> relay_store" where
  "remove_hashes [] s = ([], s)"
| "remove_hashes (h # hs) s =
    (case map_of (by_hash s) h of
       None \<Rightarrow> remove_hashes hs s
     | Some b \<Rightarrow>
         let (taken, s') = remove_hashes hs
               \<lparr>by_hash = AList.delete h (by_hash s), total_bytes = total_bytes s - length (sb_bytes b)\<rparr>
         in (sb_bytes b # taken, s'))"

definition take_for_addresses :: "addr32 list \<Rightarrow> relay_store \<Rightarrow> bytes list \<times> relay_store" where
  "take_for_addresses addresses s =
    remove_hashes (map fst (filter (\<lambda>(h, b). sb_address b \<in> set addresses) (by_hash s))) s"

definition sweep_expired :: "u64 \<Rightarrow> relay_store \<Rightarrow> relay_store" where
  "sweep_expired now s =
    snd (remove_hashes (map fst (filter (\<lambda>(h, b). sb_expiry_ms b \<le> now) (by_hash s))) s)"

section \<open>The store invariant\<close>

text \<open>What a bundle must be for a relay to look at it at all.\<close>

definition readable :: "relay_lib \<Rightarrow> bytes \<Rightarrow> u64 \<Rightarrow> addr32 \<Rightarrow> bool" where
  "readable L bs expiry addr \<longleftrightarrow> expiry_ms (codec L) bs = Ok expiry
    \<and> (\<exists>p. bytes_as_bundle (codec L) bs = Ok p \<and> destination_address (codec L) p = Ok addr)"

definition relay_inv :: "relay_lib \<Rightarrow> relay_config \<Rightarrow> relay_store \<Rightarrow> bool" where
  "relay_inv L cfg s \<longleftrightarrow>
    distinct_keys (by_hash s)
    \<and> length (by_hash s) \<le> max_total_bundles cfg
    \<and> total_bytes s = (\<Sum>(h, b) \<leftarrow> by_hash s. length (sb_bytes b))
    \<and> total_bytes s \<le> max_total_bytes cfg
    \<and> (\<forall>(h, b) \<in> set (by_hash s). h = sha L (sb_bytes b)
        \<and> readable L (sb_bytes b) (sb_expiry_ms b) (sb_address b))"

lemma relay_inv_new: "relay_inv L cfg new_relay_store"
  by (simp add: relay_inv_def new_relay_store_def)

lemma admit_precheck_Ok:
  "admit_precheck L now bs = Ok (expiry, addr) \<longleftrightarrow> readable L bs expiry addr \<and> now < expiry"
  by (auto simp: admit_precheck_def readable_def and_then_Ok_iff not_le)

lemma admit_checked_cases [consumes 1, case_names refused held stored]:
  assumes "admit_checked L cfg now bs budget s = (r, s')"
  obtains (refused) e where "r = Err e" "s' = s"
  | (held) "r = Ok ()" "s' = s" "map_of (by_hash s) (sha L bs) \<noteq> None"
  | (stored) expiry addr where "r = Ok ()" "readable L bs expiry addr" "now < expiry"
      "map_of (by_hash s) (sha L bs) = None" "budget \<noteq> Some 0"
      "length (by_hash s) < max_total_bundles cfg" "total_bytes s + length bs \<le> max_total_bytes cfg"
      "s' = \<lparr>by_hash = by_hash s @ [(sha L bs, \<lparr>sb_bytes = bs, sb_address = addr, sb_expiry_ms = expiry\<rparr>)],
             total_bytes = total_bytes s + length bs\<rparr>"
proof (cases "admit_precheck L now bs")
  case (Err e)
  then show ?thesis
    using assms refused by (auto simp: admit_checked_def)
next
  case (Ok ea)
  obtain expiry addr where ea: "ea = (expiry, addr)" by (cases ea)
  have pre: "readable L bs expiry addr" "now < expiry"
    using Ok by (simp_all add: ea admit_precheck_Ok)
  let ?new = "\<lparr>by_hash = by_hash s @ [(sha L bs, \<lparr>sb_bytes = bs, sb_address = addr, sb_expiry_ms = expiry\<rparr>)],
             total_bytes = total_bytes s + length bs\<rparr>"
  have eq: "(r, s') = (if map_of (by_hash s) (sha L bs) \<noteq> None then (Ok (), s)
       else if budget = Some 0 then (Err (RelayRefused ''per-session admission cap reached''), s)
       else if length (by_hash s) \<ge> max_total_bundles cfg \<or> total_bytes s + length bs > max_total_bytes cfg
         then (Err (RelayRefused ''global storage cap reached''), s)
       else (Ok (), ?new))"
    unfolding assms [symmetric] by (simp add: admit_checked_def Ok ea Let_def update_fresh)
  consider "map_of (by_hash s) (sha L bs) \<noteq> None"
    | "map_of (by_hash s) (sha L bs) = None" "\<exists>e. r = Err e \<and> s' = s"
    | "map_of (by_hash s) (sha L bs) = None" "budget \<noteq> Some 0" "\<not> length (by_hash s) \<ge> max_total_bundles cfg"
      "\<not> total_bytes s + length bs > max_total_bytes cfg" "r = Ok ()" "s' = ?new"
    using eq by (metis prod.inject)
  then show ?thesis
  proof cases
    case 1
    then show ?thesis using eq held by simp
  next
    case 2
    then show ?thesis using refused by blast
  next
    case 3
    show ?thesis
      by (rule stored [OF 3(5) pre 3(1,2) _ _ 3(6)]) (use 3 in simp_all)
  qed
qed

lemma relay_inv_admit:
  assumes "relay_inv L cfg s" "admit_checked L cfg now bs budget s = (r, s')"
  shows "relay_inv L cfg s'"
  using assms(2)
proof (cases rule: admit_checked_cases)
  case (stored expiry addr)
  then show ?thesis
    using assms(1) by (auto simp: relay_inv_def map_of_eq_None_iff)
qed (use assms(1) in simp_all)

lemma relay_inv_delete:
  assumes "relay_inv L cfg s" "map_of (by_hash s) h = Some b"
  shows "relay_inv L cfg \<lparr>by_hash = AList.delete h (by_hash s),
    total_bytes = total_bytes s - length (sb_bytes b)\<rparr>"
  using assms sum_list_delete [of "by_hash s" h b "\<lambda>b. length (sb_bytes b)"]
    length_delete_le [of h "by_hash s"]
  by (auto simp: relay_inv_def distinct_delete set_delete)

lemma relay_inv_remove_hashes:
  "relay_inv L cfg s \<Longrightarrow> relay_inv L cfg (snd (remove_hashes hs s))"
proof (induction hs arbitrary: s)
  case (Cons h hs)
  then show ?case
    using relay_inv_delete [OF Cons.prems]
    by (auto simp: Let_def case_prod_unfold split: option.split)
qed simp

lemma delete_filter: "AList.delete k m = filter (\<lambda>(k', _). k' \<noteq> k) m"
  by (induction m) auto

lemma remove_hashes_subset:
  assumes "distinct_keys (by_hash s)" "set xs \<subseteq> set (by_hash s)" "distinct_keys xs"
  shows "remove_hashes (map fst xs) s = (map (sb_bytes \<circ> snd) xs,
    \<lparr>by_hash = filter (\<lambda>(h, _). h \<notin> fst ` set xs) (by_hash s),
     total_bytes = total_bytes s - (\<Sum>(h, b) \<leftarrow> xs. length (sb_bytes b))\<rparr>)"
  using assms
proof (induction xs arbitrary: s)
  case (Cons x xs)
  obtain h b where x: "x = (h, b)" by (cases x)
  then have "map_of (by_hash s) h = Some b"
    using Cons.prems by simp
  moreover have "set xs \<subseteq> set (AList.delete h (by_hash s))"
    using Cons.prems by (force simp: set_delete x)
  moreover have "filter (\<lambda>(k, _). k \<notin> fst ` set xs) (AList.delete h (by_hash s))
      = filter (\<lambda>(k, _). k \<notin> fst ` set (x # xs)) (by_hash s)"
    by (auto simp: delete_filter x intro: filter_cong)
  ultimately show ?case
    using Cons.prems by (simp add: Cons.IH x distinct_delete Let_def)
qed simp

lemma remove_hashes_filter:
  assumes "distinct_keys (by_hash s)"
  shows "remove_hashes (map fst (filter P (by_hash s))) s = (map (sb_bytes \<circ> snd) (filter P (by_hash s)),
    \<lparr>by_hash = filter (\<lambda>x. \<not> P x) (by_hash s),
     total_bytes = total_bytes s - (\<Sum>(h, b) \<leftarrow> filter P (by_hash s). length (sb_bytes b))\<rparr>)"
proof -
  have "filter (\<lambda>(h, _). h \<notin> fst ` set (filter P (by_hash s))) (by_hash s) = filter (\<lambda>x. \<not> P x) (by_hash s)"
    using assms by (intro filter_cong) (auto simp: image_iff dest: eq_key_imp_eq_value)
  then show ?thesis
    using assms by (subst remove_hashes_subset) (auto simp: case_prod_unfold)
qed

lemma take_for_addresses_eq:
  assumes "distinct_keys (by_hash s)"
  shows "fst (take_for_addresses as s) = map (sb_bytes \<circ> snd) (filter (\<lambda>(h, b). sb_address b \<in> set as) (by_hash s))"
    and "by_hash (snd (take_for_addresses as s)) = filter (\<lambda>(h, b). sb_address b \<notin> set as) (by_hash s)"
  using assms by (simp_all add: take_for_addresses_def remove_hashes_filter case_prod_unfold)

lemma sweep_expired_eq:
  assumes "distinct_keys (by_hash s)"
  shows "by_hash (sweep_expired now s) = filter (\<lambda>(h, b). now < sb_expiry_ms b) (by_hash s)"
  using assms by (simp add: sweep_expired_def remove_hashes_filter case_prod_unfold not_le)

lemma relay_inv_take: "relay_inv L cfg s \<Longrightarrow> relay_inv L cfg (snd (take_for_addresses as s))"
  by (simp add: take_for_addresses_def relay_inv_remove_hashes)

lemma relay_inv_sweep: "relay_inv L cfg s \<Longrightarrow> relay_inv L cfg (sweep_expired now s)"
  by (simp add: sweep_expired_def relay_inv_remove_hashes)

section \<open>The sync session of one relay\<close>

datatype sync_message =
    Have "bytes list"
  | Want "bytes list"
  | BundleMsg bytes
  | Done

text \<open>
  \<open>sync_with_peer\<close> suspends at each \<open>recv_msg\<close>; a phase is the point it is suspended at with
  the local variables still live there.  \<open>sync_start\<close> is its code up to the first \<open>recv\<close>,
  \<open>sync_receive\<close> the code from a received message to the next \<open>recv\<close> or to its return; both
  give the messages sent meanwhile.
\<close>

datatype sync_phase =
    AwaitHave "bytes list"
  | AwaitWant
  | Receiving (admitted: nat) (budget: nat)
  | Finished nat
  | Failed mesh_error

definition unexpected :: "sync_message \<Rightarrow> mesh_error" where
  "unexpected m = Link ''sync protocol violation: message out of order''"

definition sync_start :: "u64 \<Rightarrow> relay_store \<Rightarrow> sync_phase \<times> sync_message list \<times> relay_store" where
  "sync_start now s =
    (let s' = sweep_expired now s; my_hashes = map fst (by_hash s')
     in (AwaitHave my_hashes, [Have my_hashes], s'))"

definition bundles_to_send :: "relay_config \<Rightarrow> bytes list \<Rightarrow> relay_store \<Rightarrow> bytes list" where
  "bundles_to_send cfg their_want s =
    List.map_filter (\<lambda>h. map_option sb_bytes (map_of (by_hash s) h))
      (take (max_bundles_per_session cfg) their_want)"

fun sync_receive ::
  "relay_lib \<Rightarrow> relay_config \<Rightarrow> u64 \<Rightarrow> sync_phase \<Rightarrow> sync_message \<Rightarrow> relay_store
    \<Rightarrow> sync_phase \<times> sync_message list \<times> relay_store" where
  "sync_receive L cfg now (AwaitHave my_hashes) (Have their_hashes) s =
    (AwaitWant,
     [Want (take (max_bundles_per_session cfg) (filter (\<lambda>h. h \<notin> set my_hashes) their_hashes))], s)"
| "sync_receive L cfg now AwaitWant (Want their_want) s =
    (Receiving 0 (max_bundles_per_session cfg),
     map BundleMsg (bundles_to_send cfg their_want s) @ [Done], s)"
| "sync_receive L cfg now (Receiving n k) (BundleMsg bs) s =
    (let (r, s') = admit_checked L cfg now bs (Some k) s
     in (if is_ok r then Receiving (n + 1) (k - 1) else Receiving n k, [], s'))"
| "sync_receive L cfg now (Receiving n k) Done s = (Finished n, [], s)"
| "sync_receive L cfg now (Finished n) m s = (Finished n, [], s)"
| "sync_receive L cfg now (Failed e) m s = (Failed e, [], s)"
| "sync_receive L cfg now p m s = (Failed (unexpected m), [], s)"

lemma relay_inv_sync_receive:
  "relay_inv L cfg s \<Longrightarrow> sync_receive L cfg now p m s = (p', out, s') \<Longrightarrow> relay_inv L cfg s'"
  by (induction L cfg now p m s rule: sync_receive.induct)
    (auto simp: Let_def split: prod.splits dest: relay_inv_admit)

lemma relay_inv_sync_start:
  "relay_inv L cfg s \<Longrightarrow> sync_start now s = (p', out, s') \<Longrightarrow> relay_inv L cfg s'"
  by (auto simp: sync_start_def Let_def relay_inv_sweep)

section \<open>A relay under any load\<close>

text \<open>
  Everything that can happen to a relay's store: its owner sends, picks up or sweeps, and
  any number of sync sessions with arbitrary, possibly hostile, peers advance, in any
  interleaving and at any clock readings.
\<close>

inductive relay_op :: "relay_lib \<Rightarrow> relay_config \<Rightarrow> relay_store \<Rightarrow> relay_store \<Rightarrow> bool"
  for L cfg
where
  op_admit: "relay_op L cfg s (snd (admit L cfg now bs s))"
| op_take: "relay_op L cfg s (snd (take_for_addresses as s))"
| op_sweep: "relay_op L cfg s (sweep_expired now s)"
| op_start: "sync_start now s = (p, out, s') \<Longrightarrow> relay_op L cfg s s'"
| op_receive: "sync_receive L cfg now p m s = (p', out, s') \<Longrightarrow> relay_op L cfg s s'"

inductive relay_reachable :: "relay_lib \<Rightarrow> relay_config \<Rightarrow> relay_store \<Rightarrow> bool"
  for L cfg
where
  reach_new: "relay_reachable L cfg new_relay_store"
| reach_op: "relay_reachable L cfg s \<Longrightarrow> relay_op L cfg s s' \<Longrightarrow> relay_reachable L cfg s'"

lemma relay_inv_op: "relay_op L cfg s s' \<Longrightarrow> relay_inv L cfg s \<Longrightarrow> relay_inv L cfg s'"
  by (induction rule: relay_op.induct)
    (auto simp: relay_inv_take relay_inv_sweep admit_def
      dest: relay_inv_sync_start relay_inv_sync_receive intro: relay_inv_admit [OF _ prod.collapse [symmetric]])

lemma relay_reachable_inv: "relay_reachable L cfg s \<Longrightarrow> relay_inv L cfg s"
  by (induction rule: relay_reachable.induct) (auto intro: relay_inv_new relay_inv_op)

section \<open>Properties\<close>

text \<open>A relay with an identity hash, for the witnesses.\<close>

definition toy_relay_lib :: relay_lib where
  "toy_relay_lib = \<lparr>codec = toy_bundle_lib, sha = id\<rparr>"

definition toy_bytes :: bytes where
  "toy_bytes = (case wrap toy_bundle_lib [] 1500000000000 sample_envelope (replicate 32 7) of
     Ok bs \<Rightarrow> bs | Err _ \<Rightarrow> [])"

lemma toy_bytes_wrap: "wrap toy_bundle_lib [] 1500000000000 sample_envelope (replicate 32 7) = Ok toy_bytes"
  using toy_wrap by (auto simp: toy_bytes_def)

lemma toy_readable: "readable toy_relay_lib toy_bytes 1560000 (replicate 32 7)"
proof -
  have "unix_millis 1500000000000 = 1500000"
    by (simp add: unix_millis_def)
  then show ?thesis
    using wrap_unwrap_expiry [OF toy_bundle_lib_law _ toy_bytes_wrap]
    by (auto simp: readable_def toy_relay_lib_def bytes_as_bundle_def bundle_lifetime_ms_def
        sample_envelope_def saturating_sub_def)
qed

definition toy_relay :: relay_store where
  "toy_relay = snd (admit toy_relay_lib default_relay_config 1500001 toy_bytes new_relay_store)"

lemma length_toy_bytes: "length toy_bytes \<le> 100"
proof -
  have "wrap toy_bundle_lib [] 1500000000000 sample_envelope (replicate 32 7) = Ok bs \<Longrightarrow> length bs \<le> 100" for bs
    by (auto simp: wrap_def address_to_eid_def toy_bundle_lib_def and_then_Ok_iff DEAD_DROP_DEMUX_PREFIX_def
        of_utf8_def split: if_splits)
  then show ?thesis
    using toy_bytes_wrap by blast
qed

lemma toy_relay_eq: "toy_relay = \<lparr>by_hash = [(toy_bytes, \<lparr>sb_bytes = toy_bytes, sb_address = replicate 32 7,
    sb_expiry_ms = 1560000\<rparr>)], total_bytes = length toy_bytes\<rparr>"
proof -
  have "admit_precheck toy_relay_lib 1500001 toy_bytes = Ok (1560000, replicate 32 7)"
    using toy_readable by (simp add: admit_precheck_Ok)
  then show ?thesis
    using length_toy_bytes
    by (simp add: toy_relay_def admit_def admit_checked_def Let_def new_relay_store_def
        default_relay_config_def toy_relay_lib_def)
qed

lemma toy_relay_reachable: "relay_reachable toy_relay_lib default_relay_config toy_relay"
  unfolding toy_relay_def by (rule reach_op [OF reach_new op_admit])

text \<open>
  C19: Flood resistance.  Whatever its owner and any number of possibly hostile sync peers
  do, in any interleaving, a relay never holds more bundles or more bytes than its two
  global caps, its byte counter is exact, and every bundle is held once, under its content
  hash, with its own address and expiry.
\<close>

theorem relay_storage_is_bounded:
  assumes "relay_reachable L cfg s"
  shows "stored_count s \<le> max_total_bundles cfg \<and> stored_bytes s \<le> max_total_bytes cfg
    \<and> stored_bytes s = sum_list (map length (debug_all_stored_bytes s))
    \<and> distinct_keys (by_hash s)
    \<and> (\<forall>(h, b) \<in> set (by_hash s). h = sha L (sb_bytes b)
        \<and> readable L (sb_bytes b) (sb_expiry_ms b) (sb_address b))"
  using relay_reachable_inv [OF assms]
  by (simp add: relay_inv_def stored_count_def stored_bytes_def debug_all_stored_bytes_def
      o_def case_prod_unfold)

theorem relay_storage_is_bounded_witness:
  "stored_count toy_relay = 1 \<and> stored_count toy_relay \<le> 500
    \<and> stored_bytes toy_relay = sum_list (map length (debug_all_stored_bytes toy_relay))"
  using relay_storage_is_bounded [OF toy_relay_reachable]
  by (simp add: default_relay_config_def) (simp add: toy_relay_eq stored_count_def)

lemma bundles_for_addresses_snoc:
  "bundles_for_addresses as \<lparr>by_hash = m @ [(h, b)], total_bytes = t\<rparr>
    = bundles_for_addresses as \<lparr>by_hash = m, total_bytes = t\<rparr>
      @ (if sb_address b \<in> set as then [sb_bytes b] else [])"
  by (simp add: bundles_for_addresses_def)

text \<open>
  Admission is decided exactly by the documented checks, in order: an unreadable or
  already expired bundle is refused, one already held is accepted without a second copy,
  one that would exceed a global cap is refused, and any other is stored and can be
  fetched by its address; a refusal never changes the store.
\<close>

theorem admission_policy:
  assumes "relay_reachable L cfg s" "admit L cfg now bs s = (r, s')"
  shows "case admit_precheck L now bs of
      Err e \<Rightarrow> r = Err e \<and> s' = s
    | Ok (expiry, addr) \<Rightarrow> now < expiry \<and>
        (if sha L bs \<in> set (keys (by_hash s)) then r = Ok () \<and> s' = s
         else if stored_count s = max_total_bundles cfg \<or> stored_bytes s + length bs > max_total_bytes cfg
         then r = Err (RelayRefused ''global storage cap reached'') \<and> s' = s
         else r = Ok () \<and> bs \<in> set (bundles_for_addresses [addr] s')
           \<and> stored_count s' = stored_count s + 1)"
proof -
  have "length (by_hash s) \<le> max_total_bundles cfg"
    using relay_reachable_inv [OF assms(1)] by (simp add: relay_inv_def)
  note cap = this
  show ?thesis
  proof (cases "admit_precheck L now bs")
    case (Ok ea)
    obtain expiry addr where ea: "ea = (expiry, addr)" by (cases ea)
    have "now < expiry"
      using Ok by (simp add: ea admit_precheck_Ok)
    then show ?thesis
      using cap assms(2) unfolding admit_def admit_checked_def Ok ea
      by (auto simp: Let_def map_of_eq_None_iff update_fresh bundles_for_addresses_snoc stored_count_def
          stored_bytes_def split: if_splits)
  qed (use assms(2) in \<open>simp add: admit_def admit_checked_def\<close>)
qed

theorem admission_policy_witness:
  "fst (admit toy_relay_lib default_relay_config 1560000 toy_bytes toy_relay)
      = Err (RelayRefused ''bundle already expired on arrival'')
    \<and> snd (admit toy_relay_lib default_relay_config 1560000 toy_bytes toy_relay) = toy_relay"
proof -
  have "admit_precheck toy_relay_lib 1560000 toy_bytes = Err (RelayRefused ''bundle already expired on arrival'')"
    using toy_readable by (simp add: admit_precheck_def readable_def)
  then show ?thesis
    using admission_policy [OF toy_relay_reachable prod.collapse [symmetric], of 1560000 toy_bytes] by simp
qed

text \<open>
  Picking up a dead drop hands out exactly the held bundles of the polled addresses and
  removes exactly those: every other bundle stays, and asking again returns nothing.
\<close>

theorem take_is_exact:
  assumes "relay_reachable L cfg s" "take_for_addresses as s = (taken, s')"
  shows "taken = bundles_for_addresses as s
    \<and> set (by_hash s') = {(h, b) \<in> set (by_hash s). sb_address b \<notin> set as}
    \<and> fst (take_for_addresses as s') = []
    \<and> stored_bytes s' + sum_list (map length taken) = stored_bytes s"
proof -
  have inv: "relay_inv L cfg s" "relay_inv L cfg s'"
    using relay_reachable_inv [OF assms(1)] relay_inv_take [of L cfg s as] assms(2) by simp_all
  then have d: "distinct_keys (by_hash s)" "distinct_keys (by_hash s')"
    by (simp_all add: relay_inv_def)
  have eqs: "taken = map (sb_bytes \<circ> snd) (filter (\<lambda>(h, b). sb_address b \<in> set as) (by_hash s))"
    "by_hash s' = filter (\<lambda>(h, b). sb_address b \<notin> set as) (by_hash s)"
    using take_for_addresses_eq [OF d(1)] assms(2) by (metis fst_conv snd_conv)+
  have "sum_list (map f (filter (\<lambda>(h, b). P b) xs)) + sum_list (map f (filter (\<lambda>(h, b). \<not> P b) xs)) = sum_list (map f xs)"
    for f :: "bytes \<times> stored_bundle \<Rightarrow> nat" and P xs
    by (induction xs) auto
  from this [of "\<lambda>(h, b). length (sb_bytes b)" "\<lambda>b. sb_address b \<in> set as" "by_hash s"]
  have "stored_bytes s' + sum_list (map length taken) = stored_bytes s"
    using inv by (simp add: relay_inv_def stored_bytes_def eqs o_def case_prod_unfold)
  then show ?thesis
    using take_for_addresses_eq(1) [OF d(2)]
    by (auto simp: eqs bundles_for_addresses_def filter_empty_conv)
qed

theorem take_is_exact_witness:
  "fst (take_for_addresses [replicate 32 7] toy_relay) = [toy_bytes]
    \<and> fst (take_for_addresses [replicate 32 7] (snd (take_for_addresses [replicate 32 7] toy_relay))) = []"
  using take_is_exact [OF toy_relay_reachable prod.collapse [symmetric], of "[replicate 32 7]"]
  by (simp add: bundles_for_addresses_def) (simp add: toy_relay_eq)

text \<open>
  The sweep purges exactly the bundles whose declared expiry has been reached, so no
  bundle can be fetched from a relay that swept at or after its expiry.
\<close>

theorem sweep_is_exact:
  assumes "relay_reachable L cfg s"
  shows "set (by_hash (sweep_expired now s)) = {(h, b) \<in> set (by_hash s). now < sb_expiry_ms b}
    \<and> (\<forall>bs \<in> set (bundles_for_addresses as (sweep_expired now s)).
        \<exists>expiry. expiry_ms (codec L) bs = Ok expiry \<and> now < expiry)"
proof -
  have inv: "relay_inv L cfg s"
    using relay_reachable_inv [OF assms] .
  then have eq: "set (by_hash (sweep_expired now s)) = {(h, b) \<in> set (by_hash s). now < sb_expiry_ms b}"
    by (auto simp: sweep_expired_eq relay_inv_def)
  moreover have "\<exists>expiry. expiry_ms (codec L) bs = Ok expiry \<and> now < expiry"
    if bs: "bs \<in> set (bundles_for_addresses as (sweep_expired now s))" for bs
  proof -
    obtain x where x: "x \<in> set (by_hash (sweep_expired now s))" "bs = sb_bytes (snd x)"
      using bs by (auto simp: bundles_for_addresses_def)
    then obtain h b where "(h, b) \<in> set (by_hash s)" "now < sb_expiry_ms b" "bs = sb_bytes b"
      unfolding eq by auto
    then show ?thesis
      using inv unfolding relay_inv_def readable_def by blast
  qed
  ultimately show ?thesis by blast
qed

theorem sweep_is_exact_witness:
  "by_hash (sweep_expired 1560000 toy_relay) = []"
proof -
  have "set (by_hash (sweep_expired 1560000 toy_relay))
      = {(h, b) \<in> set (by_hash toy_relay). 1560000 < sb_expiry_ms b}"
    using sweep_is_exact [OF toy_relay_reachable, of 1560000 "[]"] by blast
  also have "\<dots> = {}"
    by (auto simp: toy_relay_eq)
  finally show ?thesis by simp
qed

end
