(* ===== verification/Relay_Sync.thy ===== *)
theory Relay_Sync
  imports Relay
begin

text \<open>
  The epidemic sync session of \<open>mesh/src/relay.rs\<close> as a protocol: one relay against an
  arbitrary peer (how much a session can store), two honest relays over reliable ordered
  channels (no deadlock, no failure, termination), and what both hold afterwards.
\<close>

section \<open>One session against any peer\<close>

text \<open>The messages a peer chooses to send, received one after the other.\<close>

fun sync_feed ::
  "relay_lib \<Rightarrow> relay_config \<Rightarrow> sync_phase \<Rightarrow> relay_store \<Rightarrow> (u64 \<times> sync_message) list \<Rightarrow> sync_phase \<times> relay_store" where
  "sync_feed L cfg p s [] = (p, s)"
| "sync_feed L cfg p s ((now, m) # ms) =
    (let (p', _, s') = sync_receive L cfg now p m s in sync_feed L cfg p' s' ms)"

fun may_store :: "relay_config \<Rightarrow> sync_phase \<Rightarrow> nat" where
  "may_store cfg (AwaitHave _) = max_bundles_per_session cfg"
| "may_store cfg AwaitWant = max_bundles_per_session cfg"
| "may_store cfg (Receiving _ k) = k"
| "may_store cfg (Finished _) = 0"
| "may_store cfg (Failed _) = 0"

lemma receive_may_store:
  assumes "sync_receive L cfg now p m s = (p', out, s')"
  shows "length (by_hash s') + may_store cfg p' \<le> length (by_hash s) + may_store cfg p"
  using assms
proof (induction L cfg now p m s rule: sync_receive.induct)
  case (3 L cfg now n k bs s)
  obtain r t where "admit_checked L cfg now bs (Some k) s = (r, t)"
    by (metis prod.exhaust)
  note r = this
  then show ?case
    using 3 by (cases rule: admit_checked_cases) (auto simp: r)
qed auto

lemma feed_may_store:
  "sync_feed L cfg p s ms = (p', s') \<Longrightarrow>
    length (by_hash s') + may_store cfg p' \<le> length (by_hash s) + may_store cfg p"
proof (induction ms arbitrary: p s)
  case (Cons m ms)
  obtain now m' where m: "m = (now, m')" by (cases m)
  obtain p1 out s1 where r: "sync_receive L cfg now p m' s = (p1, out, s1)"
    by (metis prod.exhaust)
  then show ?case
    using Cons receive_may_store [OF r] by (fastforce simp: m)
qed simp

section \<open>Two honest relays\<close>

text \<open>
  Both ends of a link run the same code over reliable, ordered, buffered channels.  An end
  is named by a truth value; \<open>None\<close> is an end that has not started yet.  Between two steps
  of a session the store may be changed by anything else its owner does (\<open>other_step\<close>).
\<close>

record sync_pair =
  phases :: "bool \<Rightarrow> sync_phase option"
  stores :: "bool \<Rightarrow> relay_store"
  inbox :: "bool \<Rightarrow> sync_message list"

definition sync_init :: "(bool \<Rightarrow> relay_store) \<Rightarrow> sync_pair" where
  "sync_init st = \<lparr>phases = (\<lambda>_. None), stores = st, inbox = (\<lambda>_. [])\<rparr>"

inductive pair_step :: "relay_lib \<Rightarrow> (bool \<Rightarrow> relay_config) \<Rightarrow> sync_pair \<Rightarrow> sync_pair \<Rightarrow> bool"
  for L cfg
where
  start_step: "phases w i = None \<Longrightarrow> sync_start now (stores w i) = (p, out, s) \<Longrightarrow>
    pair_step L cfg w \<lparr>phases = (phases w)(i := Some p), stores = (stores w)(i := s),
      inbox = (inbox w)(\<not> i := inbox w (\<not> i) @ out)\<rparr>"
| receive_step: "phases w i = Some q \<Longrightarrow> \<nexists>n. q = Finished n \<Longrightarrow> \<nexists>e. q = Failed e \<Longrightarrow>
    inbox w i = m # ms \<Longrightarrow> sync_receive L (cfg i) now q m (stores w i) = (p, out, s) \<Longrightarrow>
    pair_step L cfg w \<lparr>phases = (phases w)(i := Some p), stores = (stores w)(i := s),
      inbox = (inbox w)(i := ms, \<not> i := inbox w (\<not> i) @ out)\<rparr>"

inductive pair_run :: "relay_lib \<Rightarrow> (bool \<Rightarrow> relay_config) \<Rightarrow> nat \<Rightarrow> sync_pair \<Rightarrow> sync_pair \<Rightarrow> bool"
  for L cfg
where
  pair_nil: "pair_run L cfg 0 w w"
| pair_snoc: "pair_run L cfg n w w' \<Longrightarrow> pair_step L cfg w' w'' \<Longrightarrow> pair_run L cfg (Suc n) w w''"
| pair_other: "pair_run L cfg n w w' \<Longrightarrow> relay_op L (cfg i) (stores w' i) s \<Longrightarrow>
    pair_run L cfg n w (w'\<lparr>stores := (stores w')(i := s)\<rparr>)"

text \<open>
  What is still in the channel towards an end, given how far the other end has come: the
  messages sent so far are a \<open>Have\<close>, a \<open>Want\<close>, then bundles and \<open>Done\<close>, less those received.
\<close>

definition is_batch :: "nat \<Rightarrow> sync_message list \<Rightarrow> bool" where
  "is_batch c ms \<longleftrightarrow> (\<exists>bs. ms = map BundleMsg bs @ [Done] \<and> length bs \<le> c)"

fun chan_ok :: "nat \<Rightarrow> sync_phase option \<Rightarrow> sync_phase option \<Rightarrow> sync_message list \<Rightarrow> bool" where
  "chan_ok c None mine ms \<longleftrightarrow> ms = [] \<and> (mine = None \<or> (\<exists>h. mine = Some (AwaitHave h)))"
| "chan_ok c (Some (AwaitHave _)) mine ms \<longleftrightarrow>
    (case mine of
       None \<Rightarrow> (\<exists>h. ms = [Have h])
     | Some (AwaitHave _) \<Rightarrow> (\<exists>h. ms = [Have h])
     | Some AwaitWant \<Rightarrow> ms = []
     | _ \<Rightarrow> False)"
| "chan_ok c (Some AwaitWant) mine ms \<longleftrightarrow>
    (case mine of
       None \<Rightarrow> False
     | Some (AwaitHave _) \<Rightarrow> (\<exists>h w. ms = [Have h, Want w])
     | Some AwaitWant \<Rightarrow> (\<exists>w. ms = [Want w])
     | Some (Receiving _ _) \<Rightarrow> ms = []
     | _ \<Rightarrow> False)"
| "chan_ok c (Some (Receiving _ _)) mine ms \<longleftrightarrow>
    (case mine of
       Some AwaitWant \<Rightarrow> (\<exists>w b. ms = Want w # b \<and> is_batch c b)
     | Some (Receiving _ _) \<Rightarrow> is_batch c ms
     | Some (Finished _) \<Rightarrow> ms = []
     | _ \<Rightarrow> False)"
| "chan_ok c (Some (Finished _)) mine ms \<longleftrightarrow>
    (case mine of
       Some (Receiving _ _) \<Rightarrow> is_batch c ms
     | Some (Finished _) \<Rightarrow> ms = []
     | _ \<Rightarrow> False)"
| "chan_ok c (Some (Failed _)) mine ms \<longleftrightarrow> False"

definition pair_inv :: "(bool \<Rightarrow> relay_config) \<Rightarrow> sync_pair \<Rightarrow> bool" where
  "pair_inv cfg w \<longleftrightarrow> (\<forall>i. chan_ok (max_bundles_per_session (cfg (\<not> i)))
      (phases w (\<not> i)) (phases w i) (inbox w i))"

lemma pair_inv_init: "pair_inv cfg (sync_init st)"
  by (simp add: pair_inv_def sync_init_def)

lemma pair_inv_other: "pair_inv cfg w \<Longrightarrow> pair_inv cfg (w\<lparr>stores := st\<rparr>)"
  by (simp add: pair_inv_def)

lemma length_bundles_to_send: "length (bundles_to_send cfg want s) \<le> max_bundles_per_session cfg"
proof -
  have "length (List.map_filter f xs) \<le> length xs" for f :: "bytes \<Rightarrow> bytes option" and xs
    by (induction xs) (auto simp: map_filter_simps split: option.split)
  then have "length (bundles_to_send cfg want s) \<le> length (take (max_bundles_per_session cfg) want)"
    unfolding bundles_to_send_def .
  then show ?thesis by simp
qed

lemma is_batch_sent:
  "is_batch (max_bundles_per_session cfg) (map BundleMsg (bundles_to_send cfg want s) @ [Done])"
  using length_bundles_to_send by (auto simp: is_batch_def)

lemma is_batch_Cons:
  "is_batch c (m # ms) \<longleftrightarrow> m = Done \<and> ms = [] \<or> (\<exists>b. m = BundleMsg b \<and> 0 < c \<and> is_batch (c - 1) ms)"
proof
  assume "is_batch c (m # ms)"
  then obtain bs where bs: "m # ms = map BundleMsg bs @ [Done]" "length bs \<le> c"
    by (auto simp: is_batch_def)
  then show "m = Done \<and> ms = [] \<or> (\<exists>b. m = BundleMsg b \<and> 0 < c \<and> is_batch (c - 1) ms)"
    by (cases bs) (auto simp: is_batch_def)
next
  assume "m = Done \<and> ms = [] \<or> (\<exists>b. m = BundleMsg b \<and> 0 < c \<and> is_batch (c - 1) ms)"
  then consider "m = Done" "ms = []"
    | b bs where "m = BundleMsg b" "0 < c" "ms = map BundleMsg bs @ [Done]" "length bs \<le> c - 1"
    by (auto simp: is_batch_def)
  then show "is_batch c (m # ms)"
  proof cases
    case 1
    then show ?thesis by (simp add: is_batch_def exI [of _ "[]"])
  next
    case (2 b bs)
    then have "m # ms = map BundleMsg (b # bs) @ [Done] \<and> length (b # bs) \<le> c" by simp
    then show ?thesis unfolding is_batch_def by blast
  qed
qed

lemma is_batch_mono: "is_batch c ms \<Longrightarrow> c \<le> d \<Longrightarrow> is_batch d ms"
  by (auto simp: is_batch_def)

lemma is_batch_not_Nil [simp]: "\<not> is_batch c []"
  by (simp add: is_batch_def)

text \<open>What receiving the head of the channel does to both channels of an end.\<close>

lemma chan_receive:
  assumes "chan_ok c peer (Some q) (m # ms)" "chan_ok d (Some q) peer other"
    and "sync_receive L cfg now q m s = (p, out, s')"
    and "\<nexists>n. q = Finished n" "\<nexists>e. q = Failed e" "d = max_bundles_per_session cfg"
  shows "chan_ok c peer (Some p) ms \<and> chan_ok d (Some p) peer (other @ out)"
proof (cases q)
  case (AwaitHave h)
  then show ?thesis
    using assms by (cases peer; cases "the peer") auto
next
  case AwaitWant
  then show ?thesis
    using assms is_batch_sent by (cases peer; cases "the peer") auto
next
  case (Receiving n k)
  then show ?thesis
    using assms
    by (cases peer; cases "the peer"; cases m)
      (auto simp: is_batch_Cons Let_def split: prod.splits if_splits elim!: is_batch_mono)
qed (use assms in auto)

lemma pair_inv_iff:
  "pair_inv cfg w \<longleftrightarrow>
    chan_ok (max_bundles_per_session (cfg (\<not> i))) (phases w (\<not> i)) (phases w i) (inbox w i)
    \<and> chan_ok (max_bundles_per_session (cfg i)) (phases w i) (phases w (\<not> i)) (inbox w (\<not> i))"
  unfolding pair_inv_def by (cases i) (auto simp: all_bool_eq)

lemma pair_inv_step: "pair_step L cfg w w' \<Longrightarrow> pair_inv cfg w \<Longrightarrow> pair_inv cfg w'"
proof (induction rule: pair_step.induct)
  case (start_step w i now p out s)
  obtain h where h: "p = AwaitHave h" "out = [Have h]"
    using start_step(2) by (auto simp: sync_start_def Let_def)
  have "chan_ok (max_bundles_per_session (cfg (\<not> i))) (phases w (\<not> i)) (Some p) (inbox w i)
    \<and> chan_ok (max_bundles_per_session (cfg i)) (Some p) (phases w (\<not> i)) (inbox w (\<not> i) @ out)"
    using start_step.prems start_step(1) pair_inv_iff [of cfg w i]
    by (cases "phases w (\<not> i)"; cases "the (phases w (\<not> i))") (auto simp: h)
  then show ?case
    by (subst pair_inv_iff [of _ _ i]) simp
next
  case (receive_step w i q m ms now p out s)
  have "chan_ok (max_bundles_per_session (cfg (\<not> i))) (phases w (\<not> i)) (Some q) (m # ms)"
    "chan_ok (max_bundles_per_session (cfg i)) (Some q) (phases w (\<not> i)) (inbox w (\<not> i))"
    using receive_step.prems receive_step(1,4) pair_inv_iff [of cfg w i] by simp_all
  from chan_receive [OF this receive_step(5,2,3) refl]
  show ?case
    by (subst pair_inv_iff [of _ _ i]) simp
qed

lemma pair_inv_run: "pair_run L cfg n w w' \<Longrightarrow> pair_inv cfg w \<Longrightarrow> pair_inv cfg w'"
  by (induction rule: pair_run.induct) (auto dest: pair_inv_step pair_inv_other)

text \<open>Progress: an end that is not done can step, or the other end can.\<close>

definition finished :: "sync_pair \<Rightarrow> bool \<Rightarrow> bool" where
  "finished w i \<longleftrightarrow> (\<exists>n. phases w i = Some (Finished n))"

lemma chan_waiting:
  assumes "chan_ok c peer (Some q) []" "chan_ok d (Some q) peer other" "\<nexists>n. q = Finished n"
  shows "peer = None \<or> (\<exists>p. peer = Some p \<and> (\<nexists>n. p = Finished n) \<and> other \<noteq> [])"
  using assms by (cases peer; cases "the peer"; cases q) auto

lemma no_failure: "pair_inv cfg w \<Longrightarrow> phases w i \<noteq> Some (Failed e)"
  using pair_inv_iff [of cfg w i] by (cases "phases w (\<not> i)") auto

lemma pair_progress:
  assumes "pair_inv cfg w" "\<not> finished w i"
  shows "\<exists>w'. pair_step L cfg w w'"
proof -
  have recv: "\<exists>w'. pair_step L cfg w w'"
    if at_j: "phases w j = Some q" "\<nexists>n. q = Finished n" "inbox w j \<noteq> []" for j q
  proof -
    obtain m ms where "inbox w j = m # ms"
      using at_j(3) by (cases "inbox w j") auto
    moreover obtain p out s where "sync_receive L (cfg j) 0 q m (stores w j) = (p, out, s)"
      by (metis prod.exhaust)
    moreover have "\<nexists>e. q = Failed e"
      using no_failure [OF assms(1)] at_j(1) by blast
    ultimately show ?thesis
      using at_j receive_step by blast
  qed
  have start: "\<exists>w'. pair_step L cfg w w'" if "phases w j = None" for j
    using that by (metis start_step prod.exhaust)
  show ?thesis
  proof (cases "phases w i")
    case (Some q)
    then have q: "\<nexists>n. q = Finished n"
      using assms(2) by (simp add: finished_def)
    show ?thesis
    proof (cases "inbox w i = []")
      case True
      then have "phases w (\<not> i) = None
          \<or> (\<exists>p. phases w (\<not> i) = Some p \<and> (\<nexists>n. p = Finished n) \<and> inbox w (\<not> i) \<noteq> [])"
        using assms(1) Some q pair_inv_iff [of cfg w i] chan_waiting by metis
      then show ?thesis using start recv by blast
    qed (use recv Some q in blast)
  qed (rule start)
qed

text \<open>Termination: every step uses up some of a bounded amount of work.\<close>

fun phase_work :: "nat \<Rightarrow> sync_phase option \<Rightarrow> nat" where
  "phase_work c None = c + 5"
| "phase_work c (Some (AwaitHave _)) = c + 3"
| "phase_work c (Some AwaitWant) = c + 2"
| "phase_work c (Some (Receiving _ _)) = 1"
| "phase_work c (Some (Finished _)) = 0"
| "phase_work c (Some (Failed _)) = 0"

definition work :: "(bool \<Rightarrow> relay_config) \<Rightarrow> sync_pair \<Rightarrow> nat" where
  "work cfg w = (\<Sum>i \<in> UNIV. phase_work (max_bundles_per_session (cfg i)) (phases w i) + length (inbox w i))"

lemma work_at: "work cfg w =
  phase_work (max_bundles_per_session (cfg i)) (phases w i) + length (inbox w i)
  + (phase_work (max_bundles_per_session (cfg (\<not> i))) (phases w (\<not> i)) + length (inbox w (\<not> i)))"
  unfolding work_def UNIV_bool by (cases i) simp_all

lemma receive_work:
  assumes "sync_receive L cfg now q m s = (p, out, s')" "\<nexists>n. q = Finished n" "\<nexists>e. q = Failed e"
  shows "phase_work (max_bundles_per_session cfg) (Some p) + length out
    \<le> phase_work (max_bundles_per_session cfg) (Some q)"
  using assms length_bundles_to_send
  by (induction L cfg now q m s rule: sync_receive.induct)
    (auto simp: Let_def split: prod.splits if_splits)

lemma step_work: "pair_step L cfg w w' \<Longrightarrow> work cfg w' < work cfg w"
proof (induction rule: pair_step.induct)
  case (start_step w i now p out s)
  then show ?case
    using work_at [of cfg w i]
    by (subst work_at [of _ _ i]) (auto simp: sync_start_def Let_def)
next
  case (receive_step w i q m ms now p out s)
  then show ?case
    using work_at [of cfg w i] receive_work [OF receive_step(5,2,3)]
    by (subst work_at [of _ _ i]) auto
qed

lemma run_work: "pair_run L cfg n w w' \<Longrightarrow> n + work cfg w' \<le> work cfg w"
  by (induction rule: pair_run.induct) (auto dest!: step_work simp: work_def)

section \<open>Convergence\<close>

definition held :: "relay_store \<Rightarrow> bytes set" where
  "held s = (sb_bytes \<circ> snd) ` set (by_hash s)"

lemma map_of_held:
  "relay_inv L cfg s \<Longrightarrow> map_of (by_hash s) (sha L bs) \<noteq> None \<longleftrightarrow> sha L bs \<in> sha L ` held s"
proof -
  assume "relay_inv L cfg s"
  then have "\<forall>(h, b) \<in> set (by_hash s). h = sha L (sb_bytes b)"
    by (auto simp: relay_inv_def)
  then have "sha L ` held s = set (keys (by_hash s))"
    unfolding held_def image_comp set_map by (intro image_cong) auto
  then show ?thesis
    by (simp add: map_of_eq_None_iff)
qed

lemma admit_accepts:
  assumes "relay_inv L cfg s" "readable L bs e a" "now < e" "k \<noteq> 0"
    and "length (by_hash s) < max_total_bundles cfg" "total_bytes s + length bs \<le> max_total_bytes cfg"
    and "inj_on (sha L) (insert bs (held s))"
  shows "\<exists>s'. admit_checked L cfg now bs (Some k) s = (Ok (), s') \<and> relay_inv L cfg s'
    \<and> held s' = insert bs (held s) \<and> length (by_hash s') \<le> Suc (length (by_hash s))
    \<and> total_bytes s' \<le> total_bytes s + length bs"
proof -
  obtain r s' where rs: "admit_checked L cfg now bs (Some k) s = (r, s')"
    by (metis prod.exhaust)
  have pre: "admit_precheck L now bs = Ok (e, a)"
    using assms(2,3) by (simp add: admit_precheck_Ok)
  have "r = Ok () \<and> held s' = insert bs (held s) \<and> length (by_hash s') \<le> Suc (length (by_hash s))
    \<and> total_bytes s' \<le> total_bytes s + length bs"
    using rs
  proof (cases rule: admit_checked_cases)
    case (refused x)
    then show ?thesis
      using rs assms(4-6) by (auto simp: admit_checked_def pre Let_def split: if_splits)
  next
    case held
    then have "bs \<in> held s"
      using map_of_held [OF assms(1), of bs] assms(7) by (auto simp: inj_on_def)
    then show ?thesis
      using held by auto
  qed (auto simp: held_def)
  then show ?thesis
    using rs relay_inv_admit [OF assms(1) rs] by blast
qed

lemma feed_batch:
  assumes "relay_inv L cfg s" "\<forall>b \<in> set bs. \<exists>e a. readable L b e a \<and> now < e" "length bs \<le> k"
    and "length (by_hash s) + length bs \<le> max_total_bundles cfg"
    and "total_bytes s + sum_list (map length bs) \<le> max_total_bytes cfg"
    and "inj_on (sha L) (set bs \<union> held s)"
  shows "\<exists>s'. sync_feed L cfg (Receiving n k) s (map (Pair now) (map BundleMsg bs @ [Done]))
      = (Finished (n + length bs), s') \<and> held s' = set bs \<union> held s"
  using assms
proof (induction bs arbitrary: s n k)
  case (Cons b bs)
  obtain e a where ea: "readable L b e a" "now < e"
    using Cons.prems(2) by auto
  have "inj_on (sha L) (insert b (held s))"
    using Cons.prems(6) by (rule inj_on_subset) auto
  then obtain s1 where s1: "admit_checked L cfg now b (Some k) s = (Ok (), s1)" "relay_inv L cfg s1"
    "held s1 = insert b (held s)" "length (by_hash s1) \<le> Suc (length (by_hash s))"
    "total_bytes s1 \<le> total_bytes s + length b"
    using admit_accepts [OF Cons.prems(1) ea, of k] Cons.prems(3-5) by auto
  have "\<exists>s'. sync_feed L cfg (Receiving (Suc n) (k - 1)) s1 (map (Pair now) (map BundleMsg bs @ [Done]))
      = (Finished (Suc n + length bs), s') \<and> held s' = set bs \<union> held s1"
    using Cons.prems s1 by (intro Cons.IH) auto
  then show ?case
    by (auto simp: s1)
qed auto

text \<open>
  The session of two relays over one link at one clock reading, in the order in which
  each end takes its turn as soon as it can.
\<close>

definition sync_both ::
  "relay_lib \<Rightarrow> relay_config \<Rightarrow> relay_config \<Rightarrow> u64 \<Rightarrow> relay_store \<Rightarrow> relay_store
    \<Rightarrow> (sync_phase \<times> relay_store) \<times> (sync_phase \<times> relay_store)" where
  "sync_both L cfg_a cfg_b now a b =
    (let (pa, oa, a) = sync_start now a;
         (pb, ob, b) = sync_start now b;
         (pa, oa', a) = sync_receive L cfg_a now pa (hd ob) a;
         (pb, ob', b) = sync_receive L cfg_b now pb (hd oa) b;
         (pa, oa'', a) = sync_receive L cfg_a now pa (hd ob') a;
         (pb, ob'', b) = sync_receive L cfg_b now pb (hd oa') b
     in (sync_feed L cfg_a pa a (map (Pair now) ob''), sync_feed L cfg_b pb b (map (Pair now) oa'')))"

text \<open>What one relay sends another whose hashes are known to it.\<close>

definition missing :: "relay_store \<Rightarrow> relay_store \<Rightarrow> bytes list" where
  "missing mine theirs = map (sb_bytes \<circ> snd) (filter (\<lambda>(h, b). h \<notin> set (keys (by_hash theirs))) (by_hash mine))"

lemma bundles_to_send_missing:
  assumes "distinct_keys (by_hash mine)" "length (by_hash mine) \<le> c" "length (by_hash mine) \<le> max_bundles_per_session cfg"
  shows "bundles_to_send cfg (take c (filter (\<lambda>h. h \<notin> set (keys (by_hash theirs))) (keys (by_hash mine)))) mine
    = missing mine theirs"
proof -
  define P where "P = (\<lambda>(h :: bytes, b :: stored_bundle). h \<notin> set (keys (by_hash theirs)))"
  have wanted: "filter (\<lambda>h. h \<notin> set (keys (by_hash theirs))) (keys (by_hash mine))
      = keys (filter P (by_hash mine))"
    by (simp add: filter_map P_def o_def case_prod_unfold)
  have "List.map_filter (\<lambda>h. map_option sb_bytes (map_of m h)) (keys xs) = map (sb_bytes \<circ> snd) xs"
    if "distinct_keys m" "set xs \<subseteq> set m" for m xs :: "(bytes \<times> stored_bundle) list"
    using that(2) by (induction xs) (auto simp: map_filter_simps that(1))
  then have "List.map_filter (\<lambda>h. map_option sb_bytes (map_of (by_hash mine) h)) (keys (filter P (by_hash mine)))
      = missing mine theirs"
    using assms(1) by (simp add: missing_def P_def)
  moreover have "length (filter P (by_hash mine)) \<le> length (by_hash mine)"
    by simp
  then have "take (max_bundles_per_session cfg) (take c (keys (filter P (by_hash mine))))
      = keys (filter P (by_hash mine))"
    using assms(2,3) by (simp del: length_filter_le)
  ultimately show ?thesis
    by (simp only: bundles_to_send_def wanted)
qed

lemma missing_sizes:
  "length (missing mine theirs) \<le> length (by_hash mine)"
  "relay_inv L cfg mine \<Longrightarrow> sum_list (map length (missing mine theirs)) \<le> total_bytes mine"
proof -
  have "sum_list (map f (filter P xs)) \<le> sum_list (map f xs)" for f :: "bytes \<times> stored_bundle \<Rightarrow> nat" and P xs
    by (induction xs) auto
  then show "relay_inv L cfg mine \<Longrightarrow> sum_list (map length (missing mine theirs)) \<le> total_bytes mine"
    by (simp add: missing_def relay_inv_def o_def case_prod_unfold)
qed (simp add: missing_def)

lemma missing_readable:
  assumes "relay_inv L cfg s" "mine = sweep_expired now s" "b \<in> set (missing mine theirs)"
  shows "\<exists>e a. readable L b e a \<and> now < e"
proof -
  obtain h sb where "(h, sb) \<in> set (by_hash s)" "now < sb_expiry_ms sb" "b = sb_bytes sb"
    using assms by (auto simp: missing_def sweep_expired_eq relay_inv_def)
  then show ?thesis
    using assms(1) unfolding relay_inv_def by blast
qed

lemma missing_union:
  assumes "relay_inv L cfg mine" "relay_inv L cfg' theirs" "inj_on (sha L) (held mine \<union> held theirs)"
  shows "set (missing mine theirs) \<union> held theirs = held mine \<union> held theirs"
proof -
  have "x \<in> held theirs" if x: "x \<in> held mine" "x \<notin> set (missing mine theirs)" for x
  proof -
    obtain h b where b: "(h, b) \<in> set (by_hash mine)" "x = sb_bytes b"
      using x(1) by (auto simp: held_def)
    then have "h \<in> set (keys (by_hash theirs))"
      using x(2) by (force simp: missing_def)
    then obtain b' where b': "(h, b') \<in> set (by_hash theirs)" by auto
    have "h = sha L (sb_bytes b)" "h = sha L (sb_bytes b')"
      using assms(1,2) b(1) b' unfolding relay_inv_def by blast+
    moreover have "sb_bytes b' \<in> held theirs"
      using b' by (force simp: held_def)
    ultimately have "sha L (sb_bytes b') = sha L x" "sb_bytes b' \<in> held theirs"
      using b(2) by simp_all
    then show ?thesis
      using assms(3) x(1) by (metis UnI1 UnI2 inj_onD)
  qed
  moreover have "set (missing mine theirs) \<subseteq> held mine"
    by (auto simp: missing_def held_def)
  ultimately show ?thesis by blast
qed

text \<open>What a relay holds and what it is missing of another are, together, what either holds, each once.\<close>

lemma distinct_held_bytes:
  assumes "relay_inv L cfg s"
  shows "distinct (map (sb_bytes \<circ> snd) (by_hash s))"
proof -
  have "map fst (by_hash s) = map (sha L) (map (sb_bytes \<circ> snd) (by_hash s))"
    using assms by (auto simp: relay_inv_def)
  then have "distinct (map (sha L) (map (sb_bytes \<circ> snd) (by_hash s)))"
    using assms by (simp only: relay_inv_def)
  then show ?thesis
    using distinct_map by blast
qed

lemma held_sizes:
  assumes "relay_inv L cfg s"
  shows "stored_count s = card (held s)" "stored_bytes s = (\<Sum>x \<in> held s. length x)"
proof -
  let ?xs = "map (sb_bytes \<circ> snd) (by_hash s)"
  note d = distinct_held_bytes [OF assms]
  show "stored_count s = card (held s)"
    using distinct_card [OF d] by (simp add: stored_count_def held_def image_comp)
  have "stored_bytes s = sum_list (map length ?xs)"
    using assms by (simp add: relay_inv_def stored_bytes_def case_prod_unfold o_def)
  also have "\<dots> = (\<Sum>x \<in> held s. length x)"
    using sum_list_distinct_conv_sum_set [OF d] by (simp add: held_def image_comp)
  finally show "stored_bytes s = (\<Sum>x \<in> held s. length x)" .
qed

lemma missing_fits:
  assumes "relay_inv L cfg mine" "relay_inv L cfg' theirs" "inj_on (sha L) (held mine \<union> held theirs)"
  shows "stored_count theirs + length (missing mine theirs) = card (held mine \<union> held theirs)"
    and "stored_bytes theirs + sum_list (map length (missing mine theirs)) = (\<Sum>x \<in> held mine \<union> held theirs. length x)"
proof -
  let ?new = "missing mine theirs"
  have "distinct (map (sb_bytes \<circ> snd) (filter (\<lambda>(h, b). h \<notin> set (keys (by_hash theirs))) (by_hash mine)))"
    by (rule distinct_map_filter [OF distinct_held_bytes [OF assms(1)]])
  then have d: "distinct ?new"
    by (simp add: missing_def)
  have "x \<notin> held theirs" if x: "x \<in> set ?new" for x
  proof
    assume "x \<in> held theirs"
    then obtain h' b' where b': "(h', b') \<in> set (by_hash theirs)" "x = sb_bytes b'"
      by (auto simp: held_def)
    obtain h b where b: "(h, b) \<in> set (by_hash mine)" "x = sb_bytes b" "h \<notin> set (keys (by_hash theirs))"
      using x by (auto simp: missing_def)
    have "h = sha L (sb_bytes b)" "h' = sha L (sb_bytes b')"
      using assms(1,2) b(1) b'(1) unfolding relay_inv_def by blast+
    then have "h' = h"
      using b(2) b'(2) by simp
    then show False
      using b(3) b'(1) by force
  qed
  then have disjoint: "held theirs \<inter> set ?new = {}"
    by blast
  have union: "held theirs \<union> set ?new = held mine \<union> held theirs"
    using missing_union [OF assms] by blast
  have fin: "finite (held theirs)"
    by (simp add: held_def)
  show "stored_count theirs + length ?new = card (held mine \<union> held theirs)"
    using card_Un_disjoint [OF fin finite_set disjoint] union held_sizes(1) [OF assms(2)] distinct_card [OF d] by simp
  show "stored_bytes theirs + sum_list (map length ?new) = (\<Sum>x \<in> held mine \<union> held theirs. length x)"
    using sum.union_disjoint [OF fin finite_set disjoint, of length] union held_sizes(2) [OF assms(2)]
      sum_list_distinct_conv_sum_set [OF d, of length] by simp
qed

lemma feed_relay_inv:
  "sync_feed L cfg p s ms = (p', s') \<Longrightarrow> relay_inv L cfg s \<Longrightarrow> relay_inv L cfg s'"
  by (induction ms arbitrary: p s) (force split: prod.splits dest: relay_inv_sync_receive)+

lemma sync_both_union:
  fixes L :: relay_lib and cfg_a cfg_b :: relay_config and a b :: relay_store and now :: u64
  assumes "relay_inv L cfg_a a" "relay_inv L cfg_b b"
  defines "a0 \<equiv> sweep_expired now a" and "b0 \<equiv> sweep_expired now b"
  assumes "inj_on (sha L) (held a0 \<union> held b0)"
    and "\<forall>cfg \<in> {cfg_a, cfg_b}. stored_count a0 \<le> max_bundles_per_session cfg
      \<and> stored_count b0 \<le> max_bundles_per_session cfg
      \<and> card (held a0 \<union> held b0) \<le> max_total_bundles cfg
      \<and> (\<Sum>x \<in> held a0 \<union> held b0. length x) \<le> max_total_bytes cfg"
  shows "\<exists>na nb a' b'. sync_both L cfg_a cfg_b now a b = ((Finished na, a'), (Finished nb, b'))
    \<and> held a' = held a0 \<union> held b0 \<and> held b' = held a0 \<union> held b0
    \<and> relay_inv L cfg_a a' \<and> relay_inv L cfg_b b'"
proof -
  note inv = assms(1,2)
  then have inv0: "relay_inv L cfg_a a0" "relay_inv L cfg_b b0"
    by (simp_all add: a0_def b0_def relay_inv_sweep)
  then have d: "distinct_keys (by_hash a0)" "distinct_keys (by_hash b0)"
    by (simp_all add: relay_inv_def)
  have fits: "stored_count a0 + length (missing b0 a0) = card (held a0 \<union> held b0)"
    "stored_bytes a0 + sum_list (map length (missing b0 a0)) = (\<Sum>x \<in> held a0 \<union> held b0. length x)"
    "stored_count b0 + length (missing a0 b0) = card (held a0 \<union> held b0)"
    "stored_bytes b0 + sum_list (map length (missing a0 b0)) = (\<Sum>x \<in> held a0 \<union> held b0. length x)"
    using missing_fits [OF inv0 assms(5)]
      missing_fits [OF inv0(2,1), unfolded Un_commute [of "held b0" "held a0"], OF assms(5)]
    by - (assumption+)
  note caps = assms(6) [unfolded stored_count_def] fits [unfolded stored_count_def stored_bytes_def]
  have send: "bundles_to_send cfg_a (take (max_bundles_per_session cfg_b)
        (filter (\<lambda>h. h \<notin> set (keys (by_hash b0))) (keys (by_hash a0)))) a0 = missing a0 b0"
    "bundles_to_send cfg_b (take (max_bundles_per_session cfg_a)
        (filter (\<lambda>h. h \<notin> set (keys (by_hash a0))) (keys (by_hash b0)))) b0 = missing b0 a0"
    by (rule bundles_to_send_missing; use caps d in simp)+
  have both: "sync_both L cfg_a cfg_b now a b =
      (sync_feed L cfg_a (Receiving 0 (max_bundles_per_session cfg_a)) a0
         (map (Pair now) (map BundleMsg (missing b0 a0) @ [Done])),
       sync_feed L cfg_b (Receiving 0 (max_bundles_per_session cfg_b)) b0
         (map (Pair now) (map BundleMsg (missing a0 b0) @ [Done])))"
    by (simp add: sync_both_def sync_start_def Let_def a0_def [symmetric] b0_def [symmetric]
        send [unfolded set_map])
  have union: "set (missing a0 b0) \<union> held b0 = held a0 \<union> held b0"
    "set (missing b0 a0) \<union> held a0 = held a0 \<union> held b0"
    using missing_union [OF inv0 assms(5)] missing_union [OF inv0(2,1)] assms(5) by (auto simp: Un_commute)
  have "\<exists>a'. sync_feed L cfg_a (Receiving 0 (max_bundles_per_session cfg_a)) a0
         (map (Pair now) (map BundleMsg (missing b0 a0) @ [Done]))
        = (Finished (0 + length (missing b0 a0)), a') \<and> held a' = set (missing b0 a0) \<union> held a0"
    using caps missing_sizes(1) [of b0 a0]
      missing_readable [OF inv(2) b0_def [THEN meta_eq_to_obj_eq]] assms(5)
    by (intro feed_batch [OF inv0(1)]) (auto simp: union(2))
  moreover have "\<exists>b'. sync_feed L cfg_b (Receiving 0 (max_bundles_per_session cfg_b)) b0
         (map (Pair now) (map BundleMsg (missing a0 b0) @ [Done]))
        = (Finished (0 + length (missing a0 b0)), b') \<and> held b' = set (missing a0 b0) \<union> held b0"
    using caps missing_sizes(1) [of a0 b0]
      missing_readable [OF inv(1) a0_def [THEN meta_eq_to_obj_eq]] assms(5)
    by (intro feed_batch [OF inv0(2)]) (auto simp: union(1))
  ultimately show ?thesis
    unfolding both union using feed_relay_inv inv0 by blast
qed

section \<open>Properties\<close>

text \<open>
  C23: The epidemic session of two honest relays never deadlocks, never reports a protocol
  violation and always ends: whatever the interleaving, and whatever else happens to both
  stores meanwhile, either both ends have finished or one can step, and a session takes at
  most ten steps more than the two session caps together.
\<close>

theorem sync_completes:
  assumes "pair_run L cfg n (sync_init st) w"
  shows "n \<le> max_bundles_per_session (cfg True) + max_bundles_per_session (cfg False) + 10
    \<and> (\<forall>i e. phases w i \<noteq> Some (Failed e))
    \<and> (finished w True \<and> finished w False \<or> (\<exists>w'. pair_step L cfg w w'))"
proof -
  have inv: "pair_inv cfg w"
    using pair_inv_run [OF assms pair_inv_init] .
  have "work cfg (sync_init st) = max_bundles_per_session (cfg True) + max_bundles_per_session (cfg False) + 10"
    by (simp add: work_at [of _ _ True] sync_init_def)
  then show ?thesis
    using run_work [OF assms] no_failure [OF inv] pair_progress [OF inv] by fastforce
qed

theorem sync_completes_witness:
  "\<exists>w'. pair_step toy_relay_lib (\<lambda>_. default_relay_config) (sync_init (\<lambda>_. toy_relay)) w'"
  using sync_completes [OF pair_nil, where L = toy_relay_lib and cfg = "\<lambda>_. default_relay_config"
      and st = "\<lambda>_. toy_relay"]
  by (simp add: finished_def sync_init_def)

text \<open>
  C24: However many messages a hostile peer sends in one session, the relay stores at most
  its per-session cap of new bundles from it.
\<close>

theorem session_cap:
  assumes "sync_start now s = (p, out, s0)" "sync_feed L cfg p s0 ms = (p', s')"
  shows "stored_count s' \<le> stored_count s0 + max_bundles_per_session cfg"
  using feed_may_store [OF assms(2)] assms(1)
  by (auto simp: sync_start_def Let_def stored_count_def)

theorem session_cap_witness:
  "stored_count (snd (sync_feed toy_relay_lib default_relay_config
      (fst (sync_start 0 new_relay_store)) (snd (snd (sync_start 0 new_relay_store)))
      (replicate 1000 (0, BundleMsg toy_bytes))))
    \<le> stored_count (snd (snd (sync_start 0 new_relay_store))) + 20"
  using session_cap [where now = 0 and s = new_relay_store and L = toy_relay_lib
      and cfg = default_relay_config and ms = "replicate 1000 (0, BundleMsg toy_bytes)"]
  by (auto simp: default_relay_config_def sync_start_def Let_def simp del: sync_feed.simps)
    (metis prod.collapse)

text \<open>
  C25: Epidemic convergence.  When the live bundles of two honest relays fit the session caps
  and, together, the storage caps of both, one session leaves both holding exactly the
  union of what was live on either side, and both report success.
\<close>

theorem sync_converges:
  fixes L :: relay_lib and cfg_a cfg_b :: relay_config and a b :: relay_store and now :: u64
  assumes "relay_reachable L cfg_a a" "relay_reachable L cfg_b b"
  defines "a0 \<equiv> sweep_expired now a" and "b0 \<equiv> sweep_expired now b"
  assumes "inj_on (sha L) (held a0 \<union> held b0)"
    and "\<forall>cfg \<in> {cfg_a, cfg_b}. stored_count a0 \<le> max_bundles_per_session cfg
      \<and> stored_count b0 \<le> max_bundles_per_session cfg
      \<and> stored_count a0 + stored_count b0 \<le> max_total_bundles cfg
      \<and> stored_bytes a0 + stored_bytes b0 \<le> max_total_bytes cfg"
  shows "\<exists>na nb a' b'. sync_both L cfg_a cfg_b now a b = ((Finished na, a'), (Finished nb, b'))
    \<and> held a' = held a0 \<union> held b0 \<and> held b' = held a0 \<union> held b0"
proof -
  note inv = assms(1,2) [THEN relay_reachable_inv]
  have inv0: "relay_inv L cfg_a a0" "relay_inv L cfg_b b0"
    using inv by (simp_all add: a0_def b0_def relay_inv_sweep)
  have "card (held a0 \<union> held b0) \<le> stored_count a0 + stored_count b0"
    "(\<Sum>x \<in> held a0 \<union> held b0. length x) \<le> stored_bytes a0 + stored_bytes b0"
    using missing_fits [OF inv0 assms(5)] missing_sizes(1) [of a0 b0] missing_sizes(2) [OF inv0(1), of b0]
    by (simp_all add: stored_count_def stored_bytes_def)
  then have "\<forall>cfg \<in> {cfg_a, cfg_b}. stored_count a0 \<le> max_bundles_per_session cfg
      \<and> stored_count b0 \<le> max_bundles_per_session cfg
      \<and> card (held a0 \<union> held b0) \<le> max_total_bundles cfg
      \<and> (\<Sum>x \<in> held a0 \<union> held b0. length x) \<le> max_total_bytes cfg"
    using assms(6) by (meson le_trans)
  then show ?thesis
    using sync_both_union [OF inv, of now, folded a0_def b0_def, OF assms(5)] by blast
qed

theorem sync_converges_witness:
  "\<exists>na nb a' b'. sync_both toy_relay_lib default_relay_config default_relay_config 1500001
      toy_relay new_relay_store = ((Finished na, a'), (Finished nb, b'))
    \<and> toy_bytes \<in> held b'"
proof -
  have sw: "sweep_expired 1500001 toy_relay = toy_relay"
    "sweep_expired 1500001 new_relay_store = new_relay_store"
    by (simp_all add: sweep_expired_def toy_relay_eq new_relay_store_def)
  have sizes: "stored_count toy_relay = 1" "stored_bytes toy_relay \<le> 100"
    "stored_count new_relay_store = 0" "stored_bytes new_relay_store = 0"
    "toy_bytes \<in> held toy_relay"
    using length_toy_bytes
    by (simp_all add: toy_relay_eq stored_count_def stored_bytes_def held_def new_relay_store_def)
  have "inj_on (sha toy_relay_lib) (held (sweep_expired 1500001 toy_relay)
      \<union> held (sweep_expired 1500001 new_relay_store))"
    by (simp add: toy_relay_lib_def)
  moreover have "\<forall>cfg \<in> {default_relay_config, default_relay_config}.
      stored_count (sweep_expired 1500001 toy_relay) \<le> max_bundles_per_session cfg
      \<and> stored_count (sweep_expired 1500001 new_relay_store) \<le> max_bundles_per_session cfg
      \<and> stored_count (sweep_expired 1500001 toy_relay)
          + stored_count (sweep_expired 1500001 new_relay_store) \<le> max_total_bundles cfg
      \<and> stored_bytes (sweep_expired 1500001 toy_relay)
          + stored_bytes (sweep_expired 1500001 new_relay_store) \<le> max_total_bytes cfg"
    using sizes by (simp add: sw default_relay_config_def)
  ultimately obtain na nb a' b' where "sync_both toy_relay_lib default_relay_config default_relay_config
      1500001 toy_relay new_relay_store = ((Finished na, a'), (Finished nb, b'))"
    "held b' = held (sweep_expired 1500001 toy_relay) \<union> held (sweep_expired 1500001 new_relay_store)"
    using sync_converges [OF toy_relay_reachable reach_new] by meson
  then show ?thesis
    using sizes(5) by (auto simp: sw)
qed

end
