(* ===== verification/Dead_Drop.thy ===== *)
theory Dead_Drop
  imports Prelude "HOL-Library.Multiset"
begin

text \<open>
  Blinded dead-drop addresses (\<open>protocol/src/dead_drop.rs\<close>): the conversation's tag key from
  the two X25519 key pairs, the address of a message index, the forward window a recipient
  polls and the poll set that hides it among decoys.  X25519 and HKDF-SHA256 are the
  fields of \<open>dd_crypto\<close>; random draws and the shuffle are arguments.
\<close>

record dd_crypto =
  dh_public :: "bytes \<Rightarrow> bytes"
  diffie_hellman :: "bytes \<Rightarrow> bytes \<Rightarrow> bytes"
  dd_hkdf :: "bytes \<Rightarrow> bytes \<Rightarrow> bytes"

text \<open>Diffie-Hellman agreement.\<close>

definition dh_law :: "dd_crypto \<Rightarrow> bool" where
  "dh_law c \<longleftrightarrow> (\<forall>a b. diffie_hellman c a (dh_public c b) = diffie_hellman c b (dh_public c a))"

type_synonym tag_key = bytes
type_synonym dd_address = bytes

record dd_key_pair =
  dd_secret :: bytes
  dd_public :: bytes

definition ADDRESS_KDF_CONTEXT :: bytes where
  "ADDRESS_KDF_CONTEXT = utf8 ''PARDA-Phase4-DeadDropAddress-V1''"

definition generate_dd :: "dd_crypto \<Rightarrow> bytes \<Rightarrow> dd_key_pair" where
  "generate_dd c secret = \<lparr>dd_secret = secret, dd_public = dh_public c secret\<rparr>"

definition derive_tag_key :: "dd_crypto \<Rightarrow> dd_key_pair \<Rightarrow> bytes \<Rightarrow> tag_key" where
  "derive_tag_key c kp remote_public = dd_hkdf c (diffie_hellman c (dd_secret kp) remote_public) []"

definition address_for :: "dd_crypto \<Rightarrow> tag_key \<Rightarrow> u64 \<Rightarrow> dd_address" where
  "address_for c tag n = dd_hkdf c tag (ADDRESS_KDF_CONTEXT @ be_bytes 8 n)"

text \<open>The indices of \<open>start..start.saturating_add(window as u64)\<close>.\<close>

definition window_indices :: "u64 \<Rightarrow> nat \<Rightarrow> u64 list" where
  "window_indices start window =
    map (\<lambda>i. start + of_nat i)
      [0..<unat (saturating_add start (of_nat window)) - unat start]"

definition address_window :: "dd_crypto \<Rightarrow> tag_key \<Rightarrow> u64 \<Rightarrow> nat \<Rightarrow> dd_address list" where
  "address_window c tag start window = map (address_for c tag) (window_indices start window)"

definition build_poll_set ::
  "dd_crypto \<Rightarrow> (nat \<Rightarrow> dd_address) \<Rightarrow> (dd_address list \<Rightarrow> dd_address list) \<Rightarrow> tag_key \<Rightarrow> u64 \<Rightarrow> nat \<Rightarrow> nat
    \<Rightarrow> dd_address list" where
  "build_poll_set c random_decoy shuffle tag start window decoys_per_real =
    shuffle (address_window c tag start window @ map random_decoy [0..<window * decoys_per_real])"

section \<open>Lemmas\<close>

lemma length_window_indices:
  assumes "unat start + window < 2 ^ 64"
  shows "length (window_indices start window) = window"
proof -
  have "unat (of_nat window :: u64) = window"
    using assms by (intro unat_of_nat_small) simp
  then show ?thesis
    using assms by (simp add: window_indices_def unat_saturating_add)
qed

lemma nth_window_indices:
  "i < length (window_indices start window) \<Longrightarrow> window_indices start window ! i = start + of_nat i"
  by (simp add: window_indices_def)

lemma unat_window_index:
  "unat start + i < 2 ^ 64 \<Longrightarrow> unat (start + of_nat i :: u64) = unat start + i"
  by (simp add: unat_word_ariths unat_of_nat_small)

lemma set_window_indices:
  assumes "unat start + window < 2 ^ 64"
  shows "set (window_indices start window) = {n. unat start \<le> unat n \<and> unat n < unat start + window}"
proof -
  have "unat (saturating_add start (of_nat window)) - unat start = window"
    using length_window_indices [OF assms] by (simp add: window_indices_def)
  then have set: "set (window_indices start window) = (\<lambda>i. start + of_nat i) ` {..<window}"
    by (simp add: window_indices_def lessThan_atLeast0)
  show ?thesis
  proof (intro equalityI subsetI)
    fix n :: u64 assume "n \<in> {n. unat start \<le> unat n \<and> unat n < unat start + window}"
    then have n: "unat n - unat start < window" "unat start \<le> unat n" by auto
    then have "unat (start + of_nat (unat n - unat start)) = unat n"
      using assms by (subst unat_window_index) auto
    then have "n = start + of_nat (unat n - unat start)"
      by (metis unat_eqD)
    then show "n \<in> set (window_indices start window)"
      using n unfolding set by blast
  qed (use assms in \<open>auto simp: set unat_window_index\<close>)
qed

lemma distinct_window_indices:
  assumes "unat start + window < 2 ^ 64"
  shows "distinct (window_indices start window)"
  unfolding distinct_conv_nth
proof (intro allI impI)
  fix i j
  assume *: "i < length (window_indices start window)" "j < length (window_indices start window)" "i \<noteq> j"
  then have "unat (start + of_nat i) \<noteq> unat (start + of_nat j)"
    using assms length_window_indices [OF assms] by (simp add: unat_window_index)
  then show "window_indices start window ! i \<noteq> window_indices start window ! j"
    using * by (auto simp: nth_window_indices)
qed

section \<open>Properties\<close>

text \<open>
  Sender and recipient derive the same address for every message index, each from their
  own secret and the other's public key.
\<close>

theorem both_sides_derive_same_addresses:
  fixes sa sb :: bytes
  assumes "dh_law c"
  defines "alice \<equiv> generate_dd c sa" and "bob \<equiv> generate_dd c sb"
  shows "address_for c (derive_tag_key c alice (dd_public bob)) n
    = address_for c (derive_tag_key c bob (dd_public alice)) n"
proof -
  have "diffie_hellman c sa (dh_public c sb) = diffie_hellman c sb (dh_public c sa)"
    using assms(1) by (simp add: dh_law_def)
  then show ?thesis
    by (simp add: alice_def bob_def derive_tag_key_def generate_dd_def)
qed

text \<open>A commutative toy agreement for the witnesses.\<close>

definition toy_dd :: dd_crypto where
  "toy_dd = \<lparr>dh_public = id, diffie_hellman = (\<lambda>a b. map2 (+) a b), dd_hkdf = (\<lambda>k info. k @ drop 31 info)\<rparr>"

lemma toy_dd_law: "dh_law toy_dd"
proof -
  have "map2 (+) a b = map2 (+) b a" for a b :: bytes
    by (induction a b rule: list_induct2') (auto simp: add.commute)
  then show ?thesis
    by (simp add: dh_law_def toy_dd_def)
qed

theorem both_sides_derive_same_addresses_witness:
  "address_for toy_dd (derive_tag_key toy_dd (generate_dd toy_dd [1, 2]) (dd_public (generate_dd toy_dd [3, 4]))) 41
    = address_for toy_dd (derive_tag_key toy_dd (generate_dd toy_dd [3, 4]) (dd_public (generate_dd toy_dd [1, 2]))) 41"
  by (rule both_sides_derive_same_addresses [OF toy_dd_law])

text \<open>
  The poll set contains every real address of the forward window plus the decoys, in an
  order the shuffle alone decides: it is a permutation of window and decoys, so its size
  is \<open>window * (1 + decoys_per_real)\<close> whatever is real.
\<close>

theorem poll_set_hides_the_window:
  assumes "\<And>xs. mset (shuffle xs) = mset xs" "unat start + window < 2 ^ 64"
  shows "mset (build_poll_set c rnd shuffle tag start window decoys)
      = mset (address_window c tag start window) + mset (map rnd [0..<window * decoys])
    \<and> length (build_poll_set c rnd shuffle tag start window decoys) = window * (1 + decoys)
    \<and> (\<forall>n. unat start \<le> unat n \<and> unat n < unat start + window \<longrightarrow>
        address_for c tag n \<in> set (build_poll_set c rnd shuffle tag start window decoys))"
proof -
  have m: "mset (build_poll_set c rnd shuffle tag start window decoys)
      = mset (address_window c tag start window) + mset (map rnd [0..<window * decoys])"
    by (simp add: build_poll_set_def assms(1))
  have "length (build_poll_set c rnd shuffle tag start window decoys) = window * (1 + decoys)"
    using arg_cong [OF m, of size] length_window_indices [OF assms(2)]
    by (simp add: address_window_def)
  moreover have "set (build_poll_set c rnd shuffle tag start window decoys)
      = set (address_window c tag start window) \<union> set (map rnd [0..<window * decoys])"
    using arg_cong [OF m, of set_mset] by simp
  ultimately show ?thesis
    using m set_window_indices [OF assms(2)] by (auto simp: address_window_def)
qed

theorem poll_set_hides_the_window_witness:
  "length (build_poll_set toy_dd (\<lambda>i. [of_nat i]) rev [9] 0 3 5) = 18
    \<and> address_for toy_dd [9] 2 \<in> set (build_poll_set toy_dd (\<lambda>i. [of_nat i]) rev [9] 0 3 5)"
proof -
  have "\<forall>n. unat (0 :: u64) \<le> unat n \<and> unat n < unat (0 :: u64) + 3 \<longrightarrow>
      address_for toy_dd [9] n \<in> set (build_poll_set toy_dd (\<lambda>i. [of_nat i]) rev [9] 0 3 5)"
    "length (build_poll_set toy_dd (\<lambda>i. [of_nat i]) rev [9] 0 3 5) = 3 * (1 + 5)"
    using poll_set_hides_the_window [of rev 0 3 toy_dd "\<lambda>i. [of_nat i]" "[9]" 5] by simp_all
  then show ?thesis by simp
qed

end
