(* ===== verification/Mixnet.thy ===== *)
theory Mixnet
  imports Errors "HOL-Library.Multiset" "HOL-Library.Countable"
begin

text \<open>
  Sphinx mix routing (\<open>protocol/src/mixnet.rs\<close>): the fixed-sz address tokens, the choice of
  a path, packet construction for the three kinds of traffic, and what a mix node makes of a
  packet.  The Sphinx packet format is the crate \<open>sphinx_packet\<close>'s: the fields of
  \<open>sphinx_lib\<close>, with its layered-encryption contract \<open>sphinx_law\<close>.  Random choices are
  arguments.
\<close>

section \<open>The library interface\<close>

datatype processed =
    ForwardHop (next_packet: bytes) (next_addr: bytes) (hop_delay: duration)
  | FinalHop (final_destination: bytes) (final_payload: bytes)

record sphinx_lib =
  NODE_ADDRESS_LENGTH :: nat
  DESTINATION_ADDRESS_LENGTH :: nat
  sphinx_build :: "nat \<Rightarrow> bytes \<Rightarrow> (bytes \<times> bytes) list \<Rightarrow> bytes \<Rightarrow> duration list \<Rightarrow> (bytes, string) result"
  sphinx_parse :: "bytes \<Rightarrow> (bytes, string) result"
  sphinx_process :: "bytes \<Rightarrow> bytes \<Rightarrow> (processed, string) result"
  packet_bytes_of :: "bytes \<Rightarrow> bytes"
  recover_plaintext :: "bytes \<Rightarrow> (bytes, string) result"
  x25519_public :: "bytes \<Rightarrow> bytes"
  show_bytes :: "bytes \<Rightarrow> string"
  utf8_error :: "bytes \<Rightarrow> string"

section \<open>Address tokens\<close>

definition RELAY_DESTINATION_TAG :: bytes where
  "RELAY_DESTINATION_TAG = utf8 ''PARDA-RELAY-V1''"

definition COVER_DESTINATION_TAG :: bytes where
  "COVER_DESTINATION_TAG = utf8 ''PARDA-COVER-V1''"

definition PULL_DESTINATION_TAG :: bytes where
  "PULL_DESTINATION_TAG = utf8 ''PARDA-PULL-V1''"

definition MIN_PATH_LENGTH :: nat where
  "MIN_PATH_LENGTH = 3"

definition DEFAULT_MIX_PAYLOAD_SIZE :: nat where
  "DEFAULT_MIX_PAYLOAD_SIZE = 8192"

definition encode_fixed :: "bytes \<Rightarrow> nat \<Rightarrow> bytes parda" where
  "encode_fixed bs capacity =
    (if length bs > capacity - 1 then
       Err (MixRouting (dec (length bs) @ '' bytes do not fit in a '' @ dec capacity
         @ ''-byte Sphinx address token''))
     else Ok (of_nat (length bs) # bs @ replicate (capacity - 1 - length bs) 0))"

text \<open>Indexing an empty buffer panics; the two callers pass arrays of positive length.\<close>

definition decode_fixed :: "bytes \<Rightarrow> bytes parda" where
  "decode_fixed buf = (case buf of
     [] \<Rightarrow> Err (Internal ''panic: index out of bounds'')
   | l # rest \<Rightarrow>
       if 1 + unat l > length buf then
         Err (MixRouting ''corrupt Sphinx address token: declared length exceeds buffer'')
       else Ok (take (unat l) rest))"

definition encode_node_address :: "sphinx_lib \<Rightarrow> string \<Rightarrow> bytes parda" where
  "encode_node_address S host_port = encode_fixed (utf8 host_port) (NODE_ADDRESS_LENGTH S)"

definition decode_node_address :: "sphinx_lib \<Rightarrow> bytes \<Rightarrow> string parda" where
  "decode_node_address S a =
    and_then (decode_fixed a) (\<lambda>bs.
    if valid_utf8 bs then Ok (of_utf8 bs)
    else Err (MixRouting (''next-hop address is not valid UTF-8: '' @ utf8_error S bs)))"

definition tagged_destination :: "sphinx_lib \<Rightarrow> bytes \<Rightarrow> bytes parda" where
  "tagged_destination S tag = encode_fixed tag (DESTINATION_ADDRESS_LENGTH S)"

definition destination_tag :: "bytes \<Rightarrow> bytes parda" where
  "destination_tag d = decode_fixed d"

record pull_request =
  pull_recipient_id :: string
  rendezvous_token :: string

definition new_pull_request :: "(bytes \<Rightarrow> string) \<Rightarrow> bytes \<Rightarrow> string \<Rightarrow> pull_request" where
  "new_pull_request hex_enc token_bytes recipient =
    \<lparr>pull_recipient_id = recipient, rendezvous_token = hex_enc token_bytes\<rparr>"

section \<open>Paths and packets\<close>

record mix_node =
  node_address :: string
  node_public_key :: bytes

definition choose_path ::
  "(mix_node list \<Rightarrow> nat \<Rightarrow> mix_node list) \<Rightarrow> mix_node list \<Rightarrow> nat \<Rightarrow> mix_node list parda" where
  "choose_path choose_multiple nodes len =
    (if len < MIN_PATH_LENGTH then
       Err (MixRouting (''path length '' @ dec len @ '' is below the minimum of '' @ dec MIN_PATH_LENGTH))
     else if length nodes < len then
       Err (MixRouting (''topology has '' @ dec (length nodes) @ '' nodes, need at least '' @ dec len
         @ '' for a path''))
     else Ok (choose_multiple nodes len))"

fun collect_ok :: "('a, 'e) result list \<Rightarrow> ('a list, 'e) result" where
  "collect_ok [] = Ok []"
| "collect_ok (r # rs) = and_then r (\<lambda>x. and_then (collect_ok rs) (\<lambda>xs. Ok (x # xs)))"

text \<open>\<open>delays\<close> is the list drawn by \<open>generate_from_average_duration\<close> for this packet.\<close>

definition build_packet_to ::
  "sphinx_lib \<Rightarrow> (nat \<Rightarrow> duration \<Rightarrow> duration list) \<Rightarrow> bytes \<Rightarrow> mix_node list \<Rightarrow> duration \<Rightarrow> nat \<Rightarrow> bytes
    \<Rightarrow> bytes parda" where
  "build_packet_to S delays payload path avg_delay payload_size tag =
    (if length path < MIN_PATH_LENGTH then
       Err (MixRouting (''path length '' @ dec (length path) @ '' is below the minimum of ''
         @ dec MIN_PATH_LENGTH))
     else
       and_then (collect_ok (map (\<lambda>d. and_then (encode_node_address S (node_address d))
                   (\<lambda>a. Ok (a, node_public_key d))) path)) (\<lambda>nodes.
       and_then (tagged_destination S tag) (\<lambda>destination.
       map_err (\<lambda>e. MixRouting (''failed to build Sphinx packet: '' @ e))
         (sphinx_build S payload_size payload nodes destination (delays (length path) avg_delay)))))"

definition build_packet ::
  "sphinx_lib \<Rightarrow> (nat \<Rightarrow> duration \<Rightarrow> duration list) \<Rightarrow> bytes \<Rightarrow> mix_node list \<Rightarrow> duration \<Rightarrow> nat
    \<Rightarrow> bytes parda" where
  "build_packet S delays payload path avg_delay payload_size =
    build_packet_to S delays payload path avg_delay payload_size RELAY_DESTINATION_TAG"

section \<open>Processing\<close>

datatype unwrap_outcome =
    Forward (next_hop_address: string) (delay: duration) (packet_bytes: bytes)
  | Deliver (envelope_bytes: bytes)
  | PullRequest (request_bytes: bytes)
  | DropCover

definition process_packet :: "sphinx_lib \<Rightarrow> bytes \<Rightarrow> bytes \<Rightarrow> unwrap_outcome parda" where
  "process_packet S bs node_secret =
    and_then (map_err (\<lambda>e. MixRouting (''malformed Sphinx packet: '' @ e)) (sphinx_parse S bs)) (\<lambda>packet.
    and_then (map_err (\<lambda>e. MixRouting (''failed to unwrap Sphinx packet: '' @ e))
        (sphinx_process S packet node_secret)) (\<lambda>p. case p of
      ForwardHop next a d \<Rightarrow>
        and_then (decode_node_address S a) (\<lambda>next_hop. Ok (Forward next_hop d (packet_bytes_of S next)))
    | FinalHop dest payload \<Rightarrow>
        and_then (destination_tag dest) (\<lambda>tag.
        let recovered = map_err (\<lambda>e. MixRouting (''failed to recover Sphinx payload: '' @ e))
              (recover_plaintext S payload) in
        if tag = RELAY_DESTINATION_TAG then map_ok Deliver recovered
        else if tag = PULL_DESTINATION_TAG then map_ok PullRequest recovered
        else if tag = COVER_DESTINATION_TAG then Ok DropCover
        else Err (MixRouting (''final hop with unrecognised destination tag '' @ show_bytes S tag
          @ '' '' @ em_dash @ '' refusing to guess where to deliver it'')))))"

definition sample_exponential_delay :: "(nat \<Rightarrow> duration \<Rightarrow> duration list) \<Rightarrow> duration \<Rightarrow> duration" where
  "sample_exponential_delay delays avg = (case delays 1 avg of d # _ \<Rightarrow> d | [] \<Rightarrow> avg)"

definition generate_node_keypair :: "sphinx_lib \<Rightarrow> bytes \<Rightarrow> bytes \<times> bytes" where
  "generate_node_keypair S secret = (secret, x25519_public S secret)"

section \<open>The contract of Sphinx\<close>

text \<open>
  A packet peels as an onion for a list of hops when the first hop's secret yields a packet
  for the second hop's address that peels for the rest, down to the destination and payload.
\<close>

fun peels :: "sphinx_lib \<Rightarrow> bytes \<Rightarrow> bytes \<Rightarrow> (bytes \<times> bytes) list \<Rightarrow> bytes \<Rightarrow> bytes \<Rightarrow> bool" where
  "peels S bs secret [] dest payload \<longleftrightarrow>
    (\<exists>packet pl. sphinx_parse S bs = Ok packet \<and> sphinx_process S packet secret = Ok (FinalHop dest pl)
      \<and> recover_plaintext S pl = Ok payload)"
| "peels S bs secret ((a, next_secret) # hops) dest payload \<longleftrightarrow>
    (\<exists>packet next d. sphinx_parse S bs = Ok packet \<and> sphinx_process S packet secret = Ok (ForwardHop next a d)
      \<and> peels S (packet_bytes_of S next) next_secret hops dest payload)"

definition sphinx_law :: "sphinx_lib \<Rightarrow> bool" where
  "sphinx_law S \<longleftrightarrow>
    14 < DESTINATION_ADDRESS_LENGTH S \<and> DESTINATION_ADDRESS_LENGTH S \<le> 256
    \<and> 0 < NODE_ADDRESS_LENGTH S \<and> NODE_ADDRESS_LENGTH S \<le> 256
    \<and> (\<forall>sz payload a secret hops dest delays bs.
        sphinx_build S sz payload ((a, x25519_public S secret) # map (\<lambda>(a, s). (a, x25519_public S s)) hops)
          dest delays = Ok bs \<longrightarrow>
        peels S bs secret hops dest payload)"

text \<open>
  The journey of a packet: each node processes what it receives and hands a forwarded
  packet to the node whose address the outcome names.
\<close>

fun travel :: "sphinx_lib \<Rightarrow> (string \<Rightarrow> bytes option) \<Rightarrow> nat \<Rightarrow> string \<Rightarrow> bytes \<Rightarrow> (string list \<times> unwrap_outcome) option" where
  "travel S secret_of 0 host bs = None"
| "travel S secret_of (Suc n) host bs =
    (case secret_of host of
       None \<Rightarrow> None
     | Some secret \<Rightarrow>
         (case process_packet S bs secret of
            Err _ \<Rightarrow> None
          | Ok (Forward host' d bs') \<Rightarrow>
              map_option (\<lambda>(hosts, r). (host # hosts, r)) (travel S secret_of n host' bs')
          | Ok r \<Rightarrow> Some ([host], r)))"

text \<open>What every node on the way makes of the packet, errors included.\<close>

fun handlings :: "sphinx_lib \<Rightarrow> (string \<Rightarrow> bytes option) \<Rightarrow> nat \<Rightarrow> string \<Rightarrow> bytes \<Rightarrow> (string \<times> unwrap_outcome parda) list" where
  "handlings S secret_of 0 host bs = []"
| "handlings S secret_of (Suc n) host bs =
    (case secret_of host of
       None \<Rightarrow> []
     | Some secret \<Rightarrow>
         let r = process_packet S bs secret
         in (host, r) # (case r of Ok (Forward host' d bs') \<Rightarrow> handlings S secret_of n host' bs' | _ \<Rightarrow> []))"

section \<open>Lemmas\<close>

lemma length_encode_fixed: "encode_fixed bs c = Ok buf \<Longrightarrow> 0 < c \<Longrightarrow> length buf = c"
  by (auto simp: encode_fixed_def split: if_splits)

lemma decode_encode_fixed:
  assumes "encode_fixed bs c = Ok buf" "0 < c" "c \<le> 256"
  shows "decode_fixed buf = Ok bs"
proof -
  have len: "length bs \<le> c - 1" and buf: "buf = of_nat (length bs) # bs @ replicate (c - 1 - length bs) 0"
    using assms(1) by (auto simp: encode_fixed_def split: if_splits)
  have "unat (of_nat (length bs) :: u8) = length bs"
    using len assms(2,3) by (intro unat_of_nat_small) simp
  then show ?thesis
    using len by (simp add: decode_fixed_def buf)
qed

lemma node_address_roundtrip:
  assumes "encode_node_address S h = Ok a" "sphinx_law S" "valid_utf8 (utf8 h)"
  shows "decode_node_address S a = Ok h"
  using assms decode_encode_fixed [of "utf8 h" "NODE_ADDRESS_LENGTH S" a]
  by (simp add: encode_node_address_def decode_node_address_def sphinx_law_def)

lemma collect_ok_map:
  "collect_ok (map f xs) = Ok ys \<longleftrightarrow> list_all2 (\<lambda>x y. f x = Ok y) xs ys"
  by (induction xs arbitrary: ys) (auto simp: and_then_Ok_iff list_all2_Cons1)

lemma build_packet_to_Ok:
  assumes "build_packet_to S delays payload path avg sz tag = Ok bs"
  obtains nodes dest where "MIN_PATH_LENGTH \<le> length path"
    "list_all2 (\<lambda>d (a, k). encode_node_address S (node_address d) = Ok a \<and> k = node_public_key d) path nodes"
    "tagged_destination S tag = Ok dest"
    "sphinx_build S sz payload nodes dest (delays (length path) avg) = Ok bs"
proof -
  obtain nodes dest where *: "MIN_PATH_LENGTH \<le> length path"
    "list_all2 (\<lambda>d y. and_then (encode_node_address S (node_address d)) (\<lambda>a. Ok (a, node_public_key d)) = Ok y) path nodes"
    "tagged_destination S tag = Ok dest"
    "sphinx_build S sz payload nodes dest (delays (length path) avg) = Ok bs"
    using assms by (auto simp: build_packet_to_def and_then_Ok_iff collect_ok_map split: if_splits)
  have "list_all2 (\<lambda>d (a, k). encode_node_address S (node_address d) = Ok a \<and> k = node_public_key d) path nodes"
    using *(2) by (rule list_all2_mono) (auto simp: and_then_Ok_iff)
  with * show thesis using that by blast
qed

lemma tags_distinct:
  "PULL_DESTINATION_TAG \<noteq> RELAY_DESTINATION_TAG"
  "COVER_DESTINATION_TAG \<noteq> RELAY_DESTINATION_TAG"
  "COVER_DESTINATION_TAG \<noteq> PULL_DESTINATION_TAG"
  unfolding PULL_DESTINATION_TAG_def RELAY_DESTINATION_TAG_def COVER_DESTINATION_TAG_def utf8_inject
  by simp_all

fun outcome_for :: "bytes \<Rightarrow> bytes \<Rightarrow> unwrap_outcome option" where
  "outcome_for tag payload =
    (if tag = RELAY_DESTINATION_TAG then Some (Deliver payload)
     else if tag = PULL_DESTINATION_TAG then Some (PullRequest payload)
     else if tag = COVER_DESTINATION_TAG then Some DropCover
     else None)"

lemma process_final:
  assumes "sphinx_parse S bs = Ok packet" "sphinx_process S packet secret = Ok (FinalHop dest pl)"
    and "recover_plaintext S pl = Ok payload" "destination_tag dest = Ok tag"
    and "outcome_for tag payload = Some out"
  shows "process_packet S bs secret = Ok out" "\<nexists>h d b. out = Forward h d b"
  using assms by (auto simp: process_packet_def Let_def tags_distinct tags_distinct [symmetric] split: if_splits)

lemma travel_peels:
  assumes "peels S bs secret hops dest payload" "secret_of host = Some secret"
    and "list_all2 (\<lambda>d (a, s). decode_node_address S a = Ok (node_address d)
      \<and> secret_of (node_address d) = Some s) ds hops"
    and "destination_tag dest = Ok tag" "outcome_for tag payload = Some out"
  shows "travel S secret_of (Suc (length ds)) host bs = Some (host # map node_address ds, out)"
  using assms(1-3)
proof (induction hops arbitrary: ds host secret bs)
  case Nil
  then obtain packet pl where "sphinx_parse S bs = Ok packet"
    "sphinx_process S packet secret = Ok (FinalHop dest pl)" "recover_plaintext S pl = Ok payload"
    by auto
  from process_final [OF this assms(4,5)] show ?case
    using Nil by (auto split: unwrap_outcome.split)
next
  case (Cons hop hops)
  obtain a s d ds' where *: "hop = (a, s)" "ds = d # ds'" "decode_node_address S a = Ok (node_address d)"
    "secret_of (node_address d) = Some s"
    "list_all2 (\<lambda>d (a, s). decode_node_address S a = Ok (node_address d)
      \<and> secret_of (node_address d) = Some s) ds' hops"
    using Cons.prems(3) by (cases hop) (auto simp: list_all2_Cons2)
  obtain packet nxt dl where p: "sphinx_parse S bs = Ok packet"
    "sphinx_process S packet secret = Ok (ForwardHop nxt a dl)"
    "peels S (packet_bytes_of S nxt) s hops dest payload"
    using Cons.prems(1) by (auto simp: *(1))
  have "process_packet S bs secret = Ok (Forward (node_address d) dl (packet_bytes_of S nxt))"
    using p *(3) by (simp add: process_packet_def)
  then show ?case
    using Cons.IH [OF p(3) *(4,5)] Cons.prems(2) by (simp add: *(2))
qed

text \<open>The journey of a packet that was built, whatever its tag.\<close>

lemma packet_peels:
  assumes law: "sphinx_law S" and build: "build_packet_to S delays payload path avg sz tag = Ok bs"
    and reachable: "\<And>d. d \<in> set path \<Longrightarrow> valid_utf8 (utf8 (node_address d))
      \<and> (\<exists>s. secret_of (node_address d) = Some s \<and> node_public_key d = x25519_public S s)"
  obtains d ds secret hops dest where "path = d # ds" "MIN_PATH_LENGTH \<le> length path"
    "secret_of (node_address d) = Some secret" "peels S bs secret hops dest payload"
    "list_all2 (\<lambda>d (a, s). decode_node_address S a = Ok (node_address d)
      \<and> secret_of (node_address d) = Some s) ds hops"
    "destination_tag dest = Ok tag"
proof -
  obtain nodes dest where b: "MIN_PATH_LENGTH \<le> length path"
    "list_all2 (\<lambda>d (a, k). encode_node_address S (node_address d) = Ok a \<and> k = node_public_key d) path nodes"
    "tagged_destination S tag = Ok dest"
    "sphinx_build S sz payload nodes dest (delays (length path) avg) = Ok bs"
    using build by (rule build_packet_to_Ok)
  obtain d ds where path: "path = d # ds"
    using b(1) by (cases path) (auto simp: MIN_PATH_LENGTH_def)
  define hop where "hop = (\<lambda>d :: mix_node. case encode_node_address S (node_address d) of
      Ok a \<Rightarrow> (a, the (secret_of (node_address d))) | Err _ \<Rightarrow> ([], []))"
  have "nodes = map (\<lambda>(a, s). (a, x25519_public S s)) (map hop path)"
    using b(2) reachable
    by (induction rule: list_all2_induct) (fastforce simp: hop_def)+
  then have peels: "peels S bs (snd (hop d)) (map hop ds) dest payload"
    using law b(4) unfolding sphinx_law_def path
    by (cases "hop d") (auto simp: case_prod_unfold)
  have hop: "secret_of (node_address x) = Some (snd (hop x))
      \<and> decode_node_address S (fst (hop x)) = Ok (node_address x)" if x: "x \<in> set path" for x
  proof -
    obtain a where "encode_node_address S (node_address x) = Ok a"
      using list_all2_set1 [OF b(2)] x by auto
    moreover obtain s where "secret_of (node_address x) = Some s" "valid_utf8 (utf8 (node_address x))"
      using reachable x by blast
    ultimately show ?thesis
      using node_address_roundtrip [OF _ law] by (simp add: hop_def)
  qed
  have "destination_tag dest = Ok tag"
    using decode_encode_fixed [of tag "DESTINATION_ADDRESS_LENGTH S" dest] law b(3)
    by (simp add: destination_tag_def tagged_destination_def sphinx_law_def)
  with that [OF path b(1) _ peels] hop show thesis
    by (simp add: path list_all2_map2 list_all2_same case_prod_unfold)
qed

lemma packet_travels:
  assumes "sphinx_law S" "build_packet_to S delays payload path avg sz tag = Ok bs"
    and "\<And>d. d \<in> set path \<Longrightarrow> valid_utf8 (utf8 (node_address d))
      \<and> (\<exists>s. secret_of (node_address d) = Some s \<and> node_public_key d = x25519_public S s)"
    and "outcome_for tag payload = Some out"
  shows "travel S secret_of (length path) (node_address (hd path)) bs = Some (map node_address path, out)
    \<and> MIN_PATH_LENGTH \<le> length path"
proof -
  obtain d ds secret hops dest where p: "path = d # ds" "MIN_PATH_LENGTH \<le> length path"
    "secret_of (node_address d) = Some secret" "peels S bs secret hops dest payload"
    "list_all2 (\<lambda>d (a, s). decode_node_address S a = Ok (node_address d)
      \<and> secret_of (node_address d) = Some s) ds hops"
    "destination_tag dest = Ok tag"
    using packet_peels [OF assms(1-3)] by blast
  show ?thesis
    using travel_peels [OF p(4,3,5,6) assms(4)] p(1,2) by simp
qed

text \<open>What can be behind each outcome.\<close>

lemma process_packet_inversion:
  assumes out: "process_packet S bs secret = Ok out"
  shows "\<exists>packet. sphinx_parse S bs = Ok packet \<and>
    (case sphinx_process S packet secret of
       Ok (ForwardHop next a d) \<Rightarrow> \<exists>h. decode_node_address S a = Ok h \<and> out = Forward h d (packet_bytes_of S next)
     | Ok (FinalHop dest pl) \<Rightarrow>
         destination_tag dest = Ok COVER_DESTINATION_TAG \<and> out = DropCover
         \<or> (\<exists>b. recover_plaintext S pl = Ok b
             \<and> (destination_tag dest = Ok RELAY_DESTINATION_TAG \<and> out = Deliver b
               \<or> destination_tag dest = Ok PULL_DESTINATION_TAG \<and> out = PullRequest b))
     | Err _ \<Rightarrow> False)"
proof -
  obtain packet p where p: "sphinx_parse S bs = Ok packet" "sphinx_process S packet secret = Ok p"
    using out by (auto simp: process_packet_def and_then_Ok_iff)
  show ?thesis
  proof (cases p)
    case (ForwardHop nxt a d)
    then show ?thesis
      using out p by (auto simp: process_packet_def and_then_Ok_iff)
  next
    case (FinalHop dest pl)
    then show ?thesis
      using out p by (auto simp: process_packet_def and_then_Ok_iff map_ok_Ok_iff Let_def split: if_splits)
  qed
qed

text \<open>What the last node makes of a payload under a tag.\<close>

definition last_handling :: "sphinx_lib \<Rightarrow> bytes \<Rightarrow> bytes \<Rightarrow> unwrap_outcome parda" where
  "last_handling S tag payload =
    ok_or (outcome_for tag payload) (MixRouting (''final hop with unrecognised destination tag '' @ show_bytes S tag
      @ '' '' @ em_dash @ '' refusing to guess where to deliver it''))"

lemma last_handling_if:
  "last_handling S tag payload =
    (if tag = RELAY_DESTINATION_TAG then Ok (Deliver payload)
     else if tag = PULL_DESTINATION_TAG then Ok (PullRequest payload)
     else if tag = COVER_DESTINATION_TAG then Ok DropCover
     else Err (MixRouting (''final hop with unrecognised destination tag '' @ show_bytes S tag
       @ '' '' @ em_dash @ '' refusing to guess where to deliver it'')))"
  by (simp add: last_handling_def del: append.simps)

lemma process_last:
  assumes "sphinx_parse S bs = Ok packet" "sphinx_process S packet secret = Ok (FinalHop dest pl)"
    and "recover_plaintext S pl = Ok payload" "destination_tag dest = Ok tag"
  shows "process_packet S bs secret = last_handling S tag payload"
  using assms by (simp add: process_packet_def last_handling_def)

lemma last_handling_not_Forward: "last_handling S tag payload \<noteq> Ok (Forward h d b)"
  by (simp add: last_handling_def)

lemma handlings_peels:
  assumes "peels S bs secret hops dest payload" "secret_of host = Some secret"
    and "list_all2 (\<lambda>d (a, s). decode_node_address S a = Ok (node_address d)
      \<and> secret_of (node_address d) = Some s) ds hops"
    and "destination_tag dest = Ok tag"
  shows "\<exists>before. handlings S secret_of (Suc (length ds)) host bs = before @ [(last (host # map node_address ds), last_handling S tag payload)]
    \<and> map fst before = butlast (host # map node_address ds) \<and> (\<forall>(h, r) \<in> set before. \<exists>h' d b. r = Ok (Forward h' d b))"
  using assms(1-3)
proof (induction hops arbitrary: ds host secret bs)
  case Nil
  then obtain packet pl where "sphinx_parse S bs = Ok packet"
    "sphinx_process S packet secret = Ok (FinalHop dest pl)" "recover_plaintext S pl = Ok payload"
    by auto
  from process_last [OF this assms(4)] show ?case
    using Nil last_handling_not_Forward [of S tag payload] by (auto simp: Let_def split: result.split unwrap_outcome.split)
next
  case (Cons hop hops)
  obtain a s d ds' where *: "hop = (a, s)" "ds = d # ds'" "decode_node_address S a = Ok (node_address d)"
    "secret_of (node_address d) = Some s"
    "list_all2 (\<lambda>d (a, s). decode_node_address S a = Ok (node_address d)
      \<and> secret_of (node_address d) = Some s) ds' hops"
    using Cons.prems(3) by (cases hop) (auto simp: list_all2_Cons2)
  obtain packet nxt dl where p: "sphinx_parse S bs = Ok packet"
    "sphinx_process S packet secret = Ok (ForwardHop nxt a dl)"
    "peels S (packet_bytes_of S nxt) s hops dest payload"
    using Cons.prems(1) by (auto simp: *(1))
  have step: "process_packet S bs secret = Ok (Forward (node_address d) dl (packet_bytes_of S nxt))"
    using p *(3) by (simp add: process_packet_def)
  obtain before where "handlings S secret_of (Suc (length ds')) (node_address d) (packet_bytes_of S nxt)
      = before @ [(last (node_address d # map node_address ds'), last_handling S tag payload)]"
    "map fst before = butlast (node_address d # map node_address ds')"
    "\<forall>(h, r) \<in> set before. \<exists>h' d b. r = Ok (Forward h' d b)"
    using Cons.IH [OF p(3) *(4,5)] by blast
  then show ?case
    using Cons.prems(2) step by (intro exI [of _ "(host, Ok (Forward (node_address d) dl (packet_bytes_of S nxt))) # before"])
      (simp add: *(2) Let_def)
qed

section \<open>Properties\<close>

text \<open>
  A fixed-size address token of up to 256 bytes decodes to exactly the bytes encoded,
  always has the full capacity, and encoding refuses precisely the inputs that do not fit.
\<close>

theorem address_token_roundtrip:
  assumes "0 < c" "c \<le> 256"
  shows "(length bs < c \<longrightarrow> (\<exists>buf. encode_fixed bs c = Ok buf \<and> length buf = c \<and> decode_fixed buf = Ok bs))
    \<and> (c \<le> length bs \<longrightarrow> (\<exists>m. encode_fixed bs c = Err (MixRouting m)))"
proof -
  have "\<exists>buf. encode_fixed bs c = Ok buf" if "length bs < c"
    using that assms(1) by (simp add: encode_fixed_def)
  moreover have "\<exists>m. encode_fixed bs c = Err (MixRouting m)" if "c \<le> length bs"
    using that assms(1) by (simp add: encode_fixed_def)
  ultimately show ?thesis
    using decode_encode_fixed [of bs c] length_encode_fixed [of bs c] assms by blast
qed

theorem address_token_roundtrip_witness:
  "\<exists>buf. encode_fixed [1, 2, 3] 32 = Ok buf \<and> length buf = 32 \<and> decode_fixed buf = Ok [1, 2, 3]"
  using address_token_roundtrip [of 32 "[1, 2, 3]"] by simp

text \<open>
  Onion delivery.  A packet built over a path of reachable nodes visits exactly the nodes
  of that path, in order, and the last one gets what the destination tag says: the envelope
  bytes for the relay, the pull request, or cover traffic to drop.
\<close>

theorem onion_delivery:
  assumes "sphinx_law S" "build_packet_to S delays payload path avg sz tag = Ok bs"
    and "\<And>d. d \<in> set path \<Longrightarrow> valid_utf8 (utf8 (node_address d))
      \<and> (\<exists>s. secret_of (node_address d) = Some s \<and> node_public_key d = x25519_public S s)"
    and "outcome_for tag payload = Some out"
  shows "travel S secret_of (length path) (node_address (hd path)) bs = Some (map node_address path, out)
    \<and> MIN_PATH_LENGTH \<le> length path"
  using assms by (rule packet_travels)

text \<open>
  A format for the witness: a packet is the code number of its remaining hops, destination
  and payload, and a node peels the first hop if it is its own.
\<close>

definition pack :: "(bytes \<times> bytes) list \<times> bytes \<times> bytes \<Rightarrow> bytes" where
  "pack t = replicate (to_nat t) 0"

definition unpack :: "bytes \<Rightarrow> (bytes \<times> bytes) list \<times> bytes \<times> bytes" where
  "unpack b = from_nat (length b)"

lemma unpack_pack [simp]: "unpack (pack t) = t"
  by (simp add: pack_def unpack_def)

definition toy_sphinx :: sphinx_lib where
  "toy_sphinx = \<lparr>NODE_ADDRESS_LENGTH = 32, DESTINATION_ADDRESS_LENGTH = 32,
     sphinx_build = (\<lambda>sz payload nodes dest delays. Ok (pack (nodes, dest, payload))),
     sphinx_parse = Ok,
     sphinx_process = (\<lambda>b secret. case unpack b of
        ((a, k) # hops, dest, payload) \<Rightarrow>
          if k \<noteq> secret then Err ''key''
          else (case hops of [] \<Rightarrow> Ok (FinalHop dest payload)
                | (a', k') # _ \<Rightarrow> Ok (ForwardHop (pack (hops, dest, payload)) a' 0))
      | ([], dest, payload) \<Rightarrow> Err ''empty''),
     packet_bytes_of = id, recover_plaintext = Ok, x25519_public = id,
     show_bytes = of_utf8, utf8_error = (\<lambda>_. [])\<rparr>"

lemma toy_sphinx_law: "sphinx_law toy_sphinx"
proof -
  have "peels toy_sphinx (pack ((a, s) # hops, dest, payload)) s hops dest payload" for a s hops dest payload
    by (induction hops arbitrary: a s) (auto simp: toy_sphinx_def)
  then show ?thesis
    by (auto simp: sphinx_law_def) (auto simp: toy_sphinx_def)
qed

definition toy_path :: "mix_node list" where
  "toy_path = map (\<lambda>h. \<lparr>node_address = h, node_public_key = utf8 h\<rparr>) [''a:1'', ''b:2'', ''c:3'']"

lemma toy_path_reachable: "d \<in> set toy_path \<Longrightarrow> valid_utf8 (utf8 (node_address d))
    \<and> (\<exists>s. Some (utf8 (node_address d)) = Some s \<and> node_public_key d = x25519_public toy_sphinx s)"
  by (auto simp: toy_path_def toy_sphinx_def ascii_def intro: valid_utf8_ascii)

theorem onion_delivery_witness:
  "\<exists>bs. build_packet_to toy_sphinx (\<lambda>n d. replicate n d) [1, 2] toy_path 5 100 RELAY_DESTINATION_TAG = Ok bs
    \<and> travel toy_sphinx (\<lambda>h. Some (utf8 h)) 3 ''a:1'' bs = Some ([''a:1'', ''b:2'', ''c:3''], Deliver [1, 2])"
proof -
  obtain bs where bs: "build_packet_to toy_sphinx (\<lambda>n d. replicate n d) [1, 2] toy_path 5 100
      RELAY_DESTINATION_TAG = Ok bs"
    by (simp add: build_packet_to_def toy_path_def MIN_PATH_LENGTH_def encode_node_address_def encode_fixed_def
        tagged_destination_def toy_sphinx_def RELAY_DESTINATION_TAG_def)
  have "length toy_path = 3" "node_address (hd toy_path) = ''a:1''"
    "map node_address toy_path = [''a:1'', ''b:2'', ''c:3'']"
    by (simp_all add: toy_path_def)
  then show ?thesis
    using toy_path_reachable onion_delivery [OF toy_sphinx_law bs, where secret_of = "\<lambda>h. Some (utf8 h)" and out = "Deliver [1, 2]"] bs
    by (simp del: travel.simps)
qed

text \<open>
  C30: Mix nodes fail closed.  Whatever bytes a node receives, it forwards only a forward hop, to
  the address in it, and delivers, pulls or drops as cover only a final hop whose destination
  carries exactly the tag for that, with exactly the payload recovered; everything else is an
  error.  And a packet built along a path of reachable nodes is forwarded by each of them but
  the last, in order; only the last one opens it, and there its tag decides: with a tag that is
  none of the three nobody delivers anything, and the last node reports the unknown tag.
\<close>

theorem final_hop_fails_closed:
  assumes "sphinx_law S" "build_packet_to S delays payload path avg sz tag = Ok bs"
    and "\<And>d. d \<in> set path \<Longrightarrow> valid_utf8 (utf8 (node_address d))
      \<and> (\<exists>s. secret_of (node_address d) = Some s \<and> node_public_key d = x25519_public S s)"
  shows "(process_packet S any_bytes any_secret = Ok out \<longrightarrow>
      (\<exists>packet. sphinx_parse S any_bytes = Ok packet \<and>
        (case sphinx_process S packet any_secret of
           Ok (ForwardHop next a d) \<Rightarrow> \<exists>h. decode_node_address S a = Ok h \<and> out = Forward h d (packet_bytes_of S next)
         | Ok (FinalHop dest pl) \<Rightarrow>
             destination_tag dest = Ok COVER_DESTINATION_TAG \<and> out = DropCover
             \<or> (\<exists>b. recover_plaintext S pl = Ok b
                 \<and> (destination_tag dest = Ok RELAY_DESTINATION_TAG \<and> out = Deliver b
                   \<or> destination_tag dest = Ok PULL_DESTINATION_TAG \<and> out = PullRequest b))
         | Err _ \<Rightarrow> False)))
    \<and> (let trip = handlings S secret_of (length path) (node_address (hd path)) bs in
        map fst trip = map node_address path
        \<and> (\<forall>(h, r) \<in> set (butlast trip). \<exists>h' d b. r = Ok (Forward h' d b))
        \<and> snd (last trip) =
          (if tag = RELAY_DESTINATION_TAG then Ok (Deliver payload)
           else if tag = PULL_DESTINATION_TAG then Ok (PullRequest payload)
           else if tag = COVER_DESTINATION_TAG then Ok DropCover
           else Err (MixRouting (''final hop with unrecognised destination tag '' @ show_bytes S tag
             @ '' '' @ em_dash @ '' refusing to guess where to deliver it''))))"
proof (intro conjI impI)
  show "\<exists>packet. sphinx_parse S any_bytes = Ok packet \<and>
      (case sphinx_process S packet any_secret of
         Ok (ForwardHop next a d) \<Rightarrow> \<exists>h. decode_node_address S a = Ok h \<and> out = Forward h d (packet_bytes_of S next)
       | Ok (FinalHop dest pl) \<Rightarrow>
           destination_tag dest = Ok COVER_DESTINATION_TAG \<and> out = DropCover
           \<or> (\<exists>b. recover_plaintext S pl = Ok b
               \<and> (destination_tag dest = Ok RELAY_DESTINATION_TAG \<and> out = Deliver b
                 \<or> destination_tag dest = Ok PULL_DESTINATION_TAG \<and> out = PullRequest b))
       | Err _ \<Rightarrow> False)" if "process_packet S any_bytes any_secret = Ok out"
    using that by (rule process_packet_inversion)
  obtain d ds secret hops dest where p: "path = d # ds" "secret_of (node_address d) = Some secret"
    "peels S bs secret hops dest payload"
    "list_all2 (\<lambda>d (a, s). decode_node_address S a = Ok (node_address d)
      \<and> secret_of (node_address d) = Some s) ds hops"
    "destination_tag dest = Ok tag"
    by (rule packet_peels [of S delays payload path avg sz tag bs secret_of, OF assms]) (assumption, rule that)
  obtain before where trip: "handlings S secret_of (length path) (node_address (hd path)) bs
      = before @ [(last (map node_address path), last_handling S tag payload)]"
    "map fst before = butlast (map node_address path)" "\<forall>(h, r) \<in> set before. \<exists>h' d b. r = Ok (Forward h' d b)"
    using handlings_peels [OF p(3,2,4,5)] p(1) by auto
  have all: "map fst before @ [last (map node_address path)] = map node_address path"
    using p(1) unfolding trip(2) by (intro append_butlast_last_id) simp
  show "let trip = handlings S secret_of (length path) (node_address (hd path)) bs in
      map fst trip = map node_address path
      \<and> (\<forall>(h, r) \<in> set (butlast trip). \<exists>h' d b. r = Ok (Forward h' d b))
      \<and> snd (last trip) =
        (if tag = RELAY_DESTINATION_TAG then Ok (Deliver payload)
         else if tag = PULL_DESTINATION_TAG then Ok (PullRequest payload)
         else if tag = COVER_DESTINATION_TAG then Ok DropCover
         else Err (MixRouting (''final hop with unrecognised destination tag '' @ show_bytes S tag
           @ '' '' @ em_dash @ '' refusing to guess where to deliver it'')))"
    unfolding Let_def trip(1) map_append list.map fst_conv all butlast_snoc last_snoc snd_conv
    by (rule conjI [OF refl conjI [OF trip(3) last_handling_if]])
qed

text \<open>A packet whose tag is one byte only is carried to the last node and refused there.\<close>

theorem final_hop_fails_closed_witness:
  "\<exists>bs m. build_packet_to toy_sphinx (\<lambda>n d. replicate n d) [1, 2] toy_path 5 100 [99] = Ok bs
    \<and> snd (last (handlings toy_sphinx (\<lambda>h. Some (utf8 h)) 3 ''a:1'' bs)) = Err (MixRouting m)"
proof -
  obtain bs where bs: "build_packet_to toy_sphinx (\<lambda>n d. replicate n d) [1, 2] toy_path 5 100 [99] = Ok bs"
    by (simp add: build_packet_to_def toy_path_def MIN_PATH_LENGTH_def encode_node_address_def encode_fixed_def
        tagged_destination_def toy_sphinx_def)
  have "length toy_path = 3" "node_address (hd toy_path) = ''a:1''"
    by (simp_all add: toy_path_def)
  moreover have "[99] \<notin> {RELAY_DESTINATION_TAG, PULL_DESTINATION_TAG, COVER_DESTINATION_TAG}"
    by (simp add: RELAY_DESTINATION_TAG_def PULL_DESTINATION_TAG_def COVER_DESTINATION_TAG_def utf8_def)
  ultimately show ?thesis
    using final_hop_fails_closed [OF toy_sphinx_law bs, of "\<lambda>h. Some (utf8 h)" "[]" "[]" DropCover] toy_path_reachable bs
    by (simp add: Let_def del: handlings.simps)
qed

text \<open>
  Every path a topology hands out has at least three nodes, all of the topology, with no
  node used twice, and is refused when the topology is too small.
\<close>

theorem chosen_paths_are_long_enough:
  assumes "\<And>xs n. n \<le> length xs \<Longrightarrow> mset (pick xs n) \<subseteq># mset xs \<and> length (pick xs n) = n"
    and "distinct nodes"
  shows "(choose_path pick nodes len = Ok path \<longrightarrow>
      3 \<le> length path \<and> length path = len \<and> set path \<subseteq> set nodes \<and> distinct path)
    \<and> (len < 3 \<or> length nodes < len \<longrightarrow> (\<exists>m. choose_path pick nodes len = Err (MixRouting m)))"
proof -
  have "set p \<subseteq> set nodes \<and> distinct p" if p: "mset p \<subseteq># mset nodes" for p
  proof
    show "set p \<subseteq> set nodes"
      using mset_subset_eqD [OF p] by auto
    have "count (mset p) x = (if x \<in> set p then 1 else 0)" for x
    proof (cases "x \<in> set p")
      case True
      then have pos: "0 < count (mset p) x" by auto
      have "count (mset p) x \<le> 1"
        using True mset_subset_eq_count [OF p, of x] assms(2) [unfolded distinct_count_atmost_1, rule_format, of x]
        by (simp split: if_splits)
      then show ?thesis
        unfolding if_P [OF True] using pos by linarith
    qed simp
    then show "distinct p"
      by (simp add: distinct_count_atmost_1)
  qed
  then have "set (pick nodes len) \<subseteq> set nodes \<and> distinct (pick nodes len) \<and> length (pick nodes len) = len"
    if "len \<le> length nodes"
    using assms(1) [OF that] by blast
  then show ?thesis
    by (simp add: choose_path_def MIN_PATH_LENGTH_def) auto
qed

theorem chosen_paths_are_long_enough_witness:
  "3 \<le> length (take 3 toy_path) \<and> distinct (take 3 toy_path)"
proof -
  have "choose_path (\<lambda>xs n. take n xs) toy_path 3 = Ok (take 3 toy_path)"
    by (simp add: choose_path_def MIN_PATH_LENGTH_def toy_path_def)
  moreover have "mset (take n xs) \<subseteq># mset xs \<and> length (take n xs) = n" if "n \<le> length xs" for n and xs :: "mix_node list"
    using that by (metis append_take_drop_id length_take min.absorb2 mset_append mset_subset_eq_add_left)
  moreover have "distinct toy_path"
    by (simp add: toy_path_def)
  ultimately show ?thesis
    using chosen_paths_are_long_enough [of "\<lambda>xs n. take n xs" toy_path 3 "take 3 toy_path"] by blast
qed

end
