(* ===== verification/Transport.thy ===== *)
theory Transport
  imports Envelope Mixnet
begin

text \<open>
  The transports of the protocol crate (\<open>protocol/src/transport.rs\<close>): direct HTTP to the relay
  and Sphinx mix routing, and the combination of a primary and a fallback transport
  (\<open>mesh/src/hybrid.rs\<close>).  The HTTP client is the record \<open>http\<close> over a state of the network
  that every request passes through, and which changes while a client waits; the JSON encodings are its
  parameters too.
\<close>

section \<open>The HTTP client\<close>

record http_response =
  status :: nat
  messages_json :: "(message_envelope list, string) result"

record 'n http =
  post_json :: "string \<Rightarrow> message_envelope \<Rightarrow> 'n \<Rightarrow> (http_response, string) result \<times> 'n"
  post_body :: "string \<Rightarrow> bytes \<Rightarrow> 'n \<Rightarrow> (http_response, string) result \<times> 'n"
  http_get :: "string \<Rightarrow> 'n \<Rightarrow> (http_response, string) result \<times> 'n"
  error_for_status :: "http_response \<Rightarrow> (http_response, string) result"
  envelope_to_json :: "message_envelope \<Rightarrow> (bytes, string) result"
  pull_to_json :: "pull_request \<Rightarrow> (bytes, string) result"
  wait :: "duration \<Rightarrow> 'n \<Rightarrow> 'n"

section \<open>Direct transport\<close>

record direct_transport =
  relay_base_url :: string

definition message_url :: "string \<Rightarrow> string \<Rightarrow> string" where
  "message_url base recipient = base @ ''/v1/messages/'' @ recipient"

definition direct_send ::
  "'n http \<Rightarrow> direct_transport \<Rightarrow> message_envelope \<Rightarrow> 'n \<Rightarrow> unit parda \<times> 'n" where
  "direct_send H t e n =
    (let (r, n') = post_json H (message_url (relay_base_url t) (recipient_id e)) e n in
     (and_then (map_err Transport r) (\<lambda>resp.
      and_then (map_err Transport (error_for_status H resp)) (\<lambda>_. Ok ())), n'))"

definition fetched_messages :: "'n http \<Rightarrow> (http_response, string) result \<Rightarrow> message_envelope list parda" where
  "fetched_messages H r =
    and_then (map_err Transport r) (\<lambda>resp.
    and_then (map_err Transport (error_for_status H resp)) (\<lambda>resp.
    map_err Transport (messages_json resp)))"

definition direct_receive ::
  "'n http \<Rightarrow> direct_transport \<Rightarrow> string \<Rightarrow> 'n \<Rightarrow> message_envelope list parda \<times> 'n" where
  "direct_receive H t recipient n =
    (let (r, n') = http_get H (message_url (relay_base_url t) recipient) n
     in (fetched_messages H r, n'))"

section \<open>Mix transport\<close>

definition DEFAULT_AVG_DELAY :: duration where
  "DEFAULT_AVG_DELAY = 200 * 1000000"

record mix_transport =
  topology :: "mix_node list"
  path_length :: nat
  avg_delay :: duration
  payload_size :: nat
  mix_relay_base_url :: string

definition new_mix_transport :: "mix_node list \<Rightarrow> string \<Rightarrow> mix_transport" where
  "new_mix_transport nodes url =
    \<lparr>topology = nodes, path_length = MIN_PATH_LENGTH, avg_delay = DEFAULT_AVG_DELAY,
     payload_size = DEFAULT_MIX_PAYLOAD_SIZE, mix_relay_base_url = url\<rparr>"

definition with_path_length :: "nat \<Rightarrow> mix_transport \<Rightarrow> mix_transport" where
  "with_path_length n t = t\<lparr>path_length := n\<rparr>"

definition with_avg_delay :: "duration \<Rightarrow> mix_transport \<Rightarrow> mix_transport" where
  "with_avg_delay d t = t\<lparr>avg_delay := d\<rparr>"

definition with_payload_size :: "nat \<Rightarrow> mix_transport \<Rightarrow> mix_transport" where
  "with_payload_size n t = t\<lparr>payload_size := n\<rparr>"

text \<open>\<open>gen_range\<close> draws from a range that excludes its end.\<close>

definition PULL_RETRIEVAL_DELAY_RANGE_MS :: "u64 set" where
  "PULL_RETRIEVAL_DELAY_RANGE_MS = {50..<300}"

text \<open>
  The random draws of a send: the path and the per-hop delays; those of a pull: its token and
  the wait, a member of \<open>PULL_RETRIEVAL_DELAY_RANGE_MS\<close>.
\<close>

record mix_random =
  pick_path :: "mix_node list \<Rightarrow> nat \<Rightarrow> mix_node list"
  draw_delays :: "nat \<Rightarrow> duration \<Rightarrow> duration list"
  token_bytes :: bytes
  hex_of :: "bytes \<Rightarrow> string"
  retrieval_delay_ms :: u64

definition packet_url :: "string \<Rightarrow> string" where
  "packet_url host = ''http://'' @ host @ ''/mix/packet''"

text \<open>
  The POST of a packet to the first hop; \<open>path[0]\<close> panics on an empty path, which no path
  that a packet was built for is.
\<close>

definition post_first_hop ::
  "'n http \<Rightarrow> string \<Rightarrow> string \<Rightarrow> mix_node list \<Rightarrow> bytes \<Rightarrow> 'n \<Rightarrow> unit parda \<times> 'n" where
  "post_first_hop H unreachable rejected path packet n =
    (let (r, n') = post_body H (packet_url (node_address (hd path))) packet n in
     (and_then (map_err (\<lambda>e. Transport (unreachable @ e)) r) (\<lambda>resp.
      and_then (map_err (\<lambda>e. Transport (rejected @ e)) (error_for_status H resp)) (\<lambda>_. Ok ())), n'))"

definition mix_send ::
  "'n http \<Rightarrow> sphinx_lib \<Rightarrow> mix_random \<Rightarrow> mix_transport \<Rightarrow> message_envelope \<Rightarrow> 'n \<Rightarrow> unit parda \<times> 'n" where
  "mix_send H S R t e n =
    (case and_then (choose_path (pick_path R) (topology t) (path_length t)) (\<lambda>path.
          and_then (map_err Codec (envelope_to_json H e)) (\<lambda>bs.
          and_then (build_packet S (draw_delays R) bs path (avg_delay t) (payload_size t)) (\<lambda>packet.
          Ok (path, packet)))) of
       Err x \<Rightarrow> (Err x, n)
     | Ok (path, packet) \<Rightarrow>
         post_first_hop H ''mix network first hop unreachable: ''
           ''mix network first hop rejected packet: '' path packet n)"

definition mix_receive ::
  "'n http \<Rightarrow> sphinx_lib \<Rightarrow> mix_random \<Rightarrow> mix_transport \<Rightarrow> string \<Rightarrow> 'n \<Rightarrow> message_envelope list parda \<times> 'n" where
  "mix_receive H S R t recipient n =
    (let request = new_pull_request (hex_of R) (token_bytes R) recipient in
     case and_then (map_err Codec (pull_to_json H request)) (\<lambda>bs.
          and_then (choose_path (pick_path R) (topology t) (path_length t)) (\<lambda>path.
          and_then (build_packet_to S (draw_delays R) bs path (avg_delay t) (payload_size t)
              PULL_DESTINATION_TAG) (\<lambda>packet.
          Ok (path, packet)))) of
       Err x \<Rightarrow> (Err x, n)
     | Ok (path, packet) \<Rightarrow>
         (case post_first_hop H ''mix network first hop unreachable for pull request: ''
             ''mix network first hop rejected pull request: '' path packet n of
            (Err x, n') \<Rightarrow> (Err x, n')
          | (Ok _, n') \<Rightarrow>
              let (r, n'') = http_get H (mix_relay_base_url t @ ''/v1/pulls/'' @ rendezvous_token request)
                (wait H (from_millis (retrieval_delay_ms R)) n')
              in (fetched_messages H r, n'')))"

section \<open>Hybrid transport\<close>

text \<open>
  \<open>HybridTransport\<close> is generic in its two transports: their operations are arguments, over
  one state that both act on.
\<close>

definition hybrid_send ::
  "(message_envelope \<Rightarrow> 's \<Rightarrow> unit parda \<times> 's) \<Rightarrow> (message_envelope \<Rightarrow> 's \<Rightarrow> unit parda \<times> 's)
    \<Rightarrow> message_envelope \<Rightarrow> 's \<Rightarrow> unit parda \<times> 's" where
  "hybrid_send primary fallback e s =
    (case primary e s of
       (Ok _, s') \<Rightarrow> (Ok (), s')
     | (Err _, s') \<Rightarrow> fallback (e\<lparr>recipient_id := []\<rparr>) s')"

definition hybrid_receive ::
  "(string \<Rightarrow> 's \<Rightarrow> message_envelope list parda \<times> 's) \<Rightarrow> (string \<Rightarrow> 's \<Rightarrow> message_envelope list parda \<times> 's)
    \<Rightarrow> string \<Rightarrow> 's \<Rightarrow> message_envelope list parda \<times> 's" where
  "hybrid_receive primary fallback recipient s =
    (let (r, s') = primary recipient s;
         combined = (case r of Ok es \<Rightarrow> es | Err _ \<Rightarrow> []);
         (q, s'') = fallback recipient s'
     in (Ok (case q of Ok from_mesh \<Rightarrow> combined @ from_mesh | Err _ \<Rightarrow> combined), s''))"

section \<open>Carriers that learn no identity\<close>

text \<open>
  The contract the mesh transport offers and the hybrid transport relies on for its
  fallback: what it accepts names neither sender nor recipient.  \<open>carried\<close> is the part of
  the state that holds what was handed over.
\<close>

definition anonymous :: "message_envelope \<Rightarrow> bool" where
  "anonymous e \<longleftrightarrow> sealed_sender e \<and> sender_id e = [] \<and> recipient_id e = []"

locale anonymous_carrier =
  fixes send :: "message_envelope \<Rightarrow> 's \<Rightarrow> unit parda \<times> 's"
    and carried :: "'s \<Rightarrow> 'c"
  assumes accepts_anonymous: "send e s = (Ok (), s') \<Longrightarrow> anonymous e"
    and refusal_carries_nothing: "send e s = (Err x, s') \<Longrightarrow> carried s' = carried s"
begin

lemma named_sender_is_refused:
  "\<not> sealed_sender e \<or> sender_id e \<noteq> [] \<Longrightarrow>
    (\<exists>x s'. send (e\<lparr>recipient_id := []\<rparr>) s = (Err x, s') \<and> carried s' = carried s)"
proof -
  assume named: "\<not> sealed_sender e \<or> sender_id e \<noteq> []"
  obtain r s' where r: "send (e\<lparr>recipient_id := []\<rparr>) s = (r, s')"
    by (metis prod.exhaust)
  have "\<not> anonymous (e\<lparr>recipient_id := []\<rparr>)"
    using named by (auto simp: anonymous_def)
  then show ?thesis
    using r accepts_anonymous refusal_carries_nothing by (cases r) auto
qed

lemma hybrid_fallback_anonymous:
  assumes "hybrid_send primary send e s = (Ok (), s')" "primary e s = (Err x, t)"
  shows "sealed_sender e \<and> sender_id e = [] \<and> send (e\<lparr>recipient_id := []\<rparr>) t = (Ok (), s')"
  using assms accepts_anonymous [of "e\<lparr>recipient_id := []\<rparr>" t s']
  by (auto simp: hybrid_send_def anonymous_def)

lemma hybrid_refusal_carries_nothing:
  assumes "primary e s = (Err x, t)" "carried t = carried s" "\<not> sealed_sender e \<or> sender_id e \<noteq> []"
  shows "\<exists>y s'. hybrid_send primary send e s = (Err y, s') \<and> carried s' = carried s"
  using named_sender_is_refused [OF assms(3), of t] assms(1,2) by (auto simp: hybrid_send_def)

end

section \<open>Properties\<close>

text \<open>
  C31: Mix routing never falls back: whatever fails, sending a message over the mix network
  either makes no request at all or exactly one, the POST of a Sphinx packet to the first
  node of a path of the topology, and it reports success only if that request did.
\<close>

theorem mix_send_never_goes_direct:
  assumes "mix_send H S R t e n = (r, n')"
  shows "(\<exists>x. r = Err x \<and> n' = n)
    \<or> (\<exists>path packet bs resp. choose_path (pick_path R) (topology t) (path_length t) = Ok path
        \<and> envelope_to_json H e = Ok bs
        \<and> build_packet S (draw_delays R) bs path (avg_delay t) (payload_size t) = Ok packet
        \<and> post_body H (packet_url (node_address (hd path))) packet n = (resp, n')
        \<and> (r = Ok () \<longleftrightarrow> (\<exists>a b. resp = Ok a \<and> error_for_status H a = Ok b)))"
proof (cases "and_then (choose_path (pick_path R) (topology t) (path_length t)) (\<lambda>path.
          and_then (map_err Codec (envelope_to_json H e)) (\<lambda>bs.
          and_then (build_packet S (draw_delays R) bs path (avg_delay t) (payload_size t)) (\<lambda>packet.
          Ok (path, packet))))")
  case (Err x)
  then show ?thesis
    using assms by (auto simp: mix_send_def)
next
  case (Ok pp)
  then obtain path bs packet where *: "pp = (path, packet)"
    "choose_path (pick_path R) (topology t) (path_length t) = Ok path" "envelope_to_json H e = Ok bs"
    "build_packet S (draw_delays R) bs path (avg_delay t) (payload_size t) = Ok packet"
    by (auto simp: and_then_Ok_iff)
  obtain resp n1 where resp: "post_body H (packet_url (node_address (hd path))) packet n = (resp, n1)"
    by (metis prod.exhaust)
  then have "n1 = n' \<and> (r = Ok () \<longleftrightarrow> (\<exists>a b. resp = Ok a \<and> error_for_status H a = Ok b))"
    using assms Ok by (auto simp: mix_send_def *(1) post_first_hop_def and_then_Ok_iff)
  then show ?thesis
    using * resp by blast
qed

text \<open>A network that records its requests, for the witnesses.\<close>

definition logging_http :: "string list http" where
  "logging_http = \<lparr>
     post_json = (\<lambda>url e n. (Ok \<lparr>status = 200, messages_json = Ok []\<rparr>, n @ [url])),
     post_body = (\<lambda>url b n. (Err ''down'', n @ [url])),
     http_get = (\<lambda>url n. (Ok \<lparr>status = 200, messages_json = Ok []\<rparr>, n @ [url])),
     error_for_status = (\<lambda>r. if 400 \<le> status r then Err ''status'' else Ok r),
     envelope_to_json = (\<lambda>e. Ok []), pull_to_json = (\<lambda>p. Ok []), wait = (\<lambda>d n. n)\<rparr>"

definition toy_random :: mix_random where
  "toy_random = \<lparr>pick_path = (\<lambda>xs n. take n xs), draw_delays = (\<lambda>n d. replicate n d),
     token_bytes = [1], hex_of = of_utf8, retrieval_delay_ms = 50\<rparr>"

definition plain_envelope :: message_envelope where
  "plain_envelope = \<lparr>sender_id = ''alice'', recipient_id = ''bob'', ciphertext = [1], env_type = Ratchet,
     timestamp_ms = 5, version = 2, sealed_sender = False, routing_hint = None,
     self_destruct_at = None, read_triggered_destruct = False, dead_drop_address = None\<rparr>"

theorem mix_send_never_goes_direct_witness:
  "\<exists>x. mix_send logging_http toy_sphinx toy_random (new_mix_transport toy_path ''http://relay'')
      plain_envelope [] = (Err x, [''http://a:1/mix/packet''])"
proof -
  obtain r n' where r: "mix_send logging_http toy_sphinx toy_random (new_mix_transport toy_path ''http://relay'')
      plain_envelope [] = (r, n')"
    by (metis prod.exhaust)
  have "\<exists>x. r = Err x \<and> n' = [''http://a:1/mix/packet'']"
    using mix_send_never_goes_direct [OF r] r
    by (auto simp: logging_http_def toy_random_def new_mix_transport_def toy_path_def choose_path_def
        MIN_PATH_LENGTH_def packet_url_def mix_send_def build_packet_def build_packet_to_def
        encode_node_address_def encode_fixed_def tagged_destination_def toy_sphinx_def
        RELAY_DESTINATION_TAG_def post_first_hop_def)
  then show ?thesis
    using r by blast
qed

text \<open>
  The direct connection of a mix pull names only the one-time rendezvous token: its
  request is the same for every recipient, and it is made only after the pull request went
  into the mix network successfully.
\<close>

theorem pull_retrieval_hides_recipient:
  assumes "mix_receive H S R t recipient n = (r, n')"
  shows "(\<exists>x. r = Err x \<and> n' = n)
    \<or> (\<exists>path packet resp n1. choose_path (pick_path R) (topology t) (path_length t) = Ok path
        \<and> post_body H (packet_url (node_address (hd path))) packet n = (resp, n1)
        \<and> (if \<exists>a b. resp = Ok a \<and> error_for_status H a = Ok b
           then \<exists>got. http_get H (mix_relay_base_url t @ ''/v1/pulls/'' @ hex_of R (token_bytes R))
               (wait H (from_millis (retrieval_delay_ms R)) n1) = (got, n')
             \<and> r = fetched_messages H got
           else n' = n1 \<and> (\<exists>x. r = Err x)))"
proof (cases "and_then (map_err Codec (pull_to_json H (new_pull_request (hex_of R) (token_bytes R) recipient)))
    (\<lambda>bs. and_then (choose_path (pick_path R) (topology t) (path_length t)) (\<lambda>path.
          and_then (build_packet_to S (draw_delays R) bs path (avg_delay t) (payload_size t)
              PULL_DESTINATION_TAG) (\<lambda>packet.
          Ok (path, packet))))")
  case (Err x)
  then show ?thesis
    using assms by (auto simp: mix_receive_def)
next
  case (Ok pp)
  then obtain path packet where *: "pp = (path, packet)"
    "choose_path (pick_path R) (topology t) (path_length t) = Ok path"
    by (auto simp: and_then_Ok_iff)
  obtain resp n1 where resp: "post_body H (packet_url (node_address (hd path))) packet n = (resp, n1)"
    by (metis prod.exhaust)
  have tok: "rendezvous_token (new_pull_request (hex_of R) (token_bytes R) recipient) = hex_of R (token_bytes R)"
    by (simp add: new_pull_request_def)
  show ?thesis
  proof (cases "\<exists>a b. resp = Ok a \<and> error_for_status H a = Ok b")
    case True
    then have got: "\<exists>got. http_get H (mix_relay_base_url t @ ''/v1/pulls/'' @ hex_of R (token_bytes R))
               (wait H (from_millis (retrieval_delay_ms R)) n1) = (got, n')
        \<and> r = fetched_messages H got"
      using assms Ok by (auto simp: mix_receive_def *(1) post_first_hop_def resp tok Let_def split: prod.splits)
    show ?thesis
      by (intro disjI2 exI conjI) (rule *(2), rule resp, subst if_P [OF True], rule got)
  next
    case False
    then have failed: "n' = n1 \<and> (\<exists>x. r = Err x)"
      using assms Ok
      by (cases resp; cases "error_for_status H (case resp of Ok a \<Rightarrow> a)")
        (auto simp: mix_receive_def *(1) post_first_hop_def resp Let_def)
    show ?thesis
      by (intro disjI2 exI conjI) (rule *(2), rule resp, subst if_not_P [OF False], rule failed)
  qed
qed

theorem pull_retrieval_hides_recipient_witness:
  "\<exists>x. mix_receive logging_http toy_sphinx toy_random (new_mix_transport toy_path ''http://relay'') ''bob'' []
      = (Err x, [''http://a:1/mix/packet''])"
proof -
  obtain r n' where r: "mix_receive logging_http toy_sphinx toy_random
      (new_mix_transport toy_path ''http://relay'') ''bob'' [] = (r, n')"
    by (metis prod.exhaust)
  have "n' \<noteq> []"
    using r by (auto simp: logging_http_def toy_random_def new_mix_transport_def toy_path_def choose_path_def
        MIN_PATH_LENGTH_def mix_receive_def build_packet_to_def Let_def
        encode_node_address_def encode_fixed_def tagged_destination_def toy_sphinx_def
        PULL_DESTINATION_TAG_def post_first_hop_def)
  then have "\<exists>x. r = Err x \<and> n' = [''http://a:1/mix/packet'']"
    using pull_retrieval_hides_recipient [OF r]
    by (auto simp: logging_http_def toy_random_def new_mix_transport_def toy_path_def choose_path_def
        MIN_PATH_LENGTH_def packet_url_def)
  then show ?thesis
    using r by blast
qed

text \<open>
  A hybrid poll never fails because one path is down: it returns the messages of the
  primary followed by those of the fallback, leaving out exactly the paths that failed.
\<close>

theorem hybrid_receive_merges:
  assumes "primary recipient s = (r, s1)" "fallback recipient s1 = (q, s2)"
  shows "hybrid_receive primary fallback recipient s =
    (Ok ((if is_ok r then (case r of Ok es \<Rightarrow> es) else []) @ (if is_ok q then (case q of Ok es \<Rightarrow> es) else [])), s2)"
  using assms by (cases r; cases q) (simp_all add: hybrid_receive_def)

theorem hybrid_receive_merges_witness:
  "hybrid_receive (\<lambda>r s. (Err (Transport ''down''), s)) (\<lambda>r s. (Ok [plain_envelope], s)) ''bob'' ()
    = (Ok [plain_envelope], ())"
  using hybrid_receive_merges [of "\<lambda>r s. (Err (Transport ''down''), s)" "''bob''" "()" _ "()"
      "\<lambda>r s. (Ok [plain_envelope], s)" _ "()"] by simp

end
