(* ===== verification/Mesh_Transport.thy ===== *)
theory Mesh_Transport
  imports Relay Dead_Drop Transport
begin

text \<open>
  The mesh node and the mesh transport (\<open>mesh/src/transport.rs\<close>): one propagation pass over
  the visible peers, and the dead-drop channel of one conversation, with its send counter,
  its receive watermark and the indices claimed ahead of it.  The local relay is shared
  with the rest of the node and is the other half of the state (\<open>mesh_world\<close>).  The claimed
  indices, a \<open>HashSet\<close> in the code, are a list without repetitions.
\<close>

section \<open>One propagation pass\<close>

text \<open>
  The peers are visited in the order of the scan; connecting and syncing act on a state of
  the node and its surroundings.
\<close>

fun sync_all ::
  "('h \<Rightarrow> 's \<Rightarrow> 'l mesh \<times> 's) \<Rightarrow> ('l \<Rightarrow> 's \<Rightarrow> nat mesh \<times> 's) \<Rightarrow> 'h list \<Rightarrow> nat \<Rightarrow> 's \<Rightarrow> nat \<times> 's" where
  "sync_all connect sync [] admitted_total s = (admitted_total, s)"
| "sync_all connect sync (h # hs) admitted_total s =
    (case connect h s of
       (Err _, s') \<Rightarrow> sync_all connect sync hs admitted_total s'
     | (Ok link, s') \<Rightarrow>
         (case sync link s' of
            (Ok n, s'') \<Rightarrow> sync_all connect sync hs (admitted_total + n) s''
          | (Err _, s'') \<Rightarrow> sync_all connect sync hs admitted_total s''))"

definition sync_once ::
  "('s \<Rightarrow> 'h list mesh \<times> 's) \<Rightarrow> ('h \<Rightarrow> 's \<Rightarrow> 'l mesh \<times> 's) \<Rightarrow> ('l \<Rightarrow> 's \<Rightarrow> nat mesh \<times> 's) \<Rightarrow> 's
    \<Rightarrow> nat mesh \<times> 's" where
  "sync_once scan connect sync s =
    (case scan s of
       (Err e, s') \<Rightarrow> (Err e, s')
     | (Ok sightings, s') \<Rightarrow>
         let (admitted_total, s'') = sync_all connect sync sightings 0 s' in (Ok admitted_total, s''))"

section \<open>The transport of one conversation\<close>

definition DEFAULT_ADDRESS_WINDOW :: nat where
  "DEFAULT_ADDRESS_WINDOW = 8"

definition DEFAULT_DECOYS_PER_REAL :: nat where
  "DEFAULT_DECOYS_PER_REAL = 7"

record mesh_transport =
  mt_tag_key :: tag_key
  send_counter :: u64
  low_watermark :: u64
  claimed_ahead :: "u64 list"
  mt_window :: nat
  mt_decoys_per_real :: nat

record mesh_world =
  mw_transport :: mesh_transport
  mw_relay :: relay_store

definition new_mesh_transport :: "tag_key \<Rightarrow> mesh_transport" where
  "new_mesh_transport tag =
    \<lparr>mt_tag_key = tag, send_counter = 0, low_watermark = 0, claimed_ahead = [],
     mt_window = DEFAULT_ADDRESS_WINDOW, mt_decoys_per_real = DEFAULT_DECOYS_PER_REAL\<rparr>"

definition with_window :: "nat \<Rightarrow> mesh_transport \<Rightarrow> mesh_transport" where
  "with_window w t = t\<lparr>mt_window := w\<rparr>"

definition with_decoys_per_real :: "nat \<Rightarrow> mesh_transport \<Rightarrow> mesh_transport" where
  "with_decoys_per_real d t = t\<lparr>mt_decoys_per_real := d\<rparr>"

definition next_send_address :: "dd_crypto \<Rightarrow> mesh_transport \<Rightarrow> dd_address" where
  "next_send_address c t = address_for c (mt_tag_key t) (send_counter t)"

definition advance_send_counter :: "mesh_transport \<Rightarrow> mesh_transport" where
  "advance_send_counter t = t\<lparr>send_counter := send_counter t + 1\<rparr>"

definition mesh_refusal :: string where
  "mesh_refusal = ''MeshTransport::send refuses an envelope that isn't sealed_sender=true with ''
     @ ''empty sender_id/recipient_id '' @ em_dash @ '' a mesh carrier would otherwise learn identity ''
     @ ''metadata the blinded address exists specifically to avoid leaking; see ''
     @ ''docs/phase4-4c-dead-drop-addressing-design.md''"

text \<open>
  \<open>show_err\<close> renders a mesh error; \<open>wall\<close> is the wall-clock reading of \<open>wrap\<close>, \<open>now\<close> the one
  of the admission.
\<close>

definition mesh_send ::
  "relay_lib \<Rightarrow> relay_config \<Rightarrow> (mesh_error \<Rightarrow> string) \<Rightarrow> string \<Rightarrow> int \<Rightarrow> u64
    \<Rightarrow> message_envelope \<Rightarrow> mesh_world \<Rightarrow> unit parda \<times> mesh_world" where
  "mesh_send L cfg show_err clock_err wall now e w =
    (if \<not> sealed_sender e \<or> sender_id e \<noteq> [] \<or> recipient_id e \<noteq> [] then (Err (Transport mesh_refusal), w)
     else case dead_drop_address e of
       None \<Rightarrow> (Err (Transport (''MeshTransport::send requires envelope.dead_drop_address to be set ''
           @ ''(see MeshTransport::next_send_address)'')), w)
     | Some address \<Rightarrow>
         (case wrap (codec L) clock_err wall e address of
            Err x \<Rightarrow> (Err (Transport (''mesh bundle framing failed: '' @ show_err x)), w)
          | Ok bs \<Rightarrow>
              (case admit L cfg now bs (mw_relay w) of
                 (Err x, s) \<Rightarrow>
                   (Err (Transport (''local relay refused own outgoing bundle: '' @ show_err x)), w\<lparr>mw_relay := s\<rparr>)
               | (Ok _, s) \<Rightarrow>
                   (Ok (), \<lparr>mw_transport = advance_send_counter (mw_transport w), mw_relay = s\<rparr>))))"

fun position :: "('a \<Rightarrow> bool) \<Rightarrow> 'a list \<Rightarrow> nat option" where
  "position P [] = None"
| "position P (x # xs) = (if P x then Some 0 else map_option Suc (position P xs))"

text \<open>The bundles taken from the relay that belong to the window, with their indices.\<close>

definition claim_bundles ::
  "bundle_lib \<Rightarrow> u64 \<Rightarrow> dd_address list \<Rightarrow> bytes list \<Rightarrow> (u64 \<times> message_envelope) list" where
  "claim_bundles B window_start window_addresses taken =
    List.map_filter (\<lambda>bs. case unwrap B bs of
        Err _ \<Rightarrow> None
      | Ok (address, e) \<Rightarrow>
          map_option (\<lambda>offset. (window_start + of_nat offset, e)) (position (\<lambda>a. a = address) window_addresses))
      taken"

function advance :: "u64 \<Rightarrow> u64 list \<Rightarrow> u64 \<times> u64 list" where
  "advance watermark ahead =
    (if watermark \<in> set ahead then advance (watermark + 1) (removeAll watermark ahead)
     else (watermark, ahead))"
  by pat_completeness auto
termination
  by (relation "measure (length \<circ> snd)") (auto simp: length_removeAll_less)

declare advance.simps [simp del]

text \<open>
  \<open>receive\<close> up to its second critical section: poll, take and decode; then the watermark is
  moved past every contiguously claimed index.
\<close>

definition receive_claims ::
  "relay_lib \<Rightarrow> dd_crypto \<Rightarrow> (nat \<Rightarrow> dd_address) \<Rightarrow> (dd_address list \<Rightarrow> dd_address list)
    \<Rightarrow> mesh_transport \<Rightarrow> relay_store \<Rightarrow> (u64 \<times> message_envelope) list \<times> relay_store" where
  "receive_claims L c random_decoy shuffle t s =
    (let window_start = low_watermark t;
         poll_set = build_poll_set c random_decoy shuffle (mt_tag_key t) window_start (mt_window t)
           (mt_decoys_per_real t);
         window_addresses = address_window c (mt_tag_key t) window_start (mt_window t);
         (taken, s') = take_for_addresses poll_set s
     in (claim_bundles (codec L) window_start window_addresses taken, s'))"

definition record_claims :: "u64 list \<Rightarrow> mesh_transport \<Rightarrow> mesh_transport" where
  "record_claims newly_claimed t =
    (let ahead = fold List.insert newly_claimed (claimed_ahead t);
         (low, ahead') = advance (low_watermark t) ahead
     in t\<lparr>low_watermark := low, claimed_ahead := ahead'\<rparr>)"

definition mesh_receive ::
  "relay_lib \<Rightarrow> dd_crypto \<Rightarrow> (nat \<Rightarrow> dd_address) \<Rightarrow> (dd_address list \<Rightarrow> dd_address list)
    \<Rightarrow> string \<Rightarrow> mesh_world \<Rightarrow> message_envelope list parda \<times> mesh_world" where
  "mesh_receive L c random_decoy shuffle recipient w =
    (let (claims, s) = receive_claims L c random_decoy shuffle (mw_transport w) (mw_relay w)
     in (Ok (map snd claims),
         \<lparr>mw_transport = record_claims (map fst claims) (mw_transport w), mw_relay = s\<rparr>))"

text \<open>The contents of a relay.\<close>

definition held_bytes :: "relay_store \<Rightarrow> bytes set" where
  "held_bytes s = (sb_bytes \<circ> snd) ` set (by_hash s)"

section \<open>Sending\<close>

lemma mesh_send_Ok:
  assumes "mesh_send L cfg se ce wall now e w = (Ok (), w')"
  obtains a bs s where "anonymous e" "dead_drop_address e = Some a" "wrap (codec L) ce wall e a = Ok bs"
    "admit L cfg now bs (mw_relay w) = (Ok (), s)"
    "w' = \<lparr>mw_transport = advance_send_counter (mw_transport w), mw_relay = s\<rparr>"
  using assms unfolding mesh_send_def anonymous_def
  by (auto split: if_splits option.splits result.splits prod.splits)

lemma admit_Err: "admit L cfg now bs s = (Err x, s') \<Longrightarrow> s' = s"
  unfolding admit_def by (cases rule: admit_checked_cases) auto

lemma mesh_send_Err: "mesh_send L cfg se ce wall now e w = (Err x, w') \<Longrightarrow> w' = w"
  unfolding mesh_send_def
  by (auto split: if_splits option.splits result.splits prod.splits dest!: admit_Err)

interpretation mesh_carrier: anonymous_carrier "mesh_send L cfg se ce wall now" mw_relay
  by unfold_locales (auto elim: mesh_send_Ok dest: mesh_send_Err)

section \<open>The watermark\<close>

lemma advance_spec:
  assumes "\<forall>n \<in> set ahead. unat n + 1 < 2 ^ 64" "distinct ahead" "advance w ahead = (w', ahead')"
  shows "w \<le> w' \<and> {n. w \<le> n \<and> n < w'} \<subseteq> set ahead \<and> set ahead' = set ahead - {n. w \<le> n \<and> n < w'}
    \<and> w' \<notin> set ahead' \<and> distinct ahead' \<and> unat w' + length ahead' = unat w + length ahead"
  using assms
proof (induction w ahead rule: advance.induct)
  case (1 w ahead)
  show ?case
  proof (cases "w \<in> set ahead")
    case True
    then have no_wrap: "unat (w + 1) = unat w + 1"
      using "1.prems"(1) by (simp add: unat_word_ariths)
    then have split: "{n. w \<le> n \<and> n < w'} = insert w {n. w + 1 \<le> n \<and> n < w'}" if "w + 1 \<le> w'" for w' :: u64
      using that by (auto simp: word_le_nat_alt word_less_nat_alt Suc_le_eq le_less dest: unat_eqD)
    have len: "length ahead = Suc (length (removeAll w ahead))"
      using "1.prems"(2) True by (simp add: distinct_remove1_removeAll [symmetric] length_remove1) (cases ahead; simp)
    have "advance (w + 1) (removeAll w ahead) = (w', ahead')"
      using "1.prems"(3) True by (simp add: advance.simps [of w])
    moreover have "\<forall>n \<in> set (removeAll w ahead). unat n + 1 < 2 ^ 64" "distinct (removeAll w ahead)"
      using "1.prems"(1,2) by (auto simp: distinct_removeAll)
    ultimately have ih: "w + 1 \<le> w'" "{n. w + 1 \<le> n \<and> n < w'} \<subseteq> set (removeAll w ahead)"
      "set ahead' = set (removeAll w ahead) - {n. w + 1 \<le> n \<and> n < w'}"
      "w' \<notin> set ahead'" "distinct ahead'"
      "unat w' + length ahead' = unat (w + 1) + length (removeAll w ahead)"
      using "1.IH" [OF True] by blast+
    have "w \<le> w'"
      using no_wrap ih(1) by (simp add: word_le_nat_alt)
    moreover have "unat w' + length ahead' = unat w + length ahead"
      using ih(6) no_wrap len by linarith
    moreover have "{n. w \<le> n \<and> n < w'} \<subseteq> set ahead"
      using ih(2) True by (auto simp: split [OF ih(1)])
    moreover have "set ahead' = set ahead - {n. w \<le> n \<and> n < w'}"
      using ih(3) by (auto simp: split [OF ih(1)])
    ultimately show ?thesis
      using ih(4,5) by blast
  next
    case False
    then show ?thesis
      using "1.prems" by (auto simp: advance.simps [of w])
  qed
qed

lemma set_fold_insert: "set (fold List.insert xs ys) = set xs \<union> set ys"
  by (induction xs arbitrary: ys) auto

lemma distinct_fold_insert: "distinct ys \<Longrightarrow> distinct (fold List.insert xs ys)"
  by (induction xs arbitrary: ys) auto

lemma length_fold_insert: "length (fold List.insert xs ys) \<le> length xs + length ys"
proof (induction xs arbitrary: ys)
  case (Cons x xs)
  have "length (List.insert x ys) \<le> Suc (length ys)"
    by (simp add: List.insert_def)
  then show ?case
    using Cons.IH [of "List.insert x ys"] by simp
qed simp

text \<open>What is known of a transport that has claimed the indices \<open>C\<close> so far.\<close>

definition claims_inv :: "mesh_transport \<Rightarrow> u64 list \<Rightarrow> bool" where
  "claims_inv t C \<longleftrightarrow>
    distinct (claimed_ahead t) \<and> low_watermark t \<notin> set (claimed_ahead t)
    \<and> set C = {n. n < low_watermark t} \<union> set (claimed_ahead t)
    \<and> (\<forall>n \<in> set (claimed_ahead t). low_watermark t < n)
    \<and> unat (low_watermark t) + length (claimed_ahead t) \<le> length C
    \<and> (\<forall>n \<in> set (claimed_ahead t). unat n < unat (low_watermark t) + mt_window t)"

lemma claims_inv_advance:
  assumes "claims_inv t C" "\<forall>n \<in> set N. unat (low_watermark t) \<le> unat n \<and> unat n < unat (low_watermark t) + mt_window t"
    and "length C + mt_window t < 2 ^ 64"
    and "advance (low_watermark t) (fold List.insert N (claimed_ahead t)) = (low, ahead)"
  shows "claims_inv (t\<lparr>low_watermark := low, claimed_ahead := ahead\<rparr>) (C @ N)"
proof -
  let ?F = "fold List.insert N (claimed_ahead t)"
  note inv = assms(1) [unfolded claims_inv_def]
  have bound: "\<forall>n \<in> set ?F. unat n < unat (low_watermark t) + mt_window t"
    using inv assms(2) by (auto simp: set_fold_insert)
  then have "\<forall>n \<in> set ?F. unat n + 1 < 2 ^ 64"
    using inv assms(3) by fastforce
  from advance_spec [OF this distinct_fold_insert assms(4)] inv
  have adv: "low_watermark t \<le> low" "{n. low_watermark t \<le> n \<and> n < low} \<subseteq> set ?F"
    "set ahead = set ?F - {n. low_watermark t \<le> n \<and> n < low}" "low \<notin> set ahead" "distinct ahead"
    "unat low + length ahead = unat (low_watermark t) + length ?F"
    by auto
  have ge: "\<forall>n \<in> set ?F. low_watermark t \<le> n"
    using inv assms(2) by (auto simp: set_fold_insert word_le_nat_alt word_less_nat_alt)
  have "low < n" if "n \<in> set ahead" for n
    using that adv(3,4) ge by (metis (mono_tags, lifting) DiffE linorder_neqE mem_Collect_eq)
  moreover have "x \<in> set (C @ N) \<longleftrightarrow> x < low \<or> x \<in> set ahead" for x
    using inv adv(1,2,3) ge by (cases "x < low_watermark t") (auto simp: set_fold_insert not_less)
  then have "set (C @ N) = {n. n < low} \<union> set ahead"
    by blast
  moreover have "unat n < unat low + mt_window t" if "n \<in> set ahead" for n
    using that bound adv(1,3) by (fastforce simp: word_le_nat_alt)
  ultimately show ?thesis
    using adv(4-6) inv length_fold_insert [of N "claimed_ahead t"] by (simp add: claims_inv_def)
qed

section \<open>Receiving\<close>

lemma position_Some: "position P xs = Some i \<Longrightarrow> i < length xs \<and> P (xs ! i)"
  by (induction xs arbitrary: i) (auto split: if_splits)

lemma position_None: "position P xs = None \<longleftrightarrow> (\<forall>x \<in> set xs. \<not> P x)"
  by (induction xs) auto

lemma set_map_filter: "set (List.map_filter f xs) = {y. \<exists>x \<in> set xs. f x = Some y}"
  by (induction xs) (auto simp: map_filter_simps split: option.split)

lemma claim_in_window:
  assumes "(n, e) \<in> set (claim_bundles B start (address_window c tag start k) taken)"
    and "unat start + k < 2 ^ 64"
  shows "unat start \<le> unat n \<and> unat n < unat start + k
    \<and> (\<exists>bs \<in> set taken. unwrap B bs = Ok (address_for c tag n, e))"
proof -
  obtain bs where bs: "bs \<in> set taken" "(case unwrap B bs of Err _ \<Rightarrow> None
      | Ok (address, e) \<Rightarrow> map_option (\<lambda>offset. (start + of_nat offset, e))
          (position (\<lambda>a. a = address) (address_window c tag start k))) = Some (n, e)"
    using assms(1) by (auto simp: claim_bundles_def set_map_filter)
  obtain a i where *: "unwrap B bs = Ok (a, e)" "n = start + of_nat i"
    "position (\<lambda>x. x = a) (address_window c tag start k) = Some i"
    using bs(2) by (cases "unwrap B bs") auto
  then have i: "i < k" "address_window c tag start k ! i = a"
    using position_Some [OF *(3)] length_window_indices [OF assms(2)] by (auto simp: address_window_def)
  then have "a = address_for c tag n"
    using length_window_indices [OF assms(2)] by (simp add: address_window_def nth_window_indices *(2))
  then show ?thesis
    using * bs(1) i assms(2) by (auto simp: unat_window_index)
qed

lemma claims_delivered:
  assumes "bs \<in> set taken" "unwrap B bs = Ok (address_for c tag n, e)"
    and "unat start \<le> unat n" "unat n < unat start + k" "unat start + k < 2 ^ 64"
  shows "e \<in> snd ` set (claim_bundles B start (address_window c tag start k) taken)"
proof -
  have "address_for c tag n \<in> set (address_window c tag start k)"
    using assms(3-5) by (auto simp: address_window_def set_window_indices)
  then obtain i where "position (\<lambda>x. x = address_for c tag n) (address_window c tag start k) = Some i"
    using position_None [of "\<lambda>x. x = address_for c tag n"] by (metis not_None_eq)
  then have "(start + of_nat i, e) \<in> set (claim_bundles B start (address_window c tag start k) taken)"
    using assms(1,2) by (force simp: claim_bundles_def set_map_filter)
  then show ?thesis by force
qed

text \<open>
  The receives of one transport over its life: before each of them the relay may hold
  anything.  \<open>C\<close> collects the indices and envelopes delivered, in order.
\<close>

inductive mesh_receives ::
  "relay_lib \<Rightarrow> dd_crypto \<Rightarrow> mesh_transport \<Rightarrow> (u64 \<times> message_envelope) list \<Rightarrow> mesh_transport \<Rightarrow> bool"
  for L c t0
where
  receives_nil: "mesh_receives L c t0 [] t0"
| receives_snoc: "mesh_receives L c t0 C t \<Longrightarrow> receive_claims L c rnd shuffle t s = (claims, s') \<Longrightarrow>
    mesh_receives L c t0 (C @ claims) (record_claims (map fst claims) t)"

lemma record_claims_window [simp]: "mt_window (record_claims N t) = mt_window t"
  by (simp add: record_claims_def Let_def case_prod_unfold)

lemma receives_window: "mesh_receives L c t0 C t \<Longrightarrow> mt_window t = mt_window t0"
  by (induction rule: mesh_receives.induct) simp_all

lemma receives_inv:
  assumes "mesh_receives L c (with_window k (new_mesh_transport tag)) C t" "length C + k < 2 ^ 64"
  shows "claims_inv t (map fst C)"
  using assms
proof (induction rule: mesh_receives.induct)
  case receives_nil
  then show ?case
    by (simp add: claims_inv_def new_mesh_transport_def with_window_def)
next
  case (receives_snoc C t rnd shuffle s claims s')
  have k: "mt_window t = k"
    using receives_window [OF receives_snoc(1)] by (simp add: with_window_def)
  have inv: "claims_inv t (map fst C)"
    using receives_snoc by simp
  then have low: "unat (low_watermark t) \<le> length C"
    by (simp add: claims_inv_def)
  have "\<forall>n \<in> set (map fst claims). unat (low_watermark t) \<le> unat n
      \<and> unat n < unat (low_watermark t) + mt_window t"
  proof
    fix n assume "n \<in> set (map fst claims)"
    then obtain e where "(n, e) \<in> set claims" by auto
    then show "unat (low_watermark t) \<le> unat n \<and> unat n < unat (low_watermark t) + mt_window t"
      using receives_snoc(2,4) low k
      by (auto simp: receive_claims_def Let_def dest!: claim_in_window split: prod.splits)
  qed
  then show ?case
    using claims_inv_advance [OF inv] receives_snoc(4)
    by (auto simp: record_claims_def Let_def k split: prod.split)
qed

section \<open>Properties\<close>

text \<open>
  C26: The mesh fails closed and loses no counter value: an envelope is handed to the local
  relay only if it is sealed, names neither sender nor recipient and carries a dead-drop
  address, and only then does the send counter advance; every refusal leaves transport and
  relay exactly as they were.
\<close>

theorem mesh_send_fails_closed:
  assumes "mesh_send L cfg se ce wall now e w = (r, w')"
  shows "case r of
      Err x \<Rightarrow> w' = w
    | Ok _ \<Rightarrow> sealed_sender e \<and> sender_id e = [] \<and> recipient_id e = []
        \<and> (\<exists>a bs. dead_drop_address e = Some a \<and> wrap (codec L) ce wall e a = Ok bs
            \<and> admit L cfg now bs (mw_relay w) = (Ok (), mw_relay w'))
        \<and> send_counter (mw_transport w') = send_counter (mw_transport w) + 1"
proof (cases r)
  case (Ok u)
  with assms have "mesh_send L cfg se ce wall now e w = (Ok (), w')" by simp
  then show ?thesis
    by (rule mesh_send_Ok) (auto simp: Ok anonymous_def advance_send_counter_def)
next
  case (Err x)
  then show ?thesis
    using assms mesh_send_Err by auto
qed

definition toy_world :: mesh_world where
  "toy_world = \<lparr>mw_transport = new_mesh_transport (replicate 23 9), mw_relay = toy_relay\<rparr>"

theorem mesh_send_fails_closed_witness:
  "snd (mesh_send toy_relay_lib default_relay_config (display_mesh (\<lambda>_. [])) [] 0 0 plain_envelope toy_world)
    = toy_world"
proof -
  have "\<exists>x. fst (mesh_send toy_relay_lib default_relay_config (display_mesh (\<lambda>_. [])) [] 0 0
      plain_envelope toy_world) = Err x"
    by (simp add: mesh_send_def plain_envelope_def)
  then show ?thesis
    using mesh_send_fails_closed [OF prod.collapse [symmetric], where L = toy_relay_lib
        and cfg = default_relay_config and se = "display_mesh (\<lambda>_. [])" and ce = "[]" and wall = 0 and now = 0
        and e = plain_envelope and w = toy_world] by auto
qed

text \<open>
  C27: Delivery.  A bundle a sender wrapped for the \<open>n\<close>-th address of the conversation and
  that reached the recipient's relay is returned by the next poll whose window covers \<open>n\<close>,
  as the envelope that was sent, and is no longer in the relay afterwards.
\<close>

theorem mesh_delivers_within_window:
  assumes "bundle_lib_law (codec L)" "relay_reachable L cfg (mw_relay w)"
    and "\<And>xs. mset (shuffle xs) = mset xs"
    and "length (address_for c (mt_tag_key (mw_transport w)) n) = 32"
    and "wrap (codec L) ce wall e (address_for c (mt_tag_key (mw_transport w)) n) = Ok bs"
    and "bs \<in> held_bytes (mw_relay w)"
    and "unat (low_watermark (mw_transport w)) \<le> unat n"
    and "unat n < unat (low_watermark (mw_transport w)) + mt_window (mw_transport w)"
    and "unat (low_watermark (mw_transport w)) + mt_window (mw_transport w) < 2 ^ 64"
    and "mesh_receive L c rnd shuffle rid w = (r, w')"
  shows "\<exists>es. r = Ok es \<and> e \<in> set es \<and> bs \<notin> held_bytes (mw_relay w')"
proof -
  let ?t = "mw_transport w" and ?s = "mw_relay w"
  let ?a = "address_for c (mt_tag_key ?t) n"
  let ?poll = "build_poll_set c rnd shuffle (mt_tag_key ?t) (low_watermark ?t) (mt_window ?t) (mt_decoys_per_real ?t)"
  have inv: "relay_inv L cfg ?s"
    using relay_reachable_inv [OF assms(2)] .
  then have d: "distinct_keys (by_hash ?s)"
    by (simp add: relay_inv_def)
  have un: "unwrap (codec L) bs = Ok (?a, e)"
    "\<exists>b. bundle_try_from (codec L) bs = Ok b \<and> destination_address (codec L) b = Ok ?a"
    using wrap_unwrap_expiry [OF assms(1,4,5)] by blast+
  have addr: "sb_address sb = ?a" if "(h, sb) \<in> set (by_hash ?s)" "sb_bytes sb = bs" for h sb
    using inv that un(2) unfolding relay_inv_def readable_def bytes_as_bundle_def by fastforce
  have "?a \<in> set (address_window c (mt_tag_key ?t) (low_watermark ?t) (mt_window ?t))"
    using assms(7-9) by (auto simp: address_window_def set_window_indices)
  then have poll: "?a \<in> set ?poll"
    using arg_cong [OF assms(3), of set_mset] by (simp add: build_poll_set_def)
  obtain taken s' where take: "take_for_addresses ?poll ?s = (taken, s')"
    by (metis prod.exhaust)
  obtain h sb where sb: "(h, sb) \<in> set (by_hash ?s)" "sb_bytes sb = bs"
    using assms(6) by (auto simp: held_bytes_def)
  then have "bs \<in> set taken"
    using take_for_addresses_eq(1) [OF d, of ?poll] take addr poll by force
  moreover have "bs \<notin> held_bytes s'"
    using take_for_addresses_eq(2) [OF d, of ?poll] take addr poll by (auto simp: held_bytes_def)
  ultimately show ?thesis
    using claims_delivered [OF _ un(1) assms(7-9)] assms(10)
    by (auto simp: mesh_receive_def receive_claims_def Let_def take)
qed

text \<open>A relay that holds the message of index 0, for the witnesses.\<close>

definition toy_tag :: tag_key where
  "toy_tag = replicate 24 7"

lemma length_toy_address: "length (address_for toy_dd toy_tag n) = 32"
  by (simp add: address_for_def toy_dd_def ADDRESS_KDF_CONTEXT_def toy_tag_def)

definition mesh_bytes :: bytes where
  "mesh_bytes = (case wrap toy_bundle_lib [] 1500000000000 sample_envelope (address_for toy_dd toy_tag 0) of
     Ok bs \<Rightarrow> bs | Err _ \<Rightarrow> [])"

lemma mesh_bytes_wrap:
  "wrap toy_bundle_lib [] 1500000000000 sample_envelope (address_for toy_dd toy_tag 0) = Ok mesh_bytes"
proof -
  have "\<exists>bs. wrap toy_bundle_lib [] 1500000000000 sample_envelope (address_for toy_dd toy_tag 0) = Ok bs"
    by (simp add: wrap_def address_to_eid_def toy_bundle_lib_def)
  then show ?thesis
    by (auto simp: mesh_bytes_def)
qed

definition mesh_relay :: relay_store where
  "mesh_relay = snd (admit toy_relay_lib default_relay_config 0 mesh_bytes new_relay_store)"

lemma mesh_relay_reachable: "relay_reachable toy_relay_lib default_relay_config mesh_relay"
  unfolding mesh_relay_def by (rule reach_op [OF reach_new op_admit])

lemma mesh_relay_holds: "mesh_bytes \<in> held_bytes mesh_relay"
proof -
  have "unix_millis 1500000000000 = 1500000"
    by (simp add: unix_millis_def)
  then have "readable toy_relay_lib mesh_bytes 1560000 (address_for toy_dd toy_tag 0)"
    using wrap_unwrap_expiry [OF toy_bundle_lib_law length_toy_address mesh_bytes_wrap]
    by (auto simp: readable_def toy_relay_lib_def bytes_as_bundle_def bundle_lifetime_ms_def
        sample_envelope_def saturating_sub_def)
  then have "admit_precheck toy_relay_lib 0 mesh_bytes = Ok (1560000, address_for toy_dd toy_tag 0)"
    by (simp add: admit_precheck_Ok)
  moreover have "length bs \<le> 100"
    if "wrap toy_bundle_lib [] 1500000000000 sample_envelope (address_for toy_dd toy_tag 0) = Ok bs" for bs
    using that length_toy_address [of 0]
    by (auto simp: wrap_def address_to_eid_def toy_bundle_lib_def and_then_Ok_iff DEAD_DROP_DEMUX_PREFIX_def
        of_utf8_def split: if_splits)
  from this [OF mesh_bytes_wrap] have "length mesh_bytes \<le> 100" .
  ultimately show ?thesis
    by (simp add: mesh_relay_def admit_def admit_checked_def Let_def new_relay_store_def
        default_relay_config_def toy_relay_lib_def held_bytes_def)
qed

definition mesh_receiver :: mesh_world where
  "mesh_receiver = \<lparr>mw_transport = new_mesh_transport toy_tag, mw_relay = mesh_relay\<rparr>"

theorem mesh_delivers_within_window_witness:
  "\<exists>es. fst (mesh_receive toy_relay_lib toy_dd (\<lambda>i. []) rev ''bob'' mesh_receiver) = Ok es
    \<and> sample_envelope \<in> set es"
proof -
  have "wrap (codec toy_relay_lib) [] 1500000000000 sample_envelope
      (address_for toy_dd (mt_tag_key (mw_transport mesh_receiver)) 0) = Ok mesh_bytes"
    using mesh_bytes_wrap by (simp add: mesh_receiver_def new_mesh_transport_def toy_relay_lib_def)
  from mesh_delivers_within_window [OF _ _ _ _ this _ _ _ _ prod.collapse [symmetric],
      of default_relay_config rev "\<lambda>i. []" "''bob''"]
  show ?thesis
    using toy_bundle_lib_law mesh_relay_reachable mesh_relay_holds length_toy_address
    by (simp add: mesh_receiver_def new_mesh_transport_def toy_relay_lib_def DEFAULT_ADDRESS_WINDOW_def)
      blast
qed

text \<open>
  C28: The receive watermark.  After any sequence of polls, whatever the relay held at each,
  every index below the watermark has been delivered, the watermark itself has not, and
  nothing at or beyond the window above it was ever delivered: late and reordered messages
  are still polled for, and one index that never arrives holds the window back for good.
\<close>

theorem watermark_is_first_gap:
  assumes "mesh_receives L c (with_window k (new_mesh_transport tag)) C t" "length C + k < 2 ^ 64"
  shows "(\<forall>n. n < low_watermark t \<longrightarrow> n \<in> fst ` set C)
    \<and> low_watermark t \<notin> fst ` set C
    \<and> (\<forall>n \<in> fst ` set C. unat n < unat (low_watermark t) + k)
    \<and> (\<forall>i. i \<notin> fst ` set C \<longrightarrow> low_watermark t \<le> i \<and> (\<forall>n \<in> fst ` set C. unat n < unat i + k))"
proof -
  have inv: "claims_inv t (map fst C)"
    using receives_inv [OF assms] .
  have k: "mt_window t = k"
    using receives_window [OF assms(1)] by (simp add: with_window_def)
  have C: "fst ` set C = {n. n < low_watermark t} \<union> set (claimed_ahead t)"
    using inv by (simp add: claims_inv_def)
  have below: "unat n < unat (low_watermark t) + k" if n: "n \<in> fst ` set C" for n
    using n inv k unfolding C by (auto simp: claims_inv_def word_less_nat_alt)
  have gap: "low_watermark t \<le> i" if i: "i \<notin> fst ` set C" for i
    using i unfolding C by (auto simp: not_less)
  have "\<forall>n. n < low_watermark t \<longrightarrow> n \<in> fst ` set C" "low_watermark t \<notin> fst ` set C"
    using inv unfolding C by (auto simp: claims_inv_def)
  moreover have "unat n < unat i + k" if "i \<notin> fst ` set C" "n \<in> fst ` set C" for i n
    using below [OF that(2)] gap [OF that(1)] by (simp add: word_le_nat_alt)
  ultimately show ?thesis
    using below gap by blast
qed

theorem watermark_is_first_gap_witness:
  "\<exists>C t. mesh_receives toy_relay_lib toy_dd (with_window 8 (new_mesh_transport toy_tag)) C t
    \<and> (\<forall>n. n < low_watermark t \<longrightarrow> n \<in> fst ` set C) \<and> low_watermark t \<notin> fst ` set C"
proof -
  obtain claims s' where c: "receive_claims toy_relay_lib toy_dd (\<lambda>i. []) rev
      (with_window 8 (new_mesh_transport toy_tag)) new_relay_store = (claims, s')"
    by (metis prod.exhaust)
  then have "claims = []"
    by (auto simp: receive_claims_def take_for_addresses_def new_relay_store_def claim_bundles_def
        map_filter_simps Let_def)
  with receives_snoc [OF receives_nil c]
  have r: "mesh_receives toy_relay_lib toy_dd (with_window 8 (new_mesh_transport toy_tag)) []
      (record_claims [] (with_window 8 (new_mesh_transport toy_tag)))"
    by simp
  show ?thesis
    by (rule exI [of _ "[]"], rule exI, rule conjI [OF r]) (use watermark_is_first_gap [OF r] in simp)
qed

text \<open>
  The hybrid transport over the mesh never hands a named sender to a carrier: when the
  primary path fails, an envelope that is not sealed or names its sender is refused and
  nothing reaches the relay, and one that is carried is carried without its recipient.
\<close>

theorem hybrid_over_mesh_is_anonymous:
  assumes "primary e w = (Err x, w1)" "mw_relay w1 = mw_relay w"
  shows "(\<not> sealed_sender e \<or> sender_id e \<noteq> [] \<longrightarrow>
      (\<exists>y w'. hybrid_send primary (mesh_send L cfg se ce wall now) e w = (Err y, w') \<and> mw_relay w' = mw_relay w))
    \<and> (\<forall>w'. hybrid_send primary (mesh_send L cfg se ce wall now) e w = (Ok (), w') \<longrightarrow>
        sealed_sender e \<and> sender_id e = []
        \<and> mesh_send L cfg se ce wall now (e\<lparr>recipient_id := []\<rparr>) w1 = (Ok (), w'))"
  using mesh_carrier.hybrid_refusal_carries_nothing [where primary = primary and e = e and s = w and x = x
      and t = w1 and L = L and cfg = cfg and se = se and ce = ce and wall = wall and now = now]
    mesh_carrier.hybrid_fallback_anonymous [where primary = primary and e = e and s = w and x = x
      and t = w1 and L = L and cfg = cfg and se = se and ce = ce and wall = wall and now = now] assms
  by blast

theorem hybrid_over_mesh_is_anonymous_witness:
  "\<exists>y w'. hybrid_send (\<lambda>e w. (Err (Transport ''down''), w))
      (mesh_send toy_relay_lib default_relay_config (display_mesh (\<lambda>_. [])) [] 0 0) plain_envelope toy_world
      = (Err y, w') \<and> mw_relay w' = mw_relay toy_world"
  using hybrid_over_mesh_is_anonymous [of "\<lambda>e w. (Err (Transport ''down''), w)" plain_envelope toy_world
      "Transport ''down''" toy_world toy_relay_lib default_relay_config "display_mesh (\<lambda>_. [])" "[]" 0 0]
  by (simp add: plain_envelope_def)

text \<open>
  A propagation pass survives every peer that fails: it fails only if the scan does, and
  otherwise visits all sighted peers and adds up what was admitted from those that synced.
\<close>

theorem sync_once_survives_failing_peers:
  assumes "scan s = (Ok hs, s1)"
    and "\<And>h s. fst (connect h s) = (if good h then Ok h else Err PeerUnreachable)"
    and "\<And>h s. fst (sync h s) = (if synced h then Ok (gain h) else Err PeerUnreachable)"
  shows "fst (sync_once scan connect sync s) = Ok (\<Sum>h \<leftarrow> filter (\<lambda>h. good h \<and> synced h) hs. gain h)"
proof -
  have "fst (sync_all connect sync hs n s') = n + (\<Sum>h \<leftarrow> filter (\<lambda>h. good h \<and> synced h) hs. gain h)" for n s'
  proof (induction hs arbitrary: n s')
    case (Cons h hs)
    obtain r1 s1 where c: "connect h s' = (r1, s1)" by (metis prod.exhaust)
    obtain r2 s2 where y: "sync h s1 = (r2, s2)" by (metis prod.exhaust)
    show ?case
      using assms(2) [of h s'] assms(3) [of h s1] Cons.IH c y by simp
  qed simp
  then show ?thesis
    by (simp add: sync_once_def assms(1) Let_def case_prod_unfold)
qed

theorem sync_once_survives_failing_peers_witness:
  "fst (sync_once (\<lambda>s. (Ok [1, 2, 3 :: nat], s)) (\<lambda>h s. (if h \<noteq> 2 then Ok h else Err PeerUnreachable, s))
      (\<lambda>h s. (if True then Ok h else Err PeerUnreachable, s)) ()) = Ok 4"
  using sync_once_survives_failing_peers [of "\<lambda>s. (Ok [1, 2, 3 :: nat], s)" "()" "[1, 2, 3]" "()"
      "\<lambda>h s. (if h \<noteq> 2 then Ok h else Err PeerUnreachable, s)" "\<lambda>h. h \<noteq> 2"
      "\<lambda>h s. (if True then Ok h else Err PeerUnreachable, s)" "\<lambda>_. True" id]
  by simp

end
