(* ===== verification/Client_Store.thy ===== *)
theory Client_Store
  imports Envelope Self_Destruct
begin

text \<open>
  The client's encrypted message store (\<open>client-store/src/lib.rs\<close>): opening with a key, the
  schema migrations, the message history, whose write path refuses self-destructing
  messages, and the holding area of staged self-destructing messages.  A table is the list
  of its rows in insertion order; the SQL statements of the code are functions on it, with
  SQLite's signed 64-bit integers read through \<open>as_i64\<close> and its primary keys enforced.
  SQLCipher, the JSON codec and the texts of engine errors are parameters; failures of the
  storage device are not modelled.
\<close>

section \<open>Schema\<close>

datatype store_error =
    Sqlite string
  | StoreCodec string
  | RefusesSelfDestructingMessage

type_synonym 'a stored = "('a, store_error) result"

datatype message_direction = Sent | Received

record message_row =
  mr_id :: string
  mr_peer_address :: string
  mr_direction :: string
  mr_envelope_json :: string
  mr_stored_at_ms :: int

record pending_row =
  pr_id :: string
  pr_peer_address :: string
  pr_ciphertext :: bytes
  pr_key_bytes :: bytes
  pr_mode :: string
  pr_expires_at_ms :: "int option"
  pr_staged_at_ms :: int

text \<open>A table that was not created yet is \<open>None\<close>; \<open>file_key\<close> is \<open>None\<close> for a new file.\<close>

record client_db =
  file_key :: "string option"
  user_version :: int
  messages :: "message_row list option"
  pending :: "pending_row list option"

record stored_message =
  sm_id :: string
  sm_peer_address :: string
  sm_direction :: message_direction
  sm_envelope :: message_envelope
  sm_stored_at_ms :: u64

record client_lib =
  env_to_string :: "message_envelope \<Rightarrow> (string, string) result"
  env_from_str :: "string \<Rightarrow> (message_envelope, string) result"
  engine_error :: "string \<Rightarrow> string"
  debug_str :: "string \<Rightarrow> string"

definition client_json_law :: "client_lib \<Rightarrow> bool" where
  "client_json_law L \<longleftrightarrow> (\<forall>e s. env_to_string L e = Ok s \<longrightarrow> env_from_str L s = Ok e)"

section \<open>Columns\<close>

fun direction_as_str :: "message_direction \<Rightarrow> string" where
  "direction_as_str Sent = ''sent''"
| "direction_as_str Received = ''received''"

definition direction_from_str :: "string \<Rightarrow> message_direction option" where
  "direction_from_str s =
    (if s = ''sent'' then Some Sent else if s = ''received'' then Some Received else None)"

fun mode_to_str :: "destruct_mode \<Rightarrow> string" where
  "mode_to_str TimeBound = ''time_bound''"
| "mode_to_str ReadTriggered = ''read_triggered''"
| "mode_to_str Combined = ''combined''"

definition mode_from_str :: "string \<Rightarrow> destruct_mode option" where
  "mode_from_str s =
    (if s = ''time_bound'' then Some TimeBound
     else if s = ''read_triggered'' then Some ReadTriggered
     else if s = ''combined'' then Some Combined
     else None)"

text \<open>The id of a row: the wall clock in nanoseconds and a process-wide counter.\<close>

definition local_row_id :: "nat \<Rightarrow> nat \<Rightarrow> string" where
  "local_row_id nanos seq = hex_nat nanos @ ''-'' @ hex_nat seq"

section \<open>Opening\<close>

definition CURRENT_SCHEMA_VERSION :: int where
  "CURRENT_SCHEMA_VERSION = 2"

definition run_migrations :: "client_db \<Rightarrow> client_db" where
  "run_migrations db =
    (let current = user_version db;
         db = (if current < 1 then
                 db\<lparr>messages := Some (case messages db of None \<Rightarrow> [] | Some rows \<Rightarrow> rows)\<rparr>
               else db);
         db = (if current < 2 then
                 db\<lparr>pending := Some (case pending db of None \<Rightarrow> [] | Some rows \<Rightarrow> rows)\<rparr>
               else db)
     in if current < CURRENT_SCHEMA_VERSION then db\<lparr>user_version := CURRENT_SCHEMA_VERSION\<rparr> else db)"

definition empty_file :: client_db where
  "empty_file = \<lparr>file_key = None, user_version = 0, messages = None, pending = None\<rparr>"

definition from_connection :: "client_lib \<Rightarrow> client_db \<Rightarrow> string \<Rightarrow> client_db stored" where
  "from_connection L file key =
    (if file_key file = None \<or> file_key file = Some key then
       Ok (run_migrations (file\<lparr>file_key := Some key\<rparr>))
     else Err (Sqlite (''failed to unlock client store '' @ em_dash
       @ '' wrong key, or not a SQLCipher database: '' @ engine_error L ''notadb'')))"

definition EPHEMERAL_TEST_KEY :: string where
  "EPHEMERAL_TEST_KEY = ''parda-client-store-ephemeral-test-key-do-not-use-in-production''"

definition open_ephemeral :: "client_lib \<Rightarrow> client_db stored" where
  "open_ephemeral L = from_connection L empty_file EPHEMERAL_TEST_KEY"

text \<open>A statement on a table that does not exist is an error of the engine.\<close>

definition table :: "client_lib \<Rightarrow> 'a list option \<Rightarrow> 'a list stored" where
  "table L t = ok_or t (Sqlite (engine_error L ''no such table''))"

section \<open>History\<close>

definition store_message ::
  "client_lib \<Rightarrow> string \<Rightarrow> string \<Rightarrow> message_direction \<Rightarrow> message_envelope \<Rightarrow> client_db
    \<Rightarrow> string stored \<times> client_db" where
  "store_message L row_id peer direction e db =
    (if self_destruct_at e \<noteq> None \<or> read_triggered_destruct e then
       (Err RefusesSelfDestructingMessage, db)
     else
       case and_then (map_err StoreCodec (env_to_string L e)) (\<lambda>envelope_json.
            and_then (table L (messages db)) (\<lambda>rows.
            if row_id \<in> mr_id ` set rows then Err (Sqlite (engine_error L ''UNIQUE''))
            else Ok (rows @ [\<lparr>mr_id = row_id, mr_peer_address = peer,
                   mr_direction = direction_as_str direction, mr_envelope_json = envelope_json,
                   mr_stored_at_ms = as_i64 (timestamp_ms e)\<rparr>]))) of
         Err x \<Rightarrow> (Err x, db)
       | Ok rows \<Rightarrow> (Ok row_id, db\<lparr>messages := Some rows\<rparr>))"

definition read_message_row :: "client_lib \<Rightarrow> message_row \<Rightarrow> stored_message stored" where
  "read_message_row L r =
    and_then (map_err StoreCodec (env_from_str L (mr_envelope_json r))) (\<lambda>e.
    and_then (ok_or (direction_from_str (mr_direction r))
        (StoreCodec (''corrupt direction column: '' @ debug_str L (mr_direction r)))) (\<lambda>d.
    Ok \<lparr>sm_id = mr_id r, sm_peer_address = mr_peer_address r, sm_direction = d, sm_envelope = e,
        sm_stored_at_ms = i64_as_u64 (mr_stored_at_ms r)\<rparr>))"

fun read_rows :: "('r \<Rightarrow> ('a, 'e) result) \<Rightarrow> 'r list \<Rightarrow> ('a list, 'e) result" where
  "read_rows f [] = Ok []"
| "read_rows f (r # rs) = and_then (f r) (\<lambda>x. and_then (read_rows f rs) (\<lambda>xs. Ok (x # xs)))"

definition history_for :: "client_lib \<Rightarrow> string \<Rightarrow> client_db \<Rightarrow> stored_message list stored" where
  "history_for L peer db =
    and_then (table L (messages db)) (\<lambda>rows.
    read_rows (read_message_row L) (sort_key mr_stored_at_ms (filter (\<lambda>r. mr_peer_address r = peer) rows)))"

definition delete_history_for :: "client_lib \<Rightarrow> string \<Rightarrow> client_db \<Rightarrow> nat stored \<times> client_db" where
  "delete_history_for L peer db =
    (case table L (messages db) of
       Err x \<Rightarrow> (Err x, db)
     | Ok rows \<Rightarrow> (Ok (length (filter (\<lambda>r. mr_peer_address r = peer) rows)),
         db\<lparr>messages := Some (filter (\<lambda>r. mr_peer_address r \<noteq> peer) rows)\<rparr>))"

definition total_message_count :: "client_lib \<Rightarrow> client_db \<Rightarrow> nat stored" where
  "total_message_count L db = map_ok length (table L (messages db))"

section \<open>The holding area\<close>

definition stage_self_destructing ::
  "client_lib \<Rightarrow> string \<Rightarrow> string \<Rightarrow> persisted_state \<Rightarrow> u64 \<Rightarrow> client_db \<Rightarrow> string stored \<times> client_db" where
  "stage_self_destructing L row_id peer st staged_at_ms db =
    (case and_then (table L (pending db)) (\<lambda>rows.
          if row_id \<in> pr_id ` set rows then Err (Sqlite (engine_error L ''UNIQUE''))
          else Ok (rows @ [\<lparr>pr_id = row_id, pr_peer_address = peer, pr_ciphertext = ps_ciphertext st,
                 pr_key_bytes = ps_key_bytes st, pr_mode = mode_to_str (ps_mode st),
                 pr_expires_at_ms = map_option as_i64 (ps_expires_at_ms st),
                 pr_staged_at_ms = as_i64 staged_at_ms\<rparr>])) of
       Err x \<Rightarrow> (Err x, db)
     | Ok rows \<Rightarrow> (Ok row_id, db\<lparr>pending := Some rows\<rparr>))"

text \<open>
  The row is deleted and the deletion committed before its columns are checked.  A failing
  \<open>SELECT\<close> counts as no row, so a missing table is reported as nothing staged.
\<close>

definition take_self_destructing ::
  "client_lib \<Rightarrow> string \<Rightarrow> client_db \<Rightarrow> persisted_state option stored \<times> client_db" where
  "take_self_destructing L row_id db =
    (case Option.bind (pending db) (List.find (\<lambda>r. pr_id r = row_id)) of
       None \<Rightarrow> (Ok None, db)
     | Some r \<Rightarrow>
         (and_then (ok_or (mode_from_str (pr_mode r))
            (StoreCodec (''corrupt mode column: '' @ debug_str L (pr_mode r)))) (\<lambda>mode.
          if length (pr_key_bytes r) \<noteq> 32 then
            Err (StoreCodec (''corrupt key_bytes column: expected 32 bytes, got ''
              @ dec (length (pr_key_bytes r))))
          else Ok (Some (from_parts (pr_ciphertext r) (pr_key_bytes r) mode
                 (map_option i64_as_u64 (pr_expires_at_ms r))))),
          db\<lparr>pending := map_option (filter (\<lambda>r. pr_id r \<noteq> row_id)) (pending db)\<rparr>))"

definition purge_expired_self_destructing :: "client_lib \<Rightarrow> u64 \<Rightarrow> client_db \<Rightarrow> nat stored \<times> client_db" where
  "purge_expired_self_destructing L now_ms db =
    (let expired = (\<lambda>r. case pr_expires_at_ms r of None \<Rightarrow> False | Some d \<Rightarrow> d \<le> as_i64 now_ms) in
     case table L (pending db) of
       Err x \<Rightarrow> (Err x, db)
     | Ok rows \<Rightarrow> (Ok (length (filter expired rows)),
         db\<lparr>pending := Some (filter (\<lambda>r. \<not> expired r) rows)\<rparr>))"

definition pending_self_destruct_ids :: "client_lib \<Rightarrow> string \<Rightarrow> client_db \<Rightarrow> string list stored" where
  "pending_self_destruct_ids L peer db =
    map_ok (\<lambda>rows. map pr_id (sort_key pr_staged_at_ms (filter (\<lambda>r. pr_peer_address r = peer) rows)))
      (table L (pending db))"

definition pending_self_destruct_count :: "client_lib \<Rightarrow> client_db \<Rightarrow> nat stored" where
  "pending_self_destruct_count L db = map_ok length (table L (pending db))"

section \<open>Lemmas\<close>

lemma direction_roundtrip [simp]: "direction_from_str (direction_as_str d) = Some d"
  by (cases d) (simp_all add: direction_from_str_def)

lemma mode_roundtrip [simp]: "mode_from_str (mode_to_str m) = Some m"
  by (cases m) (simp_all add: mode_from_str_def)

lemma local_row_id_inject [simp]:
  "local_row_id n s = local_row_id n' s' \<longleftrightarrow> n = n' \<and> s = s'"
proof -
  have "CHR ''-'' \<noteq> hex_digit d" if "d < 16" for d
  proof
    assume "CHR ''-'' = hex_digit d"
    then have "(of_char (CHR ''-'') :: nat) = of_char (hex_digit d)" by simp
    then show False
      using that by (simp add: hex_digit_def split: if_splits)
  qed
  then have "CHR ''-'' \<notin> set (hex_nat n)" for n
    using hex_nat_digits by blast
  then show ?thesis
    by (simp add: local_row_id_def append_sep_inject)
qed

lemma run_migrations_idem: "run_migrations (run_migrations db) = run_migrations db"
  by (simp add: run_migrations_def CURRENT_SCHEMA_VERSION_def Let_def)

lemma run_migrations_tables:
  assumes "user_version db = 0 \<or> user_version db = 1 \<and> messages db \<noteq> None
    \<or> user_version db = 2 \<and> messages db \<noteq> None \<and> pending db \<noteq> None"
  shows "user_version (run_migrations db) = 2"
    "messages (run_migrations db) = Some (case messages db of None \<Rightarrow> [] | Some rows \<Rightarrow> rows)"
    "pending (run_migrations db) = Some (case pending db of None \<Rightarrow> [] | Some rows \<Rightarrow> rows)"
  using assms by (auto simp: run_migrations_def CURRENT_SCHEMA_VERSION_def Let_def)

lemma read_rows_Ok: "read_rows f rs = Ok xs \<longleftrightarrow> list_all2 (\<lambda>r x. f r = Ok x) rs xs"
  by (induction rs arbitrary: xs) (auto simp: and_then_Ok_iff list_all2_Cons1)

lemma read_rows_map: "\<forall>r \<in> set rs. f r = Ok (g r) \<Longrightarrow> read_rows f rs = Ok (map g rs)"
  by (induction rs) auto

section \<open>Everything that can happen to the store\<close>

inductive client_op :: "client_lib \<Rightarrow> client_db \<Rightarrow> client_db \<Rightarrow> bool"
  for L
where
  c_store: "client_op L db (snd (store_message L i peer d e db))"
| c_delete: "client_op L db (snd (delete_history_for L peer db))"
| c_stage: "client_op L db (snd (stage_self_destructing L i peer st t db))"
| c_take: "client_op L db (snd (take_self_destructing L i db))"
| c_purge: "client_op L db (snd (purge_expired_self_destructing L now db))"
| c_reopen: "from_connection L db key = Ok db' \<Longrightarrow> client_op L db db'"

inductive client_reachable :: "client_lib \<Rightarrow> client_db \<Rightarrow> bool"
  for L
where
  client_new: "client_reachable L empty_file"
| client_more: "client_reachable L db \<Longrightarrow> client_op L db db' \<Longrightarrow> client_reachable L db'"

definition row_ok :: "client_lib \<Rightarrow> message_row \<Rightarrow> bool" where
  "row_ok L r \<longleftrightarrow> (\<exists>e. env_to_string L e = Ok (mr_envelope_json r)
    \<and> self_destruct_at e = None \<and> \<not> read_triggered_destruct e
    \<and> mr_stored_at_ms r = as_i64 (timestamp_ms e) \<and> (\<exists>d. mr_direction r = direction_as_str d))"

definition client_inv :: "client_lib \<Rightarrow> client_db \<Rightarrow> bool" where
  "client_inv L db \<longleftrightarrow>
    (\<forall>rows. messages db = Some rows \<longrightarrow> distinct (map mr_id rows) \<and> (\<forall>r \<in> set rows. row_ok L r))
    \<and> (\<forall>rows. pending db = Some rows \<longrightarrow> distinct (map pr_id rows))
    \<and> (user_version db = 0 \<and> messages db = None \<and> pending db = None
       \<or> user_version db = 2 \<and> messages db \<noteq> None \<and> pending db \<noteq> None)"

lemma distinct_map_filter: "distinct (map f xs) \<Longrightarrow> distinct (map f (filter P xs))"
  by (induction xs) auto

lemma row_ok_new:
  "env_to_string L e = Ok j \<Longrightarrow> self_destruct_at e = None \<Longrightarrow> \<not> read_triggered_destruct e \<Longrightarrow>
    row_ok L \<lparr>mr_id = i, mr_peer_address = p, mr_direction = direction_as_str d, mr_envelope_json = j,
      mr_stored_at_ms = as_i64 (timestamp_ms e)\<rparr>"
  by (auto simp: row_ok_def)

lemma client_inv_store:
  "client_inv L db \<Longrightarrow> client_inv L (snd (store_message L i peer d e db))"
  unfolding store_message_def client_inv_def
  by (auto simp: and_then_Ok_iff table_def row_ok_new split: result.splits if_splits)

lemma client_inv_op: "client_op L db db' \<Longrightarrow> client_inv L db \<Longrightarrow> client_inv L db'"
proof (induction rule: client_op.induct)
  case (c_delete db peer)
  then show ?case
    by (auto simp: delete_history_for_def client_inv_def table_def distinct_map_filter split: result.splits)
next
  case (c_stage db i peer st t)
  then show ?case
    by (auto simp: stage_self_destructing_def client_inv_def table_def and_then_Ok_iff
        split: result.splits if_splits)
next
  case (c_take db i)
  then show ?case
    by (auto simp: take_self_destructing_def client_inv_def distinct_map_filter split: option.splits)
next
  case (c_purge db now)
  then show ?case
    by (auto simp: purge_expired_self_destructing_def client_inv_def table_def distinct_map_filter Let_def
        split: result.splits)
next
  case (c_reopen db key db')
  then show ?case
    by (auto simp: from_connection_def run_migrations_def client_inv_def CURRENT_SCHEMA_VERSION_def
        split: if_splits)
qed (rule client_inv_store)

lemma client_reachable_inv: "client_reachable L db \<Longrightarrow> client_inv L db"
proof (induction rule: client_reachable.induct)
  case client_new
  show ?case by (simp add: client_inv_def empty_file_def)
qed (rule client_inv_op)

section \<open>Properties\<close>

definition note_envelope :: message_envelope where
  "note_envelope = \<lparr>sender_id = ''alice'', recipient_id = ''bob'', ciphertext = [1], env_type = Ratchet,
     timestamp_ms = 7, version = 2, sealed_sender = False, routing_hint = None,
     self_destruct_at = None, read_triggered_destruct = False, dead_drop_address = None\<rparr>"

lemma note_envelope_ordinary [simp]:
  "self_destruct_at note_envelope = None" "\<not> read_triggered_destruct note_envelope"
  by (simp_all add: note_envelope_def)

definition toy_client :: client_lib where
  "toy_client = \<lparr>env_to_string = (\<lambda>e. if e = note_envelope then Ok ''note'' else Err ''other''),
     env_from_str = (\<lambda>s. if s = ''note'' then Ok note_envelope else Err ''json''),
     engine_error = id, debug_str = id\<rparr>"

lemma toy_client_law: "client_json_law toy_client"
  by (simp add: client_json_law_def toy_client_def)

definition toy_client_db :: client_db where
  "toy_client_db = run_migrations (empty_file\<lparr>file_key := Some ''k''\<rparr>)"

lemma toy_client_db: "toy_client_db = \<lparr>file_key = Some ''k'', user_version = 2, messages = Some [], pending = Some []\<rparr>"
  by (simp add: toy_client_db_def run_migrations_def empty_file_def CURRENT_SCHEMA_VERSION_def Let_def)

lemma toy_client_db_reachable: "client_reachable L toy_client_db"
proof -
  have "from_connection L empty_file ''k'' = Ok toy_client_db"
    by (simp add: from_connection_def toy_client_db_def) (simp add: empty_file_def)
  then show ?thesis
    using client_more [OF client_new c_reopen] by blast
qed

text \<open>
  C32: The structural boundary: in every state the client store can reach, through any
  sequence of operations and reopenings, no row of the message history encodes a
  self-destructing envelope, and attempting to store one is refused without a trace.
\<close>

theorem history_never_holds_self_destructing:
  assumes "client_reachable L db" "client_json_law L"
  shows "(\<forall>rows. messages db = Some rows \<longrightarrow> (\<forall>r \<in> set rows.
      \<exists>e. env_from_str L (mr_envelope_json r) = Ok e \<and> self_destruct_at e = None
        \<and> \<not> read_triggered_destruct e))
    \<and> (self_destruct_at e \<noteq> None \<or> read_triggered_destruct e \<longrightarrow>
        store_message L i peer d e db = (Err RefusesSelfDestructingMessage, db))"
  using client_reachable_inv [OF assms(1)] assms(2)
  by (auto simp: client_inv_def row_ok_def client_json_law_def store_message_def) (metis)+

theorem history_never_holds_self_destructing_witness:
  "store_message toy_client ''1'' ''bob'' Sent (with_read_triggered_destruct note_envelope) toy_client_db
    = (Err RefusesSelfDestructingMessage, toy_client_db)"
  using history_never_holds_self_destructing [OF toy_client_db_reachable toy_client_law]
  by (simp add: with_read_triggered_destruct_def)

text \<open>
  What was stored is what the history returns: storing an ordinary message adds exactly
  that message, with its direction, peer and timestamp, to the history of its peer and to
  no other, and the history is ordered by timestamp.
\<close>

theorem history_returns_what_was_stored:
  assumes "client_reachable L db" "client_json_law L"
    and "store_message L i peer d e db = (Ok j, db')" "history_for L peer db' = Ok ms"
  shows "\<lparr>sm_id = i, sm_peer_address = peer, sm_direction = d, sm_envelope = e,
      sm_stored_at_ms = timestamp_ms e\<rparr> \<in> set ms
    \<and> sorted (map (as_i64 \<circ> sm_stored_at_ms) ms)
    \<and> (\<forall>m \<in> set ms. sm_peer_address m = peer)
    \<and> (\<forall>q. q \<noteq> peer \<longrightarrow> history_for L q db' = history_for L q db)"
proof -
  obtain json rows where st: "env_to_string L e = Ok json" "messages db = Some rows" "j = i"
    "db' = db\<lparr>messages := Some (rows @ [\<lparr>mr_id = i, mr_peer_address = peer,
                   mr_direction = direction_as_str d, mr_envelope_json = json,
                   mr_stored_at_ms = as_i64 (timestamp_ms e)\<rparr>])\<rparr>"
    using assms(3) by (auto simp: store_message_def and_then_Ok_iff table_def split: if_splits result.splits)
  let ?row = "\<lparr>mr_id = i, mr_peer_address = peer, mr_direction = direction_as_str d,
    mr_envelope_json = json, mr_stored_at_ms = as_i64 (timestamp_ms e)\<rparr>"
  let ?sel = "sort_key mr_stored_at_ms (filter (\<lambda>r. mr_peer_address r = peer) (rows @ [?row]))"
  have all: "list_all2 (\<lambda>r m. read_message_row L r = Ok m) ?sel ms"
    using assms(4) by (simp add: history_for_def st table_def read_rows_Ok)
  have "env_from_str L json = Ok e"
    using assms(2) st(1) by (simp add: client_json_law_def)
  then have "read_message_row L ?row = Ok \<lparr>sm_id = i, sm_peer_address = peer, sm_direction = d,
      sm_envelope = e, sm_stored_at_ms = timestamp_ms e\<rparr>"
    by (simp add: read_message_row_def)
  moreover have "?row \<in> set ?sel" by simp
  ultimately have "\<lparr>sm_id = i, sm_peer_address = peer, sm_direction = d, sm_envelope = e,
      sm_stored_at_ms = timestamp_ms e\<rparr> \<in> set ms"
    using list_all2_set1 [OF all] by fastforce
  moreover have ok: "row_ok L r" if r: "r \<in> set ?sel" for r
    using client_reachable_inv [OF assms(1)] st(2) row_ok_new [OF st(1)] assms(3) r
    by (auto simp: client_inv_def store_message_def split: if_splits)
  have "map (\<lambda>m. as_i64 (sm_stored_at_ms m)) ms = map mr_stored_at_ms ?sel"
    by (rule list_all2_map_eq [OF all], drule ok) (auto simp: read_message_row_def and_then_Ok_iff row_ok_def)
  then have "sorted (map (as_i64 \<circ> sm_stored_at_ms) ms)"
    by (simp only: o_def sorted_sort_key)
  moreover have "sm_peer_address m = peer" if m: "m \<in> set ms" for m
    using list_all2_set2 [OF all] m by (fastforce simp: read_message_row_def and_then_Ok_iff)
  moreover have "\<forall>q. q \<noteq> peer \<longrightarrow> history_for L q db' = history_for L q db"
    by (simp add: history_for_def st table_def)
  ultimately show ?thesis by blast
qed

theorem history_returns_what_was_stored_witness:
  "\<exists>ms. history_for toy_client ''bob'' (snd (store_message toy_client ''1'' ''bob'' Sent note_envelope toy_client_db))
      = Ok ms \<and> note_envelope \<in> sm_envelope ` set ms"
proof -
  obtain db' where db': "store_message toy_client ''1'' ''bob'' Sent note_envelope toy_client_db = (Ok ''1'', db')"
    by (simp add: store_message_def toy_client_def toy_client_db table_def)
  obtain ms where "history_for toy_client ''bob'' db' = Ok ms"
    using db' by (auto simp: store_message_def history_for_def toy_client_def toy_client_db table_def
        read_message_row_def direction_from_str_def split: if_splits)
  from history_returns_what_was_stored [OF toy_client_db_reachable toy_client_law db' this] this db'
  show ?thesis by force
qed

text \<open>
  C33: The holding area is fetch-and-clear: a staged state comes back exactly as it was
  staged, once, and is then gone; the purge deletes exactly the rows with a deadline at or
  before now in SQLite's signed reading of the two values, and never one without a
  deadline.
\<close>

theorem staged_state_is_taken_once:
  assumes "client_reachable L db" "length (ps_key_bytes st) = 32"
    and "stage_self_destructing L i peer st t db = (Ok j, db')"
  shows "fst (take_self_destructing L i db') = Ok (Some st)
    \<and> fst (take_self_destructing L i (snd (take_self_destructing L i db'))) = Ok None
    \<and> (\<forall>rows rows'. pending db = Some rows \<longrightarrow> pending (snd (purge_expired_self_destructing L now db)) = Some rows' \<longrightarrow>
        (\<forall>r. r \<in> set rows' \<longleftrightarrow> r \<in> set rows
          \<and> (\<forall>d. pr_expires_at_ms r = Some d \<longrightarrow> as_i64 now < d)))"
proof -
  obtain rows where st: "pending db = Some rows" "i \<notin> pr_id ` set rows"
    "db' = db\<lparr>pending := Some (rows @ [\<lparr>pr_id = i, pr_peer_address = peer, pr_ciphertext = ps_ciphertext st,
                 pr_key_bytes = ps_key_bytes st, pr_mode = mode_to_str (ps_mode st),
                 pr_expires_at_ms = map_option as_i64 (ps_expires_at_ms st),
                 pr_staged_at_ms = as_i64 t\<rparr>])\<rparr>"
    using assms(3) by (auto simp: stage_self_destructing_def and_then_Ok_iff table_def split: if_splits result.splits)
  let ?row = "\<lparr>pr_id = i, pr_peer_address = peer, pr_ciphertext = ps_ciphertext st,
                 pr_key_bytes = ps_key_bytes st, pr_mode = mode_to_str (ps_mode st),
                 pr_expires_at_ms = map_option as_i64 (ps_expires_at_ms st), pr_staged_at_ms = as_i64 t\<rparr>"
  have find: "List.find (\<lambda>r. pr_id r = i) (rows @ [?row]) = Some ?row"
    using st(2) by (induction rows) auto
  have parts: "from_parts (ps_ciphertext st) (ps_key_bytes st) (ps_mode st)
      (map_option i64_as_u64 (map_option as_i64 (ps_expires_at_ms st))) = st"
    by (cases st) (simp add: from_parts_def option.map_comp o_def option.map_ident)
  have same: "filter (\<lambda>r. pr_id r \<noteq> i) rows = rows"
    using st(2) by (intro filter_True) auto
  have "fst (take_self_destructing L i db') = Ok (Some st)"
    using assms(2) parts by (simp add: take_self_destructing_def st(3) find)
  moreover have "snd (take_self_destructing L i db') = db'\<lparr>pending := Some rows\<rparr>"
    by (simp add: take_self_destructing_def st(3) find same)
  moreover have "List.find (\<lambda>r. pr_id r = i) rows = None"
    using st(2) by (auto simp: find_None_iff)
  ultimately show ?thesis
    by (auto simp: take_self_destructing_def purge_expired_self_destructing_def table_def st(1) Let_def
        not_le split: option.splits)
qed

definition toy_state :: persisted_state where
  "toy_state = from_parts [1] (replicate 32 2) ReadTriggered None"

theorem staged_state_is_taken_once_witness:
  "fst (take_self_destructing toy_client ''1''
      (snd (stage_self_destructing toy_client ''1'' ''bob'' toy_state 5 toy_client_db))) = Ok (Some toy_state)"
proof -
  obtain db' where "stage_self_destructing toy_client ''1'' ''bob'' toy_state 5 toy_client_db = (Ok ''1'', db')"
    by (simp add: stage_self_destructing_def toy_client_db table_def)
  with staged_state_is_taken_once [OF toy_client_db_reachable _ this] show ?thesis
    by (simp add: toy_state_def from_parts_def)
qed

text \<open>
  Deadlines in the upper half of the \<open>u64\<close> range, which the saturating addition of a seal
  can produce, are negative in the column: the purge deletes such a row at any time before
  that range is reached.
\<close>

lemma far_deadline_is_purged_at_once:
  assumes "2 ^ 63 \<le> unat d" "unat now < 2 ^ 63"
  shows "as_i64 d \<le> as_i64 now"
proof -
  have "\<not> uint d < 2 ^ 63" "uint now < 2 ^ 63" "uint d < 2 ^ 64" "0 \<le> uint now"
    using assms unsigned_less [of d, where ?'a = int] by (simp_all only: uint_nat) (simp_all del: of_nat_unat)
  then show ?thesis
    by (simp only: as_i64_def if_True if_False)
qed

end
