(* ===== verification/Relay_Server.thy ===== *)
theory Relay_Server
  imports Envelope Identity Mixnet "HOL-Library.Multiset"
begin

text \<open>
  The relay server (\<open>server/src/store.rs\<close>, \<open>models.rs\<close>, \<open>routes.rs\<close> and the router of
  \<open>lib.rs\<close>).  A table is the list of its rows in insertion order, \<open>None\<close> before its
  migration ran; SQL statements are functions on it.  Every \<open>expect\<close> of the code is an error
  value, and a panic inside a closure that holds the connection's mutex poisons it, after
  which every operation panics.  JSON, base64, SQLCipher and the certificate operations are
  parameters; failures of the storage device are not modelled.
\<close>

section \<open>Data\<close>

record prekey_bundle_json =
  pj_registration_id :: u32
  pj_device_id :: u32
  pj_identity_key :: string
  pj_signed_prekey_id :: u32
  pj_signed_prekey_public :: string
  pj_signed_prekey_signature :: string
  pj_one_time_prekey_id :: "u32 option"
  pj_one_time_prekey_public :: "string option"

record stored_envelope =
  se_id :: string
  se_envelope :: message_envelope

record issue_cert_request =
  icr_identity_key :: string
  icr_device_id :: u32
  icr_ttl_secs :: u64

record queue_row =
  q_id :: string
  q_recipient_id :: string
  q_envelope_json :: string
  q_created_at_ms :: int

record server_db =
  db_key :: "string option"
  db_version :: int
  db_bundles :: "(string \<times> string) list option"
  db_messages :: "queue_row list option"
  db_stages :: "(string \<times> string \<times> int) list option"

record server_store =
  rs_db :: server_db
  rs_poisoned :: bool
  rs_ca :: certificate_authority

text \<open>The code the server calls: serde_json, base64 and libsignal's key and certificate forms.\<close>

record server_lib =
  bundle_to_string :: "prekey_bundle_json \<Rightarrow> (string, string) result"
  bundle_from_str :: "string \<Rightarrow> (prekey_bundle_json, string) result"
  stored_to_string :: "stored_envelope \<Rightarrow> (string, string) result"
  stored_from_str :: "string \<Rightarrow> (stored_envelope, string) result"
  stored_list_to_string :: "stored_envelope list \<Rightarrow> (string, string) result"
  stored_list_from_str :: "string \<Rightarrow> (stored_envelope list, string) result"
  base64_encode :: "bytes \<Rightarrow> string"
  base64_decode :: "string \<Rightarrow> bytes option"
  public_key_of :: "bytes \<Rightarrow> bytes option"
  cert_serialized :: "bytes \<Rightarrow> bytes option"
  signal_text :: "signal_error \<Rightarrow> string"
  relay_certs :: cert_lib

definition server_json_law :: "server_lib \<Rightarrow> bool" where
  "server_json_law L \<longleftrightarrow>
    (\<forall>b s. bundle_to_string L b = Ok s \<longrightarrow> bundle_from_str L s = Ok b)
    \<and> (\<forall>e s. stored_to_string L e = Ok s \<longrightarrow> stored_from_str L s = Ok e)
    \<and> (\<forall>es s. stored_list_to_string L es = Ok s \<longrightarrow> stored_list_from_str L s = Ok es)"

definition MAX_SENDER_CERT_TTL :: duration where
  "MAX_SENDER_CERT_TTL = 7 * 24 * 60 * 60 * 1000000000"

definition RELAY_EPHEMERAL_TEST_KEY :: string where
  "RELAY_EPHEMERAL_TEST_KEY = ''parda-ephemeral-test-key-do-not-use-in-production''"

definition PULL_STAGE_TTL_MS :: u64 where
  "PULL_STAGE_TTL_MS = 5 * 60 * 1000"

definition CURRENT_SCHEMA_VERSION :: int where
  "CURRENT_SCHEMA_VERSION = 2"

section \<open>Opening\<close>

text \<open>A panic is an error with the text of the failed \<open>expect\<close>.\<close>

type_synonym 'a or_panic = "('a, string) result"

definition expect :: "string \<Rightarrow> ('a, 'e) result \<Rightarrow> 'a or_panic" where
  "expect msg r = map_err (\<lambda>_. msg) r"

definition relay_now_millis :: "int \<Rightarrow> u64 or_panic" where
  "relay_now_millis wall =
    (if wall < 0 then Err ''system clock before Unix epoch'' else Ok (unix_millis wall))"

definition created :: "'a list option \<Rightarrow> 'a list option" where
  "created t = Some (case t of None \<Rightarrow> [] | Some rows \<Rightarrow> rows)"

definition relay_run_migrations :: "server_db \<Rightarrow> server_db" where
  "relay_run_migrations d =
    (let current = db_version d;
         d = (if current < 1 then
                d\<lparr>db_bundles := created (db_bundles d), db_messages := created (db_messages d)\<rparr>
              else d);
         d = (if current < 2 then d\<lparr>db_stages := created (db_stages d)\<rparr> else d)
     in if current < CURRENT_SCHEMA_VERSION then d\<lparr>db_version := CURRENT_SCHEMA_VERSION\<rparr> else d)"

definition relay_from_connection ::
  "server_lib \<Rightarrow> key_pair \<Rightarrow> key_pair \<Rightarrow> server_db \<Rightarrow> string \<Rightarrow> server_store or_panic" where
  "relay_from_connection L trust_root server_kp file key =
    (if db_key file \<noteq> None \<and> db_key file \<noteq> Some key then
       Err (''failed to unlock relay database '' @ em_dash
         @ '' wrong PARDA_DB_KEY, or the file is not a SQLCipher database'')
     else
       and_then (expect ''failed to initialise sealed-sender certificate authority''
         (from_trust_root (relay_certs L) trust_root server_kp)) (\<lambda>ca.
       Ok \<lparr>rs_db = relay_run_migrations (file\<lparr>db_key := Some key\<rparr>), rs_poisoned = False, rs_ca = ca\<rparr>))"

definition new_relay_file :: server_db where
  "new_relay_file = \<lparr>db_key = None, db_version = 0, db_bundles = None, db_messages = None, db_stages = None\<rparr>"

definition relay_open_ephemeral :: "server_lib \<Rightarrow> key_pair \<Rightarrow> key_pair \<Rightarrow> server_store or_panic" where
  "relay_open_ephemeral L trust_root server_kp =
    relay_from_connection L trust_root server_kp new_relay_file RELAY_EPHEMERAL_TEST_KEY"

text \<open>\<open>RelayStore::new\<close>: \<open>files\<close> is the file system, \<open>env\<close> the process environment.\<close>

definition relay_store_new ::
  "server_lib \<Rightarrow> key_pair \<Rightarrow> key_pair \<Rightarrow> (string \<Rightarrow> server_db) \<Rightarrow> (string \<Rightarrow> string option) \<Rightarrow> server_store or_panic" where
  "relay_store_new L trust_root server_kp files env =
    (let path = (case env ''PARDA_DB_PATH'' of Some p \<Rightarrow> p | None \<Rightarrow> ''parda-relay.sqlite3'')
     in and_then (ok_or (env ''PARDA_DB_KEY'')
           (''PARDA_DB_KEY is not set. The relay store is encrypted at rest and refuses to ''
            @ ''start with a default or empty key. Set PARDA_DB_KEY to a strong passphrase ''
            @ ''(e.g. `openssl rand -hex 32`).'')) (\<lambda>key.
        relay_from_connection L trust_root server_kp (files path) key))"

section \<open>Store operations\<close>

text \<open>
  \<open>conn.lock().unwrap()\<close> around a closure: a poisoned mutex panics at once, and a panic of
  the closure, with whatever it changed before, leaves the mutex poisoned.
\<close>

definition locked :: "(server_db \<Rightarrow> 'a or_panic \<times> server_db) \<Rightarrow> server_store \<Rightarrow> 'a or_panic \<times> server_store" where
  "locked f s =
    (if rs_poisoned s then (Err ''PoisonError'', s)
     else (case f (rs_db s) of
         (Ok a, d) \<Rightarrow> (Ok a, s\<lparr>rs_db := d\<rparr>)
       | (Err m, d) \<Rightarrow> (Err m, s\<lparr>rs_db := d, rs_poisoned := True\<rparr>)))"

definition put_bundle ::
  "server_lib \<Rightarrow> string \<Rightarrow> prekey_bundle_json \<Rightarrow> server_store \<Rightarrow> unit or_panic \<times> server_store" where
  "put_bundle L user_id bundle s =
    (case expect ''PreKeyBundleJson must serialise'' (bundle_to_string L bundle) of
       Err m \<Rightarrow> (Err m, s)
     | Ok json \<Rightarrow> locked (\<lambda>d.
         case db_bundles d of
           None \<Rightarrow> (Err ''failed to store prekey bundle'', d)
         | Some rows \<Rightarrow> (Ok (), d\<lparr>db_bundles := Some (AList.update user_id json rows)\<rparr>)) s)"

definition get_bundle ::
  "server_lib \<Rightarrow> string \<Rightarrow> server_store \<Rightarrow> prekey_bundle_json option or_panic \<times> server_store" where
  "get_bundle L user_id s = locked (\<lambda>d.
    case db_bundles d of
      None \<Rightarrow> (Err ''failed to query prekey bundle'', d)
    | Some rows \<Rightarrow>
        (case map_of rows user_id of
           None \<Rightarrow> (Ok None, d)
         | Some j \<Rightarrow> (map_ok Some (expect ''stored bundle_json must deserialise'' (bundle_from_str L j)), d))) s"

definition enqueue ::
  "server_lib \<Rightarrow> string \<Rightarrow> stored_envelope \<Rightarrow> server_store \<Rightarrow> unit or_panic \<times> server_store" where
  "enqueue L recipient e s =
    (case expect ''StoredEnvelope must serialise'' (stored_to_string L e) of
       Err m \<Rightarrow> (Err m, s)
     | Ok json \<Rightarrow> locked (\<lambda>d.
         case db_messages d of
           None \<Rightarrow> (Err ''failed to enqueue message'', d)
         | Some rows \<Rightarrow>
             if se_id e \<in> q_id ` set rows then (Err ''failed to enqueue message'', d)
             else (Ok (), d\<lparr>db_messages := Some (rows @ [\<lparr>q_id = se_id e, q_recipient_id = recipient,
                     q_envelope_json = json, q_created_at_ms = as_i64 (timestamp_ms (se_envelope e))\<rparr>])\<rparr>)) s)"

text \<open>\<open>ORDER BY created_at_ms ASC\<close> is SQLite's stable sort over the rows in insertion order.\<close>

definition rows_for :: "string \<Rightarrow> queue_row list \<Rightarrow> queue_row list" where
  "rows_for user rows = sort_key q_created_at_ms (filter (\<lambda>r. q_recipient_id r = user) rows)"

definition drain :: "server_lib \<Rightarrow> string \<Rightarrow> server_store \<Rightarrow> stored_envelope list or_panic \<times> server_store" where
  "drain L user s = locked (\<lambda>d.
    case db_messages d of
      None \<Rightarrow> (Err ''failed to prepare drain query'', d)
    | Some rows \<Rightarrow>
        (case collect_ok (map (\<lambda>r. expect ''stored envelope_json must deserialise''
                (stored_from_str L (q_envelope_json r))) (rows_for user rows)) of
           Err m \<Rightarrow> (Err m, d)
         | Ok envelopes \<Rightarrow>
             (Ok envelopes, d\<lparr>db_messages := Some (filter (\<lambda>r. q_recipient_id r \<noteq> user) rows)\<rparr>))) s"

text \<open>
  Staging takes the lock twice: \<open>drain\<close> first, \<open>stage_drained\<close> with what it returned
  afterwards; another request may run in between.
\<close>

definition stage_drained ::
  "server_lib \<Rightarrow> int \<Rightarrow> string \<Rightarrow> stored_envelope list \<Rightarrow> server_store \<Rightarrow> unit or_panic \<times> server_store" where
  "stage_drained L wall token envelopes s =
    (case and_then (expect ''Vec<StoredEnvelope> must serialise'' (stored_list_to_string L envelopes)) (\<lambda>json.
          and_then (relay_now_millis wall) (\<lambda>now_ms. Ok (json, now_ms))) of
       Err m \<Rightarrow> (Err m, s)
     | Ok (json, now_ms) \<Rightarrow> locked (\<lambda>d.
         case db_stages d of
           None \<Rightarrow> (Err ''failed to sweep expired pull stages'', d)
         | Some rows \<Rightarrow>
             let kept = filter (\<lambda>(t, j, at). \<not> at < as_i64 (saturating_sub now_ms PULL_STAGE_TTL_MS)) rows
             in (Ok (), d\<lparr>db_stages := Some (AList.update token (json, as_i64 now_ms) kept)\<rparr>)) s)"

definition stage_pull ::
  "server_lib \<Rightarrow> int \<Rightarrow> string \<Rightarrow> string \<Rightarrow> server_store \<Rightarrow> unit or_panic \<times> server_store" where
  "stage_pull L wall recipient token s =
    (case drain L recipient s of
       (Err m, s') \<Rightarrow> (Err m, s')
     | (Ok envelopes, s') \<Rightarrow> stage_drained L wall token envelopes s')"

definition fetch_pull ::
  "server_lib \<Rightarrow> string \<Rightarrow> server_store \<Rightarrow> stored_envelope list option or_panic \<times> server_store" where
  "fetch_pull L token s = locked (\<lambda>d.
    case db_stages d of
      None \<Rightarrow> (Err ''failed to query staged pull'', d)
    | Some rows \<Rightarrow>
        let d' = d\<lparr>db_stages := Some (AList.delete token rows)\<rparr>
        in (case map_of rows token of
              None \<Rightarrow> (Ok None, d')
            | Some (j, _) \<Rightarrow>
                (map_ok Some (expect ''stored messages_json must deserialise'' (stored_list_from_str L j)), d'))) s"

definition delete_message :: "string \<Rightarrow> string \<Rightarrow> server_store \<Rightarrow> bool or_panic \<times> server_store" where
  "delete_message user message_id s = locked (\<lambda>d.
    case db_messages d of
      None \<Rightarrow> (Err ''failed to delete message'', d)
    | Some rows \<Rightarrow>
        let hit = (\<lambda>r. q_id r = message_id \<and> q_recipient_id r = user)
        in (Ok (\<exists>r \<in> set rows. hit r), d\<lparr>db_messages := Some (filter (\<lambda>r. \<not> hit r) rows)\<rparr>)) s"

definition store_issue_sender_certificate ::
  "server_lib \<Rightarrow> server_store \<Rightarrow> duration \<Rightarrow> string \<Rightarrow> bytes \<Rightarrow> u32 \<Rightarrow> u64 \<Rightarrow> bytes parda" where
  "store_issue_sender_certificate L s since_epoch user_id identity_key device_id ttl_secs =
    (let ttl = min (unat ttl_secs * 1000000000) MAX_SENDER_CERT_TTL
     in issue_sender_certificate (relay_certs L) (rs_ca s) user_id identity_key device_id since_epoch ttl)"

section \<open>Handlers\<close>

datatype relay_body =
    ApiOk bool "string option"
  | JsonError string
  | Health string string
  | BundleBody prekey_bundle_json
  | CertificateBody string
  | TrustRootBody string
  | SubmittedBody bool string
  | MessagesBody "stored_envelope list"
  | EmptyBody

datatype relay_response = Response nat relay_body

type_synonym handled = "relay_response or_panic \<times> server_store"

definition respond :: "('a \<Rightarrow> relay_response) \<Rightarrow> 'a or_panic \<times> server_store \<Rightarrow> handled" where
  "respond f r = (map_ok f (fst r), snd r)"

definition health :: "string \<Rightarrow> relay_response" where
  "health pkg_version = Response 200 (Health ''ok'' pkg_version)"

definition upload_prekey_bundle :: "server_lib \<Rightarrow> string \<Rightarrow> prekey_bundle_json \<Rightarrow> server_store \<Rightarrow> handled" where
  "upload_prekey_bundle L user_id bundle s =
    respond (\<lambda>_. Response 200 (ApiOk True (Some ''bundle stored''))) (put_bundle L user_id bundle s)"

definition get_prekey_bundle :: "server_lib \<Rightarrow> string \<Rightarrow> server_store \<Rightarrow> handled" where
  "get_prekey_bundle L user_id s =
    respond (\<lambda>r. case r of
        Some bundle \<Rightarrow> Response 200 (BundleBody bundle)
      | None \<Rightarrow> Response 404 (JsonError ''no prekey bundle found for user'')) (get_bundle L user_id s)"

definition handle_issue_certificate ::
  "server_lib \<Rightarrow> duration \<Rightarrow> string \<Rightarrow> issue_cert_request \<Rightarrow> server_store \<Rightarrow> relay_response" where
  "handle_issue_certificate L since_epoch user_id req s =
    (case base64_decode L (icr_identity_key req) of
       None \<Rightarrow> Response 400 (JsonError ''identity_key is not valid base64'')
     | Some key_bytes \<Rightarrow>
    (case public_key_of L key_bytes of
       None \<Rightarrow> Response 400 (JsonError ''identity_key is not a valid public key'')
     | Some identity_key \<Rightarrow>
    (case store_issue_sender_certificate L s since_epoch user_id identity_key (icr_device_id req)
            (icr_ttl_secs req) of
       Ok cert \<Rightarrow>
         (case cert_serialized L cert of
            None \<Rightarrow> Response 500 (JsonError ''failed to serialise certificate'')
          | Some serialized \<Rightarrow> Response 200 (CertificateBody (base64_encode L serialized)))
     | Err e \<Rightarrow> Response 500 (JsonError (''failed to issue certificate: ''
         @ display_parda (signal_text L) e)))))"

definition get_trust_root :: "server_lib \<Rightarrow> server_store \<Rightarrow> relay_response" where
  "get_trust_root L s = Response 200 (TrustRootBody (base64_encode L (trust_root_public_key (rs_ca s))))"

text \<open>\<open>msg_id\<close> is the UUID drawn for the message.\<close>

definition submit_message ::
  "server_lib \<Rightarrow> string \<Rightarrow> string \<Rightarrow> message_envelope \<Rightarrow> server_store \<Rightarrow> handled" where
  "submit_message L msg_id recipient e s =
    (if recipient_id e \<noteq> recipient then
       (Ok (Response 400 (JsonError ''recipient_id path param does not match envelope.recipient_id'')), s)
     else
       respond (\<lambda>_. Response 201 (SubmittedBody True msg_id))
         (enqueue L recipient \<lparr>se_id = msg_id, se_envelope = e\<rparr> s))"

definition fetch_messages :: "server_lib \<Rightarrow> string \<Rightarrow> server_store \<Rightarrow> handled" where
  "fetch_messages L user_id s = respond (\<lambda>ms. Response 200 (MessagesBody ms)) (drain L user_id s)"

definition handle_stage_pull :: "server_lib \<Rightarrow> int \<Rightarrow> pull_request \<Rightarrow> server_store \<Rightarrow> handled" where
  "handle_stage_pull L wall request s =
    respond (\<lambda>_. Response 202 (ApiOk True None))
      (stage_pull L wall (pull_recipient_id request) (rendezvous_token request) s)"

definition handle_fetch_pull :: "server_lib \<Rightarrow> string \<Rightarrow> server_store \<Rightarrow> handled" where
  "handle_fetch_pull L token s =
    respond (\<lambda>r. Response 200 (MessagesBody (case r of Some ms \<Rightarrow> ms | None \<Rightarrow> []))) (fetch_pull L token s)"

definition handle_delete_message :: "string \<Rightarrow> string \<Rightarrow> server_store \<Rightarrow> handled" where
  "handle_delete_message user_id msg_id s =
    respond (\<lambda>deleted. if deleted then Response 200 (ApiOk True None)
        else Response 404 (ApiOk True (Some ''message not found''))) (delete_message user_id msg_id s)"

section \<open>Router\<close>

text \<open>
  \<open>app\<close>: the path as its decoded segments.  A literal segment takes precedence over a
  parameter, and a parameter does not match an empty segment; a known path with another
  method is 405.
\<close>

datatype http_method = GET | POST | DELETE

datatype endpoint =
    AtHealth
  | UploadBundle string
  | GetBundle string
  | IssueCert string
  | TrustRoot
  | FetchMessages string
  | SubmitMessage string
  | DeleteMessage string string
  | StagePull
  | FetchPull string

definition methods :: "(http_method \<times> endpoint) list \<Rightarrow> http_method \<Rightarrow> (endpoint, nat) result" where
  "methods table m = ok_or (map_of table m) 405"

definition relay_route :: "http_method \<Rightarrow> string list \<Rightarrow> (endpoint, nat) result" where
  "relay_route m path = (case path of
     [a] \<Rightarrow> if a = ''health'' then methods [(GET, AtHealth)] m else Err 404
   | [a, b] \<Rightarrow> if a = ''v1'' \<and> b = ''pulls'' then methods [(POST, StagePull)] m else Err 404
   | [a, b, c] \<Rightarrow>
       if a \<noteq> ''v1'' \<or> c = [] then Err 404
       else if b = ''keys'' then methods [(POST, UploadBundle c), (GET, GetBundle c)] m
       else if b = ''certs'' \<and> c = ''trust-root'' then methods [(GET, TrustRoot)] m
       else if b = ''certs'' then methods [(POST, IssueCert c)] m
       else if b = ''messages'' then methods [(GET, FetchMessages c), (POST, SubmitMessage c)] m
       else if b = ''pulls'' then methods [(GET, FetchPull c)] m
       else Err 404
   | [a, b, c, d] \<Rightarrow>
       if a = ''v1'' \<and> b = ''messages'' \<and> c \<noteq> [] \<and> d \<noteq> [] then methods [(DELETE, DeleteMessage c d)] m
       else Err 404
   | _ \<Rightarrow> Err 404)"

text \<open>What the \<open>Json\<close> extractor made of the body; its refusal has a status of axum's choice.\<close>

datatype payload =
    Refused nat
  | BundleJson prekey_bundle_json
  | CertJson issue_cert_request
  | EnvelopeJson message_envelope
  | PullJson pull_request

fun refusal :: "payload \<Rightarrow> nat" where
  "refusal (Refused code) = code"
| "refusal _ = 422"

record relay_env =
  re_version :: string
  re_msg_id :: string
  re_wall :: int

definition relay_handle ::
  "server_lib \<Rightarrow> relay_env \<Rightarrow> endpoint \<Rightarrow> payload \<Rightarrow> server_store \<Rightarrow> handled" where
  "relay_handle L E ep body s = (case ep of
     AtHealth \<Rightarrow> (Ok (health (re_version E)), s)
   | UploadBundle u \<Rightarrow>
       (case body of BundleJson b \<Rightarrow> upload_prekey_bundle L u b s
        | _ \<Rightarrow> (Ok (Response (refusal body) EmptyBody), s))
   | GetBundle u \<Rightarrow> get_prekey_bundle L u s
   | IssueCert u \<Rightarrow>
       (case body of CertJson r \<Rightarrow>
          (if re_wall E < 0 then (Err ''system clock before UNIX epoch'', s)
           else (Ok (handle_issue_certificate L (nat (re_wall E)) u r s), s))
        | _ \<Rightarrow> (Ok (Response (refusal body) EmptyBody), s))
   | TrustRoot \<Rightarrow> (Ok (get_trust_root L s), s)
   | FetchMessages u \<Rightarrow> fetch_messages L u s
   | SubmitMessage u \<Rightarrow>
       (case body of EnvelopeJson e \<Rightarrow> submit_message L (re_msg_id E) u e s
        | _ \<Rightarrow> (Ok (Response (refusal body) EmptyBody), s))
   | DeleteMessage u m \<Rightarrow> handle_delete_message u m s
   | StagePull \<Rightarrow>
       (case body of PullJson p \<Rightarrow> handle_stage_pull L (re_wall E) p s
        | _ \<Rightarrow> (Ok (Response (refusal body) EmptyBody), s))
   | FetchPull t \<Rightarrow> handle_fetch_pull L t s)"

definition relay_app ::
  "server_lib \<Rightarrow> relay_env \<Rightarrow> http_method \<Rightarrow> string list \<Rightarrow> payload \<Rightarrow> server_store \<Rightarrow> handled" where
  "relay_app L E m path body s = (case relay_route m path of
     Err code \<Rightarrow> (Ok (Response code EmptyBody), s)
   | Ok ep \<Rightarrow> relay_handle L E ep body s)"

section \<open>The relay under concurrent requests\<close>

text \<open>
  Requests interleave at the connection's mutex.  \<open>staging\<close> holds the queues a pull request
  has drained and not staged yet; \<open>delivered\<close> and \<open>submitted\<close> record what left through a
  response and what a submit accepted.
\<close>

record relay_world =
  w_store :: server_store
  w_staging :: "(string \<times> stored_envelope list) multiset"
  w_delivered :: "stored_envelope multiset"
  w_submitted :: "stored_envelope multiset"

inductive relay_step :: "server_lib \<Rightarrow> relay_world \<Rightarrow> relay_world \<Rightarrow> bool" for L where
  submitting: "enqueue L (recipient_id (se_envelope e)) e (w_store w) = (Ok (), s) \<Longrightarrow>
    relay_step L w (w\<lparr>w_store := s, w_submitted := add_mset e (w_submitted w)\<rparr>)"
| fetching: "drain L u (w_store w) = (Ok es, s) \<Longrightarrow>
    relay_step L w (w\<lparr>w_store := s, w_delivered := w_delivered w + mset es\<rparr>)"
| draining: "drain L u (w_store w) = (Ok es, s) \<Longrightarrow>
    relay_step L w (w\<lparr>w_store := s, w_staging := add_mset (t, es) (w_staging w)\<rparr>)"
| staging: "w_staging w = add_mset (t, es) rest \<Longrightarrow> stage_drained L wall t es (w_store w) = (r, s) \<Longrightarrow>
    relay_step L w (w\<lparr>w_store := s, w_staging := rest\<rparr>)"
| pulling: "fetch_pull L t (w_store w) = (Ok r, s) \<Longrightarrow>
    relay_step L w (w\<lparr>w_store := s,
      w_delivered := w_delivered w + mset (case r of Some es \<Rightarrow> es | None \<Rightarrow> [])\<rparr>)"
| deleting: "delete_message u m (w_store w) = (r, s) \<Longrightarrow> relay_step L w (w\<lparr>w_store := s\<rparr>)"
| uploading: "put_bundle L u b (w_store w) = (r, s) \<Longrightarrow> relay_step L w (w\<lparr>w_store := s\<rparr>)"
| failing_submit: "enqueue L u e (w_store w) = (Err m, s) \<Longrightarrow> relay_step L w (w\<lparr>w_store := s\<rparr>)"
| failing_fetch: "drain L u (w_store w) = (Err m, s) \<Longrightarrow> relay_step L w (w\<lparr>w_store := s\<rparr>)"
| failing_pull: "fetch_pull L t (w_store w) = (Err m, s) \<Longrightarrow> relay_step L w (w\<lparr>w_store := s\<rparr>)"
| restarting: "relay_from_connection L root server (rs_db (w_store w)) key = Ok s \<Longrightarrow>
    relay_step L w (w\<lparr>w_store := s, w_staging := {#}\<rparr>)"

definition relay_starts :: "server_store \<Rightarrow> relay_world" where
  "relay_starts s = \<lparr>w_store = s, w_staging = {#}, w_delivered = {#}, w_submitted = {#}\<rparr>"

text \<open>What the tables hold, read through the codec.\<close>

definition row_envelopes :: "server_lib \<Rightarrow> queue_row \<Rightarrow> stored_envelope multiset" where
  "row_envelopes L r = (case stored_from_str L (q_envelope_json r) of Ok e \<Rightarrow> {#e#} | Err _ \<Rightarrow> {#})"

definition stage_envelopes :: "server_lib \<Rightarrow> string \<times> string \<times> int \<Rightarrow> stored_envelope multiset" where
  "stage_envelopes L r = (case stored_list_from_str L (fst (snd r)) of Ok es \<Rightarrow> mset es | Err _ \<Rightarrow> {#})"

definition db_contents :: "server_lib \<Rightarrow> server_db \<Rightarrow> stored_envelope multiset" where
  "db_contents L d =
    (\<Sum>r \<leftarrow> (case db_messages d of Some rows \<Rightarrow> rows | None \<Rightarrow> []). row_envelopes L r)
    + (\<Sum>r \<leftarrow> (case db_stages d of Some rows \<Rightarrow> rows | None \<Rightarrow> []). stage_envelopes L r)"

definition accounted :: "server_lib \<Rightarrow> relay_world \<Rightarrow> bool" where
  "accounted L w \<longleftrightarrow>
    w_delivered w + (\<Sum>(t, es) \<in># w_staging w. mset es) + db_contents L (rs_db (w_store w)) \<subseteq># w_submitted w"

section \<open>Lemmas\<close>

lemma locked_Ok_iff:
  "locked f s = (Ok a, s') \<longleftrightarrow>
    \<not> rs_poisoned s \<and> (\<exists>d. f (rs_db s) = (Ok a, d) \<and> s' = s\<lparr>rs_db := d\<rparr>)"
  by (auto simp: locked_def split: prod.splits result.splits)

lemma locked_db:
  assumes "locked f s = (r, s')"
  shows "rs_db s' = rs_db s \<or> (\<exists>r'. f (rs_db s) = (r', rs_db s'))"
  using assms by (auto simp: locked_def split: prod.splits result.splits if_splits)

lemma locked_Err_db:
  assumes "locked f s = (Err m, s')" "\<And>d m d'. f d = (Err m, d') \<Longrightarrow> db_contents L d' \<subseteq># db_contents L d"
  shows "db_contents L (rs_db s') \<subseteq># db_contents L (rs_db s)"
  using assms by (auto simp: locked_def split: prod.splits result.splits if_splits)

lemma sum_list_mset_filter:
  "(\<Sum>r \<leftarrow> filter P xs. f r) + (\<Sum>r \<leftarrow> filter (\<lambda>r. \<not> P r) xs. f r) = (\<Sum>r \<leftarrow> xs. (f r :: 'a multiset))"
  by (induction xs) (auto simp: ac_simps)

lemma sum_list_filter_subset: "(\<Sum>r \<leftarrow> filter P xs. f r) \<subseteq># (\<Sum>r \<leftarrow> xs. (f r :: 'a multiset))"
  by (metis sum_list_mset_filter mset_subset_eq_add_left)

lemma sum_list_sort_key: "(\<Sum>r \<leftarrow> sort_key k xs. f r) = (\<Sum>r \<leftarrow> xs. (f r :: 'a multiset))"
  by (metis mset_sort mset_map sum_mset_sum_list)

lemma collect_ok_row_envelopes:
  assumes "collect_ok (map (\<lambda>r. expect m (stored_from_str L (q_envelope_json r))) rows) = Ok es"
  shows "(\<Sum>r \<leftarrow> rows. row_envelopes L r) = mset es"
  using assms
proof (induction rows arbitrary: es)
  case (Cons r rows)
  then obtain e es' where "stored_from_str L (q_envelope_json r) = Ok e" "es = e # es'"
    "collect_ok (map (\<lambda>r. expect m (stored_from_str L (q_envelope_json r))) rows) = Ok es'"
    by (auto simp: and_then_Ok_iff expect_def)
  with Cons.IH [of es'] show ?case
    by (simp add: row_envelopes_def)
qed simp

lemma sum_list_update:
  "(\<Sum>r \<leftarrow> AList.update t v rows. f r) \<subseteq># f (t, v) + (\<Sum>r \<leftarrow> rows. (f r :: 'a multiset))"
proof (induction rows)
  case (Cons r rows)
  show ?case
  proof (cases "fst r = t")
    case True
    then show ?thesis by (cases r) simp
  next
    case False
    then have "AList.update t v (r # rows) = r # AList.update t v rows" by (cases r) simp
    with Cons.IH show ?thesis
      by (simp add: ac_simps)
  qed
qed simp

lemma sum_list_alist_delete:
  assumes "map_of rows t = Some v"
  shows "f (t, v) + (\<Sum>r \<leftarrow> AList.delete t rows. f r) \<subseteq># (\<Sum>r \<leftarrow> rows. (f r :: 'a multiset))"
  using assms
proof (induction rows)
  case (Cons r rows)
  obtain t' v' where r: "r = (t', v')" by force
  show ?case
  proof (cases "t' = t")
    case True
    then have "v' = v" using Cons.prems r by simp
    moreover have "(\<Sum>r \<leftarrow> AList.delete t rows. f r) \<subseteq># (\<Sum>r \<leftarrow> rows. f r)"
      by (simp add: AList.delete_eq sum_list_filter_subset)
    ultimately show ?thesis using True r by simp
  next
    case False
    with Cons r show ?thesis by (simp add: ac_simps)
  qed
qed simp

subsection \<open>What each operation does to the contents\<close>

lemma enqueue_contents:
  assumes law: "server_json_law L" and "enqueue L u e s = (r, s')"
  shows "db_contents L (rs_db s') \<subseteq># (case r of Ok _ \<Rightarrow> {#e#} | Err _ \<Rightarrow> {#}) + db_contents L (rs_db s)"
proof (cases "stored_to_string L e")
  case (Ok json)
  then have "stored_from_str L json = Ok e"
    using law unfolding server_json_law_def by blast
  then show ?thesis
    using assms(2) Ok
    by (auto simp: enqueue_def expect_def locked_def db_contents_def row_envelopes_def
        split: option.splits if_splits)
next
  case (Err m)
  then show ?thesis
    using assms(2) by (auto simp: enqueue_def expect_def)
qed

lemma drain_contents:
  assumes "drain L u s = (Ok es, s')"
  shows "mset es + db_contents L (rs_db s') = db_contents L (rs_db s)"
proof -
  obtain rows where rows: "db_messages (rs_db s) = Some rows"
    and es: "collect_ok (map (\<lambda>r. expect ''stored envelope_json must deserialise''
                (stored_from_str L (q_envelope_json r))) (rows_for u rows)) = Ok es"
    and s': "s' = s\<lparr>rs_db := (rs_db s)\<lparr>db_messages := Some (filter (\<lambda>r. q_recipient_id r \<noteq> u) rows)\<rparr>\<rparr>"
    using assms by (auto simp: drain_def locked_Ok_iff split: option.splits result.splits)
  have "(\<Sum>r \<leftarrow> filter (\<lambda>r. q_recipient_id r = u) rows. row_envelopes L r) = mset es"
    using collect_ok_row_envelopes [OF es] by (simp add: rows_for_def sum_list_sort_key)
  then show ?thesis
    using sum_list_mset_filter [of "row_envelopes L" "\<lambda>r. q_recipient_id r = u" rows]
    by (simp add: db_contents_def rows s' ac_simps)
qed

lemma stage_drained_Ok:
  assumes "stage_drained L wall t es s = (Ok u, s')"
  obtains json rows where "stored_list_to_string L es = Ok json" "\<not> rs_poisoned s" "0 \<le> wall"
    "db_stages (rs_db s) = Some rows"
    "s' = s\<lparr>rs_db := (rs_db s)\<lparr>db_stages := Some (AList.update t (json, as_i64 (unix_millis wall))
      (filter (\<lambda>(t, j, at). \<not> at < as_i64 (saturating_sub (unix_millis wall) PULL_STAGE_TTL_MS)) rows))\<rparr>\<rparr>"
  using assms
  by (auto simp: stage_drained_def expect_def relay_now_millis_def locked_Ok_iff Let_def and_then_Ok_iff
      split: option.splits result.splits if_splits prod.splits)

lemma stage_drained_Err:
  "stage_drained L wall t es s = (Err m, s') \<Longrightarrow> rs_db s' = rs_db s"
  by (auto simp: stage_drained_def locked_def Let_def split: option.splits result.splits if_splits prod.splits)

lemma stage_drained_contents:
  assumes law: "server_json_law L" and "stage_drained L wall t es s = (r, s')"
  shows "db_contents L (rs_db s') \<subseteq># mset es + db_contents L (rs_db s)"
proof (cases r)
  case (Err m)
  then show ?thesis
    using stage_drained_Err assms(2) by (metis mset_subset_eq_add_right)
next
  case (Ok u)
  obtain json rows where j: "stored_list_to_string L es = Ok json" and rows: "db_stages (rs_db s) = Some rows"
    and s': "s' = s\<lparr>rs_db := (rs_db s)\<lparr>db_stages := Some (AList.update t (json, as_i64 (unix_millis wall))
      (filter (\<lambda>(t, j, at). \<not> at < as_i64 (saturating_sub (unix_millis wall) PULL_STAGE_TTL_MS)) rows))\<rparr>\<rparr>"
    using assms(2) Ok by (auto elim: stage_drained_Ok)
  let ?kept = "filter (\<lambda>(t, j, at). \<not> at < as_i64 (saturating_sub (unix_millis wall) PULL_STAGE_TTL_MS)) rows"
  have "stored_list_from_str L json = Ok es"
    using law j unfolding server_json_law_def by blast
  then have "(\<Sum>r \<leftarrow> AList.update t (json, as_i64 (unix_millis wall)) ?kept. stage_envelopes L r)
      \<subseteq># mset es + (\<Sum>r \<leftarrow> ?kept. stage_envelopes L r)"
    using sum_list_update [of "stage_envelopes L" t "(json, as_i64 (unix_millis wall))" ?kept]
    by (simp add: stage_envelopes_def)
  also have "\<dots> \<subseteq># mset es + (\<Sum>r \<leftarrow> rows. stage_envelopes L r)"
    by (simp add: sum_list_filter_subset)
  finally show ?thesis
    by (simp add: db_contents_def s' rows ac_simps)
qed

lemma fetch_pull_contents:
  assumes "fetch_pull L t s = (Ok r, s')"
  shows "mset (case r of Some es \<Rightarrow> es | None \<Rightarrow> []) + db_contents L (rs_db s') \<subseteq># db_contents L (rs_db s)"
proof -
  obtain rows where rows: "db_stages (rs_db s) = Some rows"
    and s': "s' = s\<lparr>rs_db := (rs_db s)\<lparr>db_stages := Some (AList.delete t rows)\<rparr>\<rparr>"
    and r: "case map_of rows t of None \<Rightarrow> r = None
      | Some (j, _) \<Rightarrow> \<exists>es. stored_list_from_str L j = Ok es \<and> r = Some es"
    using assms by (auto simp: fetch_pull_def Let_def locked_Ok_iff map_ok_Ok_iff expect_def split: option.splits)
  show ?thesis
  proof (cases "map_of rows t")
    case None
    then show ?thesis
      using r by (simp add: db_contents_def rows s' AList.delete_eq sum_list_filter_subset)
  next
    case (Some v)
    with r obtain es where "stored_list_from_str L (fst v) = Ok es" "r = Some es"
      by (auto split: prod.splits)
    then show ?thesis
      using sum_list_alist_delete [OF Some, of "stage_envelopes L"]
      by (simp add: db_contents_def rows s' stage_envelopes_def ac_simps)
  qed
qed

lemma delete_message_contents:
  "delete_message u m s = (r, s') \<Longrightarrow> db_contents L (rs_db s') \<subseteq># db_contents L (rs_db s)"
  by (auto simp: delete_message_def Let_def locked_def db_contents_def
      sum_list_filter_subset split: option.splits if_splits)

lemma put_bundle_contents:
  "put_bundle L u b s = (r, s') \<Longrightarrow> db_contents L (rs_db s') = db_contents L (rs_db s)"
  by (auto simp: put_bundle_def Let_def locked_def db_contents_def
      split: option.splits if_splits result.splits)

lemma failed_drain_contents:
  "drain L u s = (Err m, s') \<Longrightarrow> db_contents L (rs_db s') = db_contents L (rs_db s)"
  by (auto simp: drain_def locked_def split: option.splits if_splits result.splits)

lemma failed_pull_contents:
  "fetch_pull L t s = (Err m, s') \<Longrightarrow> db_contents L (rs_db s') \<subseteq># db_contents L (rs_db s)"
  by (auto simp: fetch_pull_def Let_def locked_def db_contents_def AList.delete_eq sum_list_filter_subset
      split: option.splits if_splits result.splits)

lemma created_rows: "(case created t of Some rows \<Rightarrow> rows | None \<Rightarrow> []) = (case t of Some rows \<Rightarrow> rows | None \<Rightarrow> [])"
  by (cases t) (simp_all add: created_def)

lemma migrations_contents: "db_contents L (relay_run_migrations d) = db_contents L d"
  by (simp add: relay_run_migrations_def Let_def db_contents_def created_rows)

lemma restart_contents:
  "relay_from_connection L root server d key = Ok s \<Longrightarrow> db_contents L (rs_db s) = db_contents L d"
  using migrations_contents [of L "d\<lparr>db_key := Some key\<rparr>"]
  by (auto simp: relay_from_connection_def db_contents_def and_then_Ok_iff split: if_splits)

lemma accounted_start: "db_contents L (rs_db s) = {#} \<Longrightarrow> accounted L (relay_starts s)"
  by (simp add: accounted_def relay_starts_def)

lemma accounted_mono:
  assumes "accounted L w"
    and "w_delivered w' + (\<Sum>(t, es) \<in># w_staging w'. mset es) + db_contents L (rs_db (w_store w')) \<subseteq>#
      w_delivered w + (\<Sum>(t, es) \<in># w_staging w. mset es) + db_contents L (rs_db (w_store w)) + added"
    and "w_submitted w' = w_submitted w + added"
  shows "accounted L w'"
  using assms unfolding accounted_def
  by (metis (no_types, lifting) subset_mset.add_right_mono subset_mset.order_trans)

lemma accounted_step:
  assumes law: "server_json_law L" and "relay_step L w w'" "accounted L w"
  shows "accounted L w'"
  using assms(2)
proof cases
  case (submitting e s)
  then show ?thesis
    using enqueue_contents [OF law submitting(2)]
    by (intro accounted_mono [OF assms(3), where added = "{#e#}"]) (auto simp: ac_simps)
next
  case (fetching u es s)
  then show ?thesis
    using drain_contents [OF fetching(2)]
    by (intro accounted_mono [OF assms(3), where added = "{#}"]) (auto simp: ac_simps)
next
  case (draining u es s t)
  then show ?thesis
    using drain_contents [OF draining(2)]
    by (intro accounted_mono [OF assms(3), where added = "{#}"]) (auto simp: ac_simps)
next
  case (staging t es rest wall r s)
  then show ?thesis
    using stage_drained_contents [OF law staging(3)]
    by (intro accounted_mono [OF assms(3), where added = "{#}"]) (auto simp: ac_simps)
next
  case (pulling t r s)
  then show ?thesis
    using fetch_pull_contents [OF pulling(2)]
    by (intro accounted_mono [OF assms(3), where added = "{#}"]) (auto simp: ac_simps)
next
  case (deleting u m r s)
  then show ?thesis
    using delete_message_contents [OF deleting(2)]
    by (intro accounted_mono [OF assms(3), where added = "{#}"]) auto
next
  case (uploading u b r s)
  then show ?thesis
    using put_bundle_contents [OF uploading(2)]
    by (intro accounted_mono [OF assms(3), where added = "{#}"]) auto
next
  case (failing_submit u e m s)
  then show ?thesis
    using enqueue_contents [OF law failing_submit(2)]
    by (intro accounted_mono [OF assms(3), where added = "{#}"]) auto
next
  case (failing_fetch u m s)
  then show ?thesis
    using failed_drain_contents [OF failing_fetch(2)]
    by (intro accounted_mono [OF assms(3), where added = "{#}"]) auto
next
  case (failing_pull t m s)
  then show ?thesis
    using failed_pull_contents [OF failing_pull(2)]
    by (intro accounted_mono [OF assms(3), where added = "{#}"]) auto
next
  case (restarting root server key s)
  then show ?thesis
    using restart_contents [OF restarting(2)]
    by (intro accounted_mono [OF assms(3), where added = "{#}"]) auto
qed

lemma accounted_reachable:
  assumes "server_json_law L" "(relay_step L)\<^sup>*\<^sup>* w w'" "accounted L w"
  shows "accounted L w'"
  using assms(2,3) by (induction rule: rtranclp_induct) (auto intro: accounted_step [OF assms(1)])

definition serving :: "server_store \<Rightarrow> bool" where
  "serving s \<longleftrightarrow> \<not> rs_poisoned s \<and> db_bundles (rs_db s) \<noteq> None \<and> db_messages (rs_db s) \<noteq> None
    \<and> db_stages (rs_db s) \<noteq> None"

lemma serving_drain: "drain L u s = (Ok es, s') \<Longrightarrow> serving s \<Longrightarrow> serving s'"
  by (auto simp: drain_def locked_Ok_iff serving_def split: option.splits result.splits)

lemma opened_relay_serves:
  assumes "relay_from_connection L root server new_relay_file key = Ok s"
  shows "serving s \<and> db_contents L (rs_db s) = {#}"
  using assms
  by (auto simp: relay_from_connection_def new_relay_file_def relay_run_migrations_def created_def
      serving_def db_contents_def and_then_Ok_iff CURRENT_SCHEMA_VERSION_def)

lemma fetch_after_stage:
  assumes law: "server_json_law L" and "stage_drained L wall t es s = (Ok u, s')"
  obtains s'' where "fetch_pull L t s' = (Ok (Some es), s'')" "fetch_pull L t s'' = (Ok None, s'')"
proof -
  obtain json kept where j: "stored_list_to_string L es = Ok json" and p: "\<not> rs_poisoned s"
    and kept: "map_of kept t = Some (json, as_i64 (unix_millis wall))"
    and s': "s' = s\<lparr>rs_db := (rs_db s)\<lparr>db_stages := Some kept\<rparr>\<rparr>"
    using assms(2) by (rule stage_drained_Ok) (rule that, simp_all add: update_conv)
  have "stored_list_from_str L json = Ok es"
    using law j unfolding server_json_law_def by blast
  then have "fetch_pull L t s' = (Ok (Some es), s'\<lparr>rs_db := (rs_db s')\<lparr>db_stages := Some (AList.delete t kept)\<rparr>\<rparr>)"
    using kept p by (simp add: fetch_pull_def locked_def Let_def s' expect_def)
  moreover have again: "AList.delete t (AList.delete t kept) = AList.delete t kept"
    by (simp add: AList.delete_eq)
  have "fetch_pull L t (s'\<lparr>rs_db := (rs_db s')\<lparr>db_stages := Some (AList.delete t kept)\<rparr>\<rparr>)
      = (Ok None, s'\<lparr>rs_db := (rs_db s')\<lparr>db_stages := Some (AList.delete t kept)\<rparr>\<rparr>)"
    using p again by (simp add: fetch_pull_def locked_def Let_def s')
  ultimately show thesis by (rule that)
qed

lemma fetch_pull_miss:
  "fetch_pull L t s = (Ok r, s') \<Longrightarrow> map_of (the (db_stages (rs_db s'))) t' = None \<Longrightarrow>
    fst (fetch_pull L t' s') = Ok None"
  by (auto simp: fetch_pull_def locked_def Let_def split: option.splits result.splits if_splits prod.splits)

lemma drain_Ok:
  assumes "drain L u s = (Ok es, s')" "db_messages (rs_db s) = Some rows"
  shows "collect_ok (map (\<lambda>r. expect ''stored envelope_json must deserialise''
       (stored_from_str L (q_envelope_json r))) (rows_for u rows)) = Ok es"
    and "s' = s\<lparr>rs_db := (rs_db s)\<lparr>db_messages := Some (filter (\<lambda>r. q_recipient_id r \<noteq> u) rows)\<rparr>\<rparr>"
  using assms by (auto simp: drain_def locked_Ok_iff split: option.splits result.splits)

lemma collect_ok_mset:
  assumes "collect_ok (map f xs) = Ok es" "mset ys = mset xs"
  shows "\<exists>es'. collect_ok (map f ys) = Ok es' \<and> mset es' = mset es"
proof -
  have pointwise: "collect_ok (map f zs) = Ok (map g zs)" if "\<forall>z \<in> set zs. f z = Ok (g z)" for zs g
    using that by (induction zs) auto
  have ok: "\<forall>x \<in> set zs. \<exists>e. f x = Ok e" if "collect_ok (map f zs) = Ok rs" for zs rs
    using that by (induction zs arbitrary: rs) (auto simp: and_then_Ok_iff)
  obtain g where g: "\<forall>x \<in> set xs. f x = Ok (g x)"
    using ok [OF assms(1)] by metis
  then have "es = map g xs"
    using pointwise [of xs g] assms(1) by simp
  moreover have "set ys = set xs"
    using assms(2) by (rule mset_eq_setD)
  then have "collect_ok (map f ys) = Ok (map g ys)"
    using g by (intro pointwise) simp
  ultimately show ?thesis
    using assms(2) by simp
qed

lemma mset_rows_for: "mset (rows_for u rows) = filter_mset (\<lambda>r. q_recipient_id r = u) (mset rows)"
  by (simp add: rows_for_def)

lemma enqueue_Ok:
  assumes "server_json_law L" "enqueue L u e s = (Ok x, s')"
  obtains rows r where "\<not> rs_poisoned s" "db_messages (rs_db s) = Some rows" "q_recipient_id r = u"
    "stored_from_str L (q_envelope_json r) = Ok e" "q_created_at_ms r = as_i64 (timestamp_ms (se_envelope e))"
    "s' = s\<lparr>rs_db := (rs_db s)\<lparr>db_messages := Some (rows @ [r])\<rparr>\<rparr>"
proof -
  obtain json where json: "stored_to_string L e = Ok json"
    using assms(2) by (auto simp: enqueue_def expect_def split: result.splits)
  obtain rows where rows: "\<not> rs_poisoned s" "db_messages (rs_db s) = Some rows"
    "s' = s\<lparr>rs_db := (rs_db s)\<lparr>db_messages := Some (rows @ [\<lparr>q_id = se_id e, q_recipient_id = u,
       q_envelope_json = json, q_created_at_ms = as_i64 (timestamp_ms (se_envelope e))\<rparr>])\<rparr>\<rparr>"
    using assms(2) json by (auto simp: enqueue_def expect_def locked_Ok_iff split: option.splits if_splits)
  have "stored_from_str L json = Ok e"
    using assms(1) json unfolding server_json_law_def by blast
  then show thesis
    by (intro that [OF rows(1,2) _ _ _ rows(3)]) simp_all
qed

lemma drain_after_enqueue:
  assumes law: "server_json_law L" and enq: "enqueue L u e s = (Ok x, s')" and drain: "drain L u s = (Ok es, d)"
  obtains es' d' where "drain L u s' = (Ok es', d')" "mset es' = add_mset e (mset es)"
    "drain L u d' = (Ok [], d')"
proof -
  obtain rows r where r: "\<not> rs_poisoned s" "db_messages (rs_db s) = Some rows" "q_recipient_id r = u"
    "stored_from_str L (q_envelope_json r) = Ok e"
    and s': "s' = s\<lparr>rs_db := (rs_db s)\<lparr>db_messages := Some (rows @ [r])\<rparr>\<rparr>"
    using enqueue_Ok [OF law enq] .
  let ?f = "\<lambda>r. expect ''stored envelope_json must deserialise'' (stored_from_str L (q_envelope_json r))"
  have "collect_ok (map ?f (rows_for u rows)) = Ok es"
    using drain_Ok(1) [OF drain r(2)] .
  then have "collect_ok (map ?f (r # rows_for u rows)) = Ok (e # es)"
    using r(4) by (simp add: expect_def)
  note collected = collect_ok_mset [OF this]
  have "mset (rows_for u (rows @ [r])) = mset (r # rows_for u rows)"
    using r(3) by (simp add: mset_rows_for)
  then obtain es' where es': "collect_ok (map ?f (rows_for u (rows @ [r]))) = Ok es'"
      "mset es' = mset (e # es)"
    using collected by blast
  let ?d = "s'\<lparr>rs_db := (rs_db s')\<lparr>db_messages := Some (filter (\<lambda>r. q_recipient_id r \<noteq> u) (rows @ [r]))\<rparr>\<rparr>"
  have "drain L u s' = (Ok es', ?d)"
    using es'(1) r(1) by (simp add: drain_def locked_def s')
  moreover have "filter (\<lambda>r. q_recipient_id r = u) (filter (\<lambda>r. q_recipient_id r \<noteq> u) rows) = []"
    by (simp add: filter_empty_conv)
  then have "drain L u ?d = (Ok [], ?d)"
    using r(1,3) by (simp add: drain_def locked_def s' rows_for_def)
  ultimately show thesis
    using es'(2) by (intro that) simp_all
qed

lemma drain_other_after_enqueue:
  assumes law: "server_json_law L" and enq: "enqueue L u e s = (Ok x, s')" and "v \<noteq> u"
  shows "fst (drain L v s') = fst (drain L v s)"
proof -
  obtain rows r where r: "\<not> rs_poisoned s" "db_messages (rs_db s) = Some rows" "q_recipient_id r = u"
    and s': "s' = s\<lparr>rs_db := (rs_db s)\<lparr>db_messages := Some (rows @ [r])\<rparr>\<rparr>"
    using enqueue_Ok [OF law enq] .
  have "rows_for v (rows @ [r]) = rows_for v rows"
    using r(3) assms(3) by (simp add: rows_for_def)
  then show ?thesis
    using r(1,2) by (simp add: drain_def locked_def s' split: result.splits)
qed

text \<open>The queue leaves in the order of the times its senders claim, not of arrival.\<close>

lemma drain_follows_claimed_time:
  assumes law: "server_json_law L" and "drain L u s = (Ok [], s)"
    and enq: "enqueue L u e1 s = (Ok x, s1)" "enqueue L u e2 s1 = (Ok y, s2)"
    and "as_i64 (timestamp_ms (se_envelope e2)) < as_i64 (timestamp_ms (se_envelope e1))"
  shows "fst (drain L u s2) = Ok [e2, e1]"
proof -
  obtain rows r1 where r1: "\<not> rs_poisoned s" "db_messages (rs_db s) = Some rows" "q_recipient_id r1 = u"
    "stored_from_str L (q_envelope_json r1) = Ok e1" "q_created_at_ms r1 = as_i64 (timestamp_ms (se_envelope e1))"
    and s1: "s1 = s\<lparr>rs_db := (rs_db s)\<lparr>db_messages := Some (rows @ [r1])\<rparr>\<rparr>"
    using enqueue_Ok [OF law enq(1)] .
  obtain rows' r2 where r2: "q_recipient_id r2 = u" "stored_from_str L (q_envelope_json r2) = Ok e2"
    "q_created_at_ms r2 = as_i64 (timestamp_ms (se_envelope e2))" "db_messages (rs_db s1) = Some rows'"
    and s2': "s2 = s1\<lparr>rs_db := (rs_db s1)\<lparr>db_messages := Some (rows' @ [r2])\<rparr>\<rparr>"
    using enqueue_Ok [OF law enq(2)] .
  have s2: "s2 = s1\<lparr>rs_db := (rs_db s1)\<lparr>db_messages := Some (rows @ [r1, r2])\<rparr>\<rparr>"
    using r2(4) s2' by (simp add: s1)
  have "filter (\<lambda>r. q_recipient_id r = u) rows = []"
  proof -
    have "rs_db s = (rs_db s)\<lparr>db_messages := Some (filter (\<lambda>r. q_recipient_id r \<noteq> u) rows)\<rparr>"
      using arg_cong [OF drain_Ok(2) [OF assms(2) r1(2)], of rs_db] by simp
    then have "filter (\<lambda>r. q_recipient_id r \<noteq> u) rows = rows"
      using arg_cong [of "rs_db s" _ db_messages] r1(2) by (metis option.inject server_db.select_convs(4) server_db.surjective server_db.update_convs(4))
    then show ?thesis
      by (simp add: filter_empty_conv filter_id_conv)
  qed
  then have "rows_for u (rows @ [r1, r2]) = [r2, r1]"
    using r1(3,5) r2(1,3) assms(5) by (simp add: rows_for_def)
  then show ?thesis
    using r1 r2 by (simp add: drain_def locked_def s2 s1 expect_def)
qed

section \<open>An instance\<close>

text \<open>A codec that knows one message, and the relay started on a new file with it.\<close>

definition mail :: message_envelope where
  "mail = \<lparr>sender_id = [], recipient_id = ''bob'', ciphertext = [1], env_type = Ratchet,
     timestamp_ms = 5, version = 2, sealed_sender = False, routing_hint = None,
     self_destruct_at = None, read_triggered_destruct = False, dead_drop_address = None\<rparr>"

definition stored_mail :: stored_envelope where
  "stored_mail = \<lparr>se_id = ''1'', se_envelope = mail\<rparr>"

lemma mail_fields [simp]: "recipient_id mail = ''bob''" "timestamp_ms mail = 5"
    "se_id stored_mail = ''1''" "se_envelope stored_mail = mail"
    "\<lparr>se_id = ''1'', se_envelope = mail\<rparr> = stored_mail"
  by (simp_all add: mail_def stored_mail_def)

definition toy_server :: server_lib where
  "toy_server = \<lparr>bundle_to_string = (\<lambda>_. Err []), bundle_from_str = (\<lambda>_. Err []),
     stored_to_string = (\<lambda>e. if e = stored_mail then Ok ''m'' else Err []),
     stored_from_str = (\<lambda>s. if s = ''m'' then Ok stored_mail else Err []),
     stored_list_to_string = (\<lambda>es. if es = [stored_mail] then Ok ''l'' else Err []),
     stored_list_from_str = (\<lambda>s. if s = ''l'' then Ok [stored_mail] else Err []),
     base64_encode = of_utf8, base64_decode = (\<lambda>s. Some (utf8 s)), public_key_of = Some,
     cert_serialized = Some, signal_text = (\<lambda>_. []), relay_certs = toy_certs\<rparr>"

lemma toy_server_law: "server_json_law toy_server"
  by (simp add: server_json_law_def toy_server_def)

definition toy_store :: server_store where
  "toy_store = \<lparr>rs_db = \<lparr>db_key = Some ''k'', db_version = 2, db_bundles = Some [], db_messages = Some [],
       db_stages = Some []\<rparr>, rs_poisoned = False,
     rs_ca = \<lparr>ca_trust_root = ([1], [2]), ca_server_key_pair = ([3], [4]), ca_server_certificate = [1]\<rparr>\<rparr>"

definition toy_store1 :: server_store where
  "toy_store1 = toy_store\<lparr>rs_db := (rs_db toy_store)\<lparr>db_messages := Some [\<lparr>q_id = ''1'', q_recipient_id = ''bob'',
     q_envelope_json = ''m'', q_created_at_ms = 5\<rparr>]\<rparr>\<rparr>"

lemma toy_store_opened: "relay_from_connection toy_server ([1], [2]) ([3], [4]) new_relay_file ''k'' = Ok toy_store"
  by (simp add: relay_from_connection_def new_relay_file_def relay_run_migrations_def created_def expect_def
      CURRENT_SCHEMA_VERSION_def toy_server_def toy_certs_def toy_store_def from_trust_root_def)

lemma toy_enqueue: "enqueue toy_server ''bob'' stored_mail toy_store = (Ok (), toy_store1)"
  by (simp add: enqueue_def toy_server_def toy_store_def toy_store1_def expect_def locked_def as_i64_def)

lemma toy_drain: "drain toy_server ''bob'' toy_store1 = (Ok [stored_mail], toy_store)"
  by (simp add: drain_def toy_server_def toy_store_def toy_store1_def expect_def locked_def rows_for_def)

lemma toy_drain_empty: "drain toy_server ''bob'' toy_store = (Ok [], toy_store)"
  by (simp add: drain_def toy_server_def toy_store_def toy_store1_def expect_def locked_def rows_for_def)

section \<open>Properties\<close>

text \<open>
  C20: However requests interleave at the relay, with failed operations and restarts among
  them, no envelope leaves it more often than it was accepted: what was delivered, what a
  pull request has drained and not staged yet, and what the tables hold are together
  contained in what was submitted.
\<close>

theorem relay_delivers_at_most_once:
  assumes "server_json_law L" "relay_from_connection L root server new_relay_file key = Ok s"
    and "(relay_step L)\<^sup>*\<^sup>* (relay_starts s) w"
  shows "w_delivered w + (\<Sum>(t, es) \<in># w_staging w. mset es) + db_contents L (rs_db (w_store w))
    \<subseteq># w_submitted w"
  using accounted_reachable [OF assms(1,3) accounted_start] opened_relay_serves [OF assms(2)]
  by (simp add: accounted_def)

theorem relay_delivers_at_most_once_witness:
  "\<exists>w. (relay_step toy_server)\<^sup>*\<^sup>* (relay_starts toy_store) w \<and> w_delivered w = {#stored_mail#}
    \<and> w_delivered w \<subseteq># w_submitted w"
proof -
  define w1 where "w1 = (relay_starts toy_store)\<lparr>w_store := toy_store1, w_submitted := {#stored_mail#}\<rparr>"
  define w where "w = w1\<lparr>w_store := toy_store, w_delivered := {#stored_mail#}\<rparr>"
  have "relay_step toy_server (relay_starts toy_store) w1"
    using relay_step.submitting [of toy_server stored_mail "relay_starts toy_store" toy_store1] toy_enqueue
    by (simp add: relay_starts_def w1_def)
  moreover have "relay_step toy_server w1 w"
    using relay_step.fetching [of toy_server "''bob''" w1 "[stored_mail]" toy_store] toy_drain
    by (simp add: relay_starts_def w1_def w_def)
  ultimately have run: "(relay_step toy_server)\<^sup>*\<^sup>* (relay_starts toy_store) w"
    by (meson converse_rtranclp_into_rtranclp rtranclp.rtrancl_refl)
  have "w_delivered w \<subseteq># w_submitted w"
    using relay_delivers_at_most_once [OF toy_server_law toy_store_opened run]
    by (meson mset_subset_eq_add_left subset_mset.order_trans)
  then show ?thesis
    using run by (auto simp: w_def)
qed

text \<open>
  A pull retrieves what a direct fetch would have: after a mix node staged a recipient's
  queue under a token, one request with the token returns exactly the messages, and in the
  order, of a direct fetch; asking again returns the response an unknown token gets, an
  empty list, and neither changes any other table.
\<close>

theorem pull_delivers_the_queue_once:
  assumes "server_json_law L"
    and "handle_stage_pull L wall \<lparr>pull_recipient_id = u, rendezvous_token = t\<rparr> s = (Ok resp, s')"
  shows "resp = Response 202 (ApiOk True None)
    \<and> (\<exists>s''. handle_fetch_pull L t s' = (fst (fetch_messages L u s), s'')
      \<and> handle_fetch_pull L t s'' = (Ok (Response 200 (MessagesBody [])), s'')
      \<and> (\<forall>t'. map_of (the (db_stages (rs_db s''))) t' = None \<longrightarrow>
            fst (handle_fetch_pull L t' s'') = Ok (Response 200 (MessagesBody []))))"
proof -
  obtain es d where drain: "drain L u s = (Ok es, d)" and stage: "stage_drained L wall t es d = (Ok (), s')"
    using assms(2)
    by (auto simp: handle_stage_pull_def stage_pull_def respond_def map_ok_Ok_iff prod_eq_iff split: result.splits prod.splits)
  obtain s'' where s'': "fetch_pull L t s' = (Ok (Some es), s'')" "fetch_pull L t s'' = (Ok None, s'')"
    using fetch_after_stage [OF assms(1) stage] .
  moreover have "resp = Response 202 (ApiOk True None)"
    using assms(2) by (auto simp: handle_stage_pull_def respond_def map_ok_Ok_iff)
  ultimately show ?thesis
    using drain fetch_pull_miss [OF s''(1)]
    by (auto simp: handle_fetch_pull_def fetch_messages_def respond_def)
qed

theorem pull_delivers_the_queue_once_witness:
  "\<exists>s' s''. handle_stage_pull toy_server 0 \<lparr>pull_recipient_id = ''bob'', rendezvous_token = ''t''\<rparr> toy_store1
      = (Ok (Response 202 (ApiOk True None)), s')
    \<and> handle_fetch_pull toy_server ''t'' s' = (Ok (Response 200 (MessagesBody [stored_mail])), s'')
    \<and> handle_fetch_pull toy_server ''t'' s'' = (Ok (Response 200 (MessagesBody [])), s'')"
proof -
  obtain resp s' where st: "handle_stage_pull toy_server 0 \<lparr>pull_recipient_id = ''bob'', rendezvous_token = ''t''\<rparr>
      toy_store1 = (Ok resp, s')"
    by (simp add: handle_stage_pull_def stage_pull_def toy_drain respond_def)
      (simp add: stage_drained_def toy_server_def toy_store_def expect_def relay_now_millis_def locked_def)
  have "fst (fetch_messages toy_server ''bob'' toy_store1) = Ok (Response 200 (MessagesBody [stored_mail]))"
    by (simp add: fetch_messages_def toy_drain respond_def)
  then show ?thesis
    using pull_delivers_the_queue_once [OF toy_server_law st] st by auto
qed

text \<open>
  An envelope the relay accepted (201) is in its recipient's next fetch, together with
  exactly what was queued before; that fetch empties the queue, and no other recipient's
  fetch is affected by the submission.
\<close>

theorem accepted_message_is_fetched:
  assumes "server_json_law L"
    and "submit_message L i u e s = (Ok (Response 201 b), s')"
    and "fetch_messages L u s = (Ok (Response 200 (MessagesBody es)), d)"
  shows "recipient_id e = u
    \<and> (\<exists>es' d'. fetch_messages L u s' = (Ok (Response 200 (MessagesBody es')), d')
        \<and> mset es' = add_mset \<lparr>se_id = i, se_envelope = e\<rparr> (mset es)
        \<and> fetch_messages L u d' = (Ok (Response 200 (MessagesBody [])), d'))
    \<and> (\<forall>v. v \<noteq> u \<longrightarrow> fst (fetch_messages L v s') = fst (fetch_messages L v s))"
proof -
  have u: "recipient_id e = u"
    using assms(2) by (auto simp: submit_message_def split: if_splits)
  then obtain x where enq: "enqueue L u \<lparr>se_id = i, se_envelope = e\<rparr> s = (Ok x, s')"
    using assms(2) by (auto simp: submit_message_def respond_def map_ok_Ok_iff prod_eq_iff)
  have drain: "drain L u s = (Ok es, d)"
    using assms(3) by (auto simp: fetch_messages_def respond_def map_ok_Ok_iff prod_eq_iff)
  obtain es' d' where "drain L u s' = (Ok es', d')" "mset es' = add_mset \<lparr>se_id = i, se_envelope = e\<rparr> (mset es)"
    "drain L u d' = (Ok [], d')"
    using drain_after_enqueue [OF assms(1) enq drain] .
  then show ?thesis
    using u drain_other_after_enqueue [OF assms(1) enq] by (auto simp: fetch_messages_def respond_def)
qed

theorem accepted_message_is_fetched_witness:
  "\<exists>s' d'. submit_message toy_server ''1'' ''bob'' mail toy_store
      = (Ok (Response 201 (SubmittedBody True ''1'')), s')
    \<and> fetch_messages toy_server ''bob'' s' = (Ok (Response 200 (MessagesBody [stored_mail])), d')"
proof -
  have sub: "submit_message toy_server ''1'' ''bob'' mail toy_store
      = (Ok (Response 201 (SubmittedBody True ''1'')), toy_store1)"
    by (simp add: submit_message_def respond_def toy_enqueue)
  have "fetch_messages toy_server ''bob'' toy_store = (Ok (Response 200 (MessagesBody [])), toy_store)"
    by (simp add: fetch_messages_def respond_def toy_drain_empty)
  then show ?thesis
    using accepted_message_is_fetched [OF toy_server_law sub] sub by auto
qed

text \<open>
  C21: Whatever lifetime a client asks for, a sender certificate of a relay that was opened with
  drawn key pairs for its trust root and its server validates under the public key it hands out
  as its trust root for that lifetime or seven days, whichever is shorter, and is refused
  afterwards.
\<close>

theorem relay_certificates_last_at_most_a_week:
  assumes "cert_law (relay_certs L)" "matching (cl_public_of (relay_certs L)) root"
      "matching (cl_public_of (relay_certs L)) server"
    and "relay_from_connection L root server file key = Ok s"
    and "store_issue_sender_certificate L s issued u ik dev ttl_secs = Ok cert"
    and "as_millis (issued + MAX_SENDER_CERT_TTL) < 2 ^ 64" "as_millis now < 2 ^ 64"
  shows "get_trust_root L s = Response 200 (TrustRootBody (base64_encode L (fst root)))
    \<and> validate_sender_certificate (relay_certs L) cert (fst root) now =
      (if as_millis now \<le> as_millis (issued + min (unat ttl_secs * 1000000000) (7 * 24 * 60 * 60 * 1000000000))
       then Ok ()
       else Err (SealedSenderAuth ''sender certificate failed trust-root/expiry validation''))"
proof -
  have ca: "from_trust_root (relay_certs L) root server = Ok (rs_ca s)"
    using assms(4) by (auto simp: relay_from_connection_def and_then_Ok_iff expect_def split: if_splits)
  then have root: "trust_root_public_key (rs_ca s) = fst root"
    by (auto simp: from_trust_root_def and_then_Ok_iff trust_root_public_key_def dest!: sym [of _ "rs_ca s"])
  have "as_millis (issued + min (unat ttl_secs * 1000000000) MAX_SENDER_CERT_TTL)
      \<le> as_millis (issued + MAX_SENDER_CERT_TTL)"
    unfolding as_millis_def by (intro div_le_mono) simp
  then have "as_millis (issued + min (unat ttl_secs * 1000000000) MAX_SENDER_CERT_TTL) < 2 ^ 64"
    using assms(6) by simp
  then show ?thesis
    using certificate_lifetime [OF assms(1-3) ca _ _ assms(7)] assms(5)
    by (simp add: get_trust_root_def root store_issue_sender_certificate_def MAX_SENDER_CERT_TTL_def)
qed

theorem relay_certificates_last_at_most_a_week_witness:
  "\<exists>cert. store_issue_sender_certificate toy_server toy_store 0 ''alice'' [5] 1 1000000 = Ok cert
    \<and> validate_sender_certificate toy_certs cert [1] 604800000000000 = Ok ()
    \<and> validate_sender_certificate toy_certs cert [1] 604801000000000
        = Err (SealedSenderAuth ''sender certificate failed trust-root/expiry validation'')"
proof -
  obtain cert where cert: "store_issue_sender_certificate toy_server toy_store 0 ''alice'' [5] 1 1000000 = Ok cert"
    by (simp add: store_issue_sender_certificate_def issue_sender_certificate_def toy_server_def toy_certs_def)
  have certs: "relay_certs toy_server = toy_certs"
    by (simp add: toy_server_def)
  have law: "cert_law (relay_certs toy_server)"
    by (simp add: certs toy_certs_law)
  show ?thesis
    using cert relay_certificates_last_at_most_a_week [OF law _ _ toy_store_opened cert] toy_pairs
    by (auto simp: as_millis_def MAX_SENDER_CERT_TTL_def certs)
qed

end
