(* ===== verification/Gateway.thy ===== *)
theory Gateway
  imports Complex_Main Std_Text
begin

text \<open>
  The external gateway: API keys and token buckets (\<open>gateway/src/auth.rs\<close>), the pass-through
  handlers (\<open>gateway/src/routes.rs\<close>, \<open>models.rs\<close>) and the router (\<open>gateway/src/lib.rs\<close>).
  The HTTP client, the JSON codec and the decimal-to-binary conversion of floats are
  parameters.  An \<open>f64\<close> is a rational or one of the special values, and every operation
  rounds its exact result with \<open>rnd\<close>, the rounding of the format.
\<close>

section \<open>Floating point\<close>

datatype f64 = Fin rat | Inf | NegInf | NaN

type_synonym rounding = "rat \<Rightarrow> f64"

fun f_le :: "f64 \<Rightarrow> f64 \<Rightarrow> bool" where
  "f_le (Fin a) (Fin b) \<longleftrightarrow> a \<le> b"
| "f_le NaN b \<longleftrightarrow> False"
| "f_le a NaN \<longleftrightarrow> False"
| "f_le NegInf b \<longleftrightarrow> True"
| "f_le a Inf \<longleftrightarrow> True"
| "f_le a b \<longleftrightarrow> False"

text \<open>\<open>f64::min\<close> and \<open>f64::max\<close> ignore a NaN.\<close>

definition f_min :: "f64 \<Rightarrow> f64 \<Rightarrow> f64" where
  "f_min a b = (if a = NaN then b else if b = NaN then a else if f_le a b then a else b)"

definition f_max :: "f64 \<Rightarrow> f64 \<Rightarrow> f64" where
  "f_max a b = (if a = NaN then b else if b = NaN then a else if f_le a b then b else a)"

fun f_add :: "rounding \<Rightarrow> f64 \<Rightarrow> f64 \<Rightarrow> f64" where
  "f_add rnd (Fin a) (Fin b) = rnd (a + b)"
| "f_add rnd NaN b = NaN"
| "f_add rnd a NaN = NaN"
| "f_add rnd Inf NegInf = NaN"
| "f_add rnd NegInf Inf = NaN"
| "f_add rnd Inf b = Inf"
| "f_add rnd a Inf = Inf"
| "f_add rnd NegInf b = NegInf"
| "f_add rnd a NegInf = NegInf"

definition inf_times :: "bool \<Rightarrow> f64 \<Rightarrow> f64" where
  "inf_times positive b = (case b of
     Fin q \<Rightarrow> if q = 0 then NaN else if (0 < q) = positive then Inf else NegInf
   | Inf \<Rightarrow> if positive then Inf else NegInf
   | NegInf \<Rightarrow> if positive then NegInf else Inf
   | NaN \<Rightarrow> NaN)"

fun f_mul :: "rounding \<Rightarrow> f64 \<Rightarrow> f64 \<Rightarrow> f64" where
  "f_mul rnd (Fin a) (Fin b) = rnd (a * b)"
| "f_mul rnd NaN b = NaN"
| "f_mul rnd Inf b = inf_times True b"
| "f_mul rnd NegInf b = inf_times False b"
| "f_mul rnd a Inf = inf_times True a"
| "f_mul rnd a NegInf = inf_times False a"
| "f_mul rnd a NaN = NaN"

text \<open>The division of a finite number by a positive one, the only division of the code.\<close>

fun f_div_pos :: "rounding \<Rightarrow> rat \<Rightarrow> f64 \<Rightarrow> rat" where
  "f_div_pos rnd a (Fin b) = (case rnd (a / b) of Fin q \<Rightarrow> q | _ \<Rightarrow> 0)"
| "f_div_pos rnd a _ = 0"

text \<open>
  What the theorems use of IEEE rounding: the integers of magnitude up to \<open>2 ^ 53\<close> are exact,
  the order is kept, and a rounded number is not a NaN.
\<close>

definition rounding_law :: "rounding \<Rightarrow> bool" where
  "rounding_law rnd \<longleftrightarrow>
    (\<forall>n :: int. \<bar>n\<bar> \<le> 2 ^ 53 \<longrightarrow> rnd (of_int n) = Fin (of_int n))
    \<and> (\<forall>p q. p \<le> q \<longrightarrow> f_le (rnd p) (rnd q))
    \<and> (\<forall>q. rnd q \<noteq> NaN)"

text \<open>\<open>Duration::from_secs_f64\<close> rounds to the nearest nanosecond, ties to even.\<close>

definition round_half_even :: "rat \<Rightarrow> int" where
  "round_half_even q =
    (let f = \<lfloor>q\<rfloor>; d = q - of_int f
     in if d < 1 / 2 then f else if 1 / 2 < d then f + 1 else if even f then f else f + 1)"

definition from_secs_f64 :: "rat \<Rightarrow> duration" where
  "from_secs_f64 q = nat (round_half_even (q * 1000000000))"

definition as_secs_f64 :: "rounding \<Rightarrow> duration \<Rightarrow> f64" where
  "as_secs_f64 rnd d =
    f_add rnd (rnd (of_nat (as_secs d))) (rnd (of_nat (d mod 1000000000) / 1000000000))"

section \<open>Rate limiting\<close>

record bucket =
  tokens :: f64
  last_refill :: duration

text \<open>An \<open>Instant\<close> is a number of nanoseconds; \<open>duration_since\<close> saturates at zero.\<close>

record rate_limiter =
  capacity :: rat
  per_second :: f64
  buckets :: "(string \<times> bucket) list"

definition new_rate_limiter :: "u32 \<Rightarrow> f64 \<Rightarrow> rate_limiter" where
  "new_rate_limiter cap rate = \<lparr>capacity = of_nat (unat cap), per_second = rate, buckets = []\<rparr>"

definition evict :: "rounding \<Rightarrow> duration \<Rightarrow> rate_limiter \<Rightarrow> rate_limiter" where
  "evict rnd now rl =
    (if 10000 < length (buckets rl) then
       let idle_to_full = from_secs_f64 (f_div_pos rnd (capacity rl) (f_max (per_second rl) (rnd (1 / 1000))))
       in rl\<lparr>buckets := filter (\<lambda>(k, b). now - last_refill b < idle_to_full) (buckets rl)\<rparr>
     else rl)"

definition refill :: "rounding \<Rightarrow> rate_limiter \<Rightarrow> duration \<Rightarrow> bucket \<Rightarrow> f64" where
  "refill rnd rl now b =
    f_min (f_add rnd (tokens b) (f_mul rnd (as_secs_f64 rnd (now - last_refill b)) (per_second rl)))
      (Fin (capacity rl))"

definition try_acquire :: "rounding \<Rightarrow> duration \<Rightarrow> string \<Rightarrow> rate_limiter \<Rightarrow> bool \<times> rate_limiter" where
  "try_acquire rnd now key rl0 =
    (let rl = evict rnd now rl0;
         b = (case map_of (buckets rl) key of
                Some b \<Rightarrow> b
              | None \<Rightarrow> \<lparr>tokens = Fin (capacity rl), last_refill = now\<rparr>);
         t = refill rnd rl now b
     in if f_le (Fin 1) t then
          (True, rl\<lparr>buckets := AList.update key \<lparr>tokens = f_add rnd t (Fin (- 1)), last_refill = now\<rparr> (buckets rl)\<rparr>)
        else
          (False, rl\<lparr>buckets := AList.update key \<lparr>tokens = t, last_refill = now\<rparr> (buckets rl)\<rparr>))"

section \<open>API keys\<close>

definition DEFAULT_BURST :: u32 where
  "DEFAULT_BURST = 60"

definition DEFAULT_PER_SECOND :: f64 where
  "DEFAULT_PER_SECOND = Fin 10"

record api_security =
  api_keys :: "string list"
  limiter :: rate_limiter

definition new_api_security :: "string list \<Rightarrow> u32 \<Rightarrow> f64 \<Rightarrow> api_security" where
  "new_api_security ks burst rate = \<lparr>api_keys = ks, limiter = new_rate_limiter burst rate\<rparr>"

definition security_from_env :: "(string \<Rightarrow> f64 option) \<Rightarrow> (string \<Rightarrow> string option) \<Rightarrow> api_security" where
  "security_from_env parse_f64 env =
    (let ks = filter (\<lambda>s. s \<noteq> []) (map trim (split_on (CHR '','')
           (case env ''PARDA_GATEWAY_API_KEYS'' of Some s \<Rightarrow> s | None \<Rightarrow> [])));
         burst = (case Option.bind (env ''PARDA_GATEWAY_RATE_LIMIT_BURST'') (parse_unsigned (2 ^ 32)) of
           Some n \<Rightarrow> of_nat n | None \<Rightarrow> DEFAULT_BURST);
         rate = (case Option.bind (env ''PARDA_GATEWAY_RATE_LIMIT_PER_SEC'') parse_f64 of
           Some x \<Rightarrow> x | None \<Rightarrow> DEFAULT_PER_SECOND)
     in new_api_security ks burst rate)"

definition auth_enabled :: "api_security \<Rightarrow> bool" where
  "auth_enabled s \<longleftrightarrow> api_keys s \<noteq> []"

definition key_is_valid :: "api_security \<Rightarrow> string \<Rightarrow> bool" where
  "key_is_valid s candidate = foldl (\<lambda>matched key. matched \<or> utf8 key = utf8 candidate) False (api_keys s)"

text \<open>
  A request as the middleware sees it: the \<open>Authorization\<close> header when it is readable text, and
  the peer's address when the server was started with connect info.
\<close>

record gateway_request =
  authorization :: "string option"
  peer_ip :: "string option"
  request_body :: bytes

datatype gateway_body =
    RawBytes bytes
  | JsonValue bytes
  | ErrorBody string
  | SecurityBody string string
  | HealthBody string string

datatype gateway_reply = Reply nat gateway_body

definition unauthorized :: "string \<Rightarrow> gateway_reply" where
  "unauthorized detail = Reply 401 (SecurityBody ''unauthorized'' detail)"

definition rate_limited :: gateway_reply where
  "rate_limited = Reply 429 (SecurityBody ''rate_limited'' ''request rate exceeded'')"

definition presented_key :: "gateway_request \<Rightarrow> string option" where
  "presented_key r = map_option trim (Option.bind (authorization r) (strip_prefix ''Bearer ''))"

definition bucket_key :: "api_security \<Rightarrow> gateway_request \<Rightarrow> (string, gateway_reply) result" where
  "bucket_key s r =
    (if auth_enabled s then
       (case presented_key r of
          Some key \<Rightarrow> if key_is_valid s key then Ok (''key:'' @ key) else Err (unauthorized ''invalid API key'')
        | None \<Rightarrow> Err (unauthorized ''missing Authorization: Bearer <key> header''))
     else Ok (case peer_ip r of Some ip \<Rightarrow> ''addr:'' @ ip | None \<Rightarrow> ''anonymous''))"

definition api_security_middleware ::
  "rounding \<Rightarrow> duration \<Rightarrow> gateway_request \<Rightarrow> ('n \<Rightarrow> gateway_reply \<times> 'n) \<Rightarrow> api_security \<Rightarrow> 'n
    \<Rightarrow> gateway_reply \<times> api_security \<times> 'n" where
  "api_security_middleware rnd now r run_next s n =
    (case bucket_key s r of
       Err reply \<Rightarrow> (reply, s, n)
     | Ok key \<Rightarrow>
         (case try_acquire rnd now key (limiter s) of
            (False, rl) \<Rightarrow> (rate_limited, s\<lparr>limiter := rl\<rparr>, n)
          | (True, rl) \<Rightarrow> (let (reply, n') = run_next n in (reply, s\<lparr>limiter := rl\<rparr>, n'))))"

section \<open>Handlers\<close>

record prekey_bundle_request =
  br_registration_id :: u32
  br_device_id :: u32
  br_identity_key :: string
  br_signed_prekey_id :: u32
  br_signed_prekey_public :: string
  br_signed_prekey_signature :: string
  br_one_time_prekey_id :: "u32 option"
  br_one_time_prekey_public :: "string option"

datatype verb = Get | Post | Delete

text \<open>
  A request of the HTTP client names its method, URL, content type and body, and changes the
  state of the network.  \<open>json_of\<close> reads a body as JSON and writes it back, \<open>extract_bundle\<close>
  is the typed extractor with the status of its refusals.
\<close>

record relay_reply =
  rr_status :: nat
  rr_body :: "(bytes, string) result"

record 'n relay_http =
  relay_request :: "verb \<Rightarrow> string \<Rightarrow> string option \<Rightarrow> bytes \<Rightarrow> 'n \<Rightarrow> (relay_reply, string) result \<times> 'n"
  json_of :: "bytes \<Rightarrow> (bytes, string) result"
  extract_bundle :: "bytes \<Rightarrow> (prekey_bundle_request, nat) result"
  encode_bundle :: "prekey_bundle_request \<Rightarrow> (bytes, string) result"

definition gateway_health :: gateway_reply where
  "gateway_health = Reply 200 (HealthBody ''ok'' ''parda-gateway'')"

definition relay_error :: "string \<Rightarrow> gateway_reply" where
  "relay_error e = Reply 502 (ErrorBody (''relay unreachable or errored: '' @ e))"

definition from_u16 :: "nat \<Rightarrow> nat option" where
  "from_u16 n = (if 100 \<le> n \<and> n < 1000 then Some n else None)"

definition forwarded_status :: "relay_reply \<Rightarrow> nat" where
  "forwarded_status resp = (case from_u16 (rr_status resp) of Some c \<Rightarrow> c | None \<Rightarrow> 502)"

definition forward_json ::
  "'n relay_http \<Rightarrow> (relay_reply, string) result \<times> 'n \<Rightarrow> gateway_reply \<times> 'n" where
  "forward_json H r = (case r of
     (Ok resp, n) \<Rightarrow>
       (Reply (forwarded_status resp) (JsonValue (case and_then (rr_body resp) (json_of H) of
          Ok v \<Rightarrow> v | Err _ \<Rightarrow> utf8 ''{}'')), n)
   | (Err e, n) \<Rightarrow> (relay_error e, n))"

definition forward_raw :: "(relay_reply, string) result \<times> 'n \<Rightarrow> gateway_reply \<times> 'n" where
  "forward_raw r = (case r of
     (Ok resp, n) \<Rightarrow>
       (Reply (forwarded_status resp) (RawBytes (case rr_body resp of Ok b \<Rightarrow> b | Err _ \<Rightarrow> [])), n)
   | (Err e, n) \<Rightarrow> (relay_error e, n))"

definition gw_upload_prekey_bundle ::
  "'n relay_http \<Rightarrow> string \<Rightarrow> string \<Rightarrow> gateway_request \<Rightarrow> 'n \<Rightarrow> gateway_reply \<times> 'n" where
  "gw_upload_prekey_bundle H base user_id r n =
    (case extract_bundle H (request_body r) of
       Err code \<Rightarrow> (Reply code (RawBytes []), n)
     | Ok bundle \<Rightarrow>
         (case encode_bundle H bundle of
            Err e \<Rightarrow> (relay_error e, n)
          | Ok json \<Rightarrow> forward_json H
              (relay_request H Post (base @ ''/v1/keys/'' @ user_id) (Some ''application/json'') json n)))"

definition gw_get_prekey_bundle :: "'n relay_http \<Rightarrow> string \<Rightarrow> string \<Rightarrow> 'n \<Rightarrow> gateway_reply \<times> 'n" where
  "gw_get_prekey_bundle H base user_id n =
    forward_json H (relay_request H Get (base @ ''/v1/keys/'' @ user_id) None [] n)"

definition gw_submit_message ::
  "'n relay_http \<Rightarrow> string \<Rightarrow> string \<Rightarrow> gateway_request \<Rightarrow> 'n \<Rightarrow> gateway_reply \<times> 'n" where
  "gw_submit_message H base recipient r n =
    forward_raw (relay_request H Post (base @ ''/v1/messages/'' @ recipient) (Some ''application/json'')
      (request_body r) n)"

definition gw_fetch_messages :: "'n relay_http \<Rightarrow> string \<Rightarrow> string \<Rightarrow> 'n \<Rightarrow> gateway_reply \<times> 'n" where
  "gw_fetch_messages H base user_id n =
    forward_raw (relay_request H Get (base @ ''/v1/messages/'' @ user_id) None [] n)"

definition gw_delete_message :: "'n relay_http \<Rightarrow> string \<Rightarrow> string \<Rightarrow> string \<Rightarrow> 'n \<Rightarrow> gateway_reply \<times> 'n" where
  "gw_delete_message H base user_id msg_id n =
    forward_raw (relay_request H Delete (base @ ''/v1/messages/'' @ user_id @ ''/'' @ msg_id) None [] n)"

section \<open>Router\<close>

datatype gateway_endpoint =
    GwHealth
  | GwUploadBundle string
  | GwGetBundle string
  | GwFetch string
  | GwSubmit string
  | GwDelete string string

text \<open>The registered routes; any other request is answered by the framework.\<close>

definition gateway_route :: "verb \<Rightarrow> string list \<Rightarrow> gateway_endpoint option" where
  "gateway_route m path = (case path of
     [a] \<Rightarrow> if a = ''health'' \<and> m = Get then Some GwHealth else None
   | [a, v, b, u] \<Rightarrow>
       if a \<noteq> ''api'' \<or> v \<noteq> ''v1'' \<or> u = [] then None
       else if b = ''keys'' \<and> m = Post then Some (GwUploadBundle u)
       else if b = ''keys'' \<and> m = Get then Some (GwGetBundle u)
       else if b = ''messages'' \<and> m = Get then Some (GwFetch u)
       else if b = ''messages'' \<and> m = Post then Some (GwSubmit u)
       else None
   | [a, v, b, u, i] \<Rightarrow>
       if a = ''api'' \<and> v = ''v1'' \<and> b = ''messages'' \<and> u \<noteq> [] \<and> i \<noteq> [] \<and> m = Delete
       then Some (GwDelete u i) else None
   | _ \<Rightarrow> None)"

definition gateway_forward ::
  "'n relay_http \<Rightarrow> string \<Rightarrow> gateway_endpoint \<Rightarrow> gateway_request \<Rightarrow> 'n \<Rightarrow> gateway_reply \<times> 'n" where
  "gateway_forward H base ep r n = (case ep of
     GwHealth \<Rightarrow> (gateway_health, n)
   | GwUploadBundle u \<Rightarrow> gw_upload_prekey_bundle H base u r n
   | GwGetBundle u \<Rightarrow> gw_get_prekey_bundle H base u n
   | GwFetch u \<Rightarrow> gw_fetch_messages H base u n
   | GwSubmit u \<Rightarrow> gw_submit_message H base u r n
   | GwDelete u i \<Rightarrow> gw_delete_message H base u i n)"

text \<open>\<open>/health\<close> stays outside the security layer.\<close>

definition app_with_security ::
  "rounding \<Rightarrow> 'n relay_http \<Rightarrow> string \<Rightarrow> duration \<Rightarrow> gateway_endpoint \<Rightarrow> gateway_request \<Rightarrow> api_security \<Rightarrow> 'n
    \<Rightarrow> gateway_reply \<times> api_security \<times> 'n" where
  "app_with_security rnd H base now ep r s n =
    (if ep = GwHealth then (gateway_health, s, n)
     else api_security_middleware rnd now r (gateway_forward H base ep r) s n)"

definition F64_MAX :: f64 where
  "F64_MAX = Fin ((2 ^ 53 - 1) * 2 ^ 971)"

definition open_security :: api_security where
  "open_security = new_api_security [] (- 1) F64_MAX"

section \<open>Lemmas\<close>

lemma key_is_valid_iff: "key_is_valid s k \<longleftrightarrow> k \<in> set (api_keys s)"
proof -
  have "foldl (\<lambda>m key. m \<or> utf8 key = utf8 k) b ks \<longleftrightarrow> b \<or> k \<in> set ks" for b ks
    by (induction ks arbitrary: b) auto
  then show ?thesis by (simp add: key_is_valid_def)
qed

lemma rounding_int: "rounding_law rnd \<Longrightarrow> \<bar>n\<bar> \<le> 2 ^ 53 \<Longrightarrow> rnd (of_int n) = Fin (of_int n)"
  by (simp add: rounding_law_def)

lemma rounding_zero [simp]: "rounding_law rnd \<Longrightarrow> rnd 0 = Fin 0"
  using rounding_int [of rnd 0] by simp

lemma rounding_nat: "rounding_law rnd \<Longrightarrow> n \<le> 2 ^ 53 \<Longrightarrow> rnd (of_nat n) = Fin (of_nat n)"
  using rounding_int [of rnd "int n"] by simp

text \<open>A finite rate adds nothing within one instant.\<close>

lemma refill_same_instant:
  assumes "rounding_law rnd" "per_second rl = Fin p" "tokens b = Fin (of_nat k)" "last_refill b = now"
    and "capacity rl = of_nat c" "k \<le> c" "c < 2 ^ 32"
  shows "refill rnd rl now b = Fin (of_nat k)"
proof -
  have "k \<le> 2 ^ 53" using assms(6,7) by simp
  then show ?thesis
    using assms rounding_nat [OF assms(1), of k]
    by (simp add: refill_def as_secs_f64_def as_secs_def f_min_def)
qed

text \<open>The eviction never touches the parameters, and does nothing to a small table.\<close>

lemma evict_small: "length (buckets rl) \<le> 10000 \<Longrightarrow> evict rnd now rl = rl"
  by (simp add: evict_def)

lemma evict_params [simp]: "capacity (evict rnd now rl) = capacity rl"
  "per_second (evict rnd now rl) = per_second rl"
  by (simp_all add: evict_def Let_def)

lemma try_acquire_params:
  "try_acquire rnd now k rl = (b, rl') \<Longrightarrow> capacity rl' = capacity rl \<and> per_second rl' = per_second rl"
  by (auto simp: try_acquire_def Let_def split: if_splits)

lemma try_acquire_others:
  assumes "try_acquire rnd now k rl = (b, rl')" "length (buckets rl) \<le> 10000" "k' \<noteq> k"
  shows "map_of (buckets rl') k' = map_of (buckets rl) k'"
  using assms by (auto simp: try_acquire_def Let_def evict_small split: if_splits)

text \<open>What a bucket holds at \<open>now\<close>, a missing one being full.\<close>

definition tokens_at :: "duration \<Rightarrow> string \<Rightarrow> rate_limiter \<Rightarrow> bucket" where
  "tokens_at now key rl = (case map_of (buckets rl) key of
     Some b \<Rightarrow> b | None \<Rightarrow> \<lparr>tokens = Fin (capacity rl), last_refill = now\<rparr>)"

text \<open>What a request leaves in its own bucket, and that it leaves the others to the eviction.\<close>

lemma try_acquire_exact:
  assumes "try_acquire rnd now key rl = (b, rl')"
  shows "let t = refill rnd rl now (tokens_at now key (evict rnd now rl)) in
    b = f_le (Fin 1) t
    \<and> map_of (buckets rl') key = Some \<lparr>tokens = (if b then f_add rnd t (Fin (- 1)) else t), last_refill = now\<rparr>
    \<and> (\<forall>k'. k' \<noteq> key \<longrightarrow> map_of (buckets rl') k' = map_of (buckets (evict rnd now rl)) k')"
proof -
  have "refill rnd (evict rnd now rl) now = refill rnd rl now"
    by (simp add: fun_eq_iff refill_def)
  then show ?thesis
    using assms by (auto simp: try_acquire_def tokens_at_def Let_def map_of_update split: if_splits option.splits)
qed

fun requests :: "rounding \<Rightarrow> duration \<Rightarrow> string \<Rightarrow> nat \<Rightarrow> rate_limiter \<Rightarrow> bool list \<times> rate_limiter" where
  "requests rnd now key 0 rl = ([], rl)"
| "requests rnd now key (Suc n) rl =
    (let (b, rl') = try_acquire rnd now key rl; (bs, rl'') = requests rnd now key n rl' in (b # bs, rl''))"

lemma length_update_le: "length (AList.update k v m) \<le> Suc (length m)"
  by (induction m) auto

lemma length_update_present: "map_of m k \<noteq> None \<Longrightarrow> length (AList.update k v m) = length m"
  by (induction m) auto

lemma try_acquire_step:
  assumes "rounding_law rnd" "per_second rl = Fin p" "capacity rl = of_nat c" "c < 2 ^ 32" "k \<le> c"
    and "tokens_at now key rl = \<lparr>tokens = Fin (of_nat k), last_refill = now\<rparr>" "length (buckets rl) \<le> 10000"
    and "try_acquire rnd now key rl = (b, rl')"
  shows "b = (0 < k) \<and> tokens_at now key rl' = \<lparr>tokens = Fin (of_nat (k - 1)), last_refill = now\<rparr>"
proof -
  have "refill rnd rl now \<lparr>tokens = Fin (of_nat k), last_refill = now\<rparr> = Fin (of_nat k)"
    using assms(1-5) by (intro refill_same_instant [where c = c]) simp_all
  moreover have "rnd (of_nat k - 1) = Fin (of_nat (k - 1))" if "0 < k"
    using that assms(4,5) rounding_nat [OF assms(1), of "k - 1"] by (simp add: of_nat_diff)
  ultimately show ?thesis
    using assms(6-8)
    by (auto simp: try_acquire_def Let_def evict_small tokens_at_def split: option.splits if_splits)
qed

lemma try_acquire_length:
  "try_acquire rnd now key rl = (b, rl') \<Longrightarrow> length (buckets rl) \<le> 10000 \<Longrightarrow>
    length (buckets rl') \<le> Suc (length (buckets rl)) \<and> map_of (buckets rl') key \<noteq> None
    \<and> (map_of (buckets rl) key \<noteq> None \<longrightarrow> length (buckets rl') = length (buckets rl))"
  by (auto simp: try_acquire_def Let_def evict_small length_update_le length_update_present split: if_splits)

lemma burst_from:
  assumes "rounding_law rnd" "per_second rl = Fin p" "capacity rl = of_nat c" "c < 2 ^ 32" "k \<le> c"
    and "tokens_at now key rl = \<lparr>tokens = Fin (of_nat k), last_refill = now\<rparr>" "length (buckets rl) < 10000"
    and "requests rnd now key n rl = (bs, rl')"
  shows "bs = replicate (min n k) True @ replicate (n - k) False
    \<and> (\<forall>k'. k' \<noteq> key \<longrightarrow> map_of (buckets rl') k' = map_of (buckets rl) k')"
proof -
  have "bs = replicate (min n k) True @ replicate (n - k) False
    \<and> (\<forall>k'. k' \<noteq> key \<longrightarrow> map_of (buckets rl') k' = map_of (buckets rl) k')"
    if "capacity rl = of_nat c" "per_second rl = Fin p" "k \<le> c"
      "tokens_at now key rl = \<lparr>tokens = Fin (of_nat k), last_refill = now\<rparr>"
      "length (buckets rl) \<le> 10000" "map_of (buckets rl) key \<noteq> None \<or> length (buckets rl) < 10000"
      "requests rnd now key n rl = (bs, rl')" for rl k bs
    using that
  proof (induction n arbitrary: rl k bs)
    case (Suc n)
    obtain b rl1 where b: "try_acquire rnd now key rl = (b, rl1)" by force
    obtain bs1 where bs1: "requests rnd now key n rl1 = (bs1, rl')" "bs = b # bs1"
      using Suc.prems(7) b by (auto split: prod.splits)
    note step = try_acquire_step [OF assms(1) Suc.prems(2,1) assms(4) Suc.prems(3-5) b]
    note len = try_acquire_length [OF b Suc.prems(5)]
    have "length (buckets rl1) \<le> 10000" "map_of (buckets rl1) key \<noteq> None"
      using len Suc.prems(5,6) by auto
    then have IH: "bs1 = replicate (min n (k - 1)) True @ replicate (n - (k - 1)) False
        \<and> (\<forall>k'. k' \<noteq> key \<longrightarrow> map_of (buckets rl') k' = map_of (buckets rl1) k')"
      using Suc.prems step bs1 try_acquire_params [OF b] by (intro Suc.IH) auto
    have "\<forall>k'. k' \<noteq> key \<longrightarrow> map_of (buckets rl1) k' = map_of (buckets rl) k'"
      using try_acquire_others [OF b Suc.prems(5)] by simp
    moreover have "b # bs1 = replicate (min (Suc n) k) True @ replicate (Suc n - k) False"
      using IH step by (cases k) auto
    ultimately show ?case
      using IH bs1(2) by simp
  qed simp
  then show ?thesis
    using assms by simp
qed

lemma auth_failure:
  assumes "auth_enabled s" "\<forall>k. presented_key r = Some k \<longrightarrow> k \<notin> set (api_keys s)"
  shows "\<exists>d. bucket_key s r = Err (unauthorized d)"
  using assms by (auto simp: bucket_key_def key_is_valid_iff split: option.split)

lemma auth_success:
  assumes "\<not> (auth_enabled s \<and> (\<forall>k. presented_key r = Some k \<longrightarrow> k \<notin> set (api_keys s)))"
  shows "\<exists>key. bucket_key s r = Ok key
    \<and> (auth_enabled s \<longrightarrow> (\<exists>k \<in> set (api_keys s). presented_key r = Some k \<and> key = ''key:'' @ k))"
proof (cases "auth_enabled s")
  case True
  with assms obtain k where "presented_key r = Some k" "k \<in> set (api_keys s)" by auto
  then show ?thesis
    by (auto simp: bucket_key_def key_is_valid_iff)
next
  case False
  then show ?thesis by (simp add: bucket_key_def)
qed

text \<open>
  A segment that decodes to a path with dots and slashes is put into the relay's URL as it is.
\<close>

lemma dotted_segment_is_forwarded:
  "gateway_route Post [''api'', ''v1'', ''messages'', ''../pulls''] = Some (GwSubmit ''../pulls'')
    \<and> gateway_forward H base (GwSubmit ''../pulls'') r n
      = forward_raw (relay_request H Post (base @ ''/v1/messages/../pulls'') (Some ''application/json'') (request_body r) n)"
  by (simp add: gateway_route_def gateway_forward_def gw_submit_message_def)

text \<open>A rate that is not a number refills every bucket on every request.\<close>

lemma nan_rate_never_limits:
  assumes "per_second rl = NaN" "capacity rl = of_nat c" "0 < c" "try_acquire rnd now key rl = (b, rl')"
  shows "b"
proof -
  have "f_mul rnd x NaN = NaN" for x
    by (cases x) (simp_all add: inf_times_def)
  moreover have "f_add rnd x NaN = NaN" for x
    by (cases x) simp_all
  ultimately have "refill rnd (evict rnd now rl) now b' = Fin (of_nat c)" for b'
    by (simp add: refill_def f_min_def assms(1,2))
  moreover have "(1 :: rat) \<le> of_nat c"
    using assms(3) by (metis One_nat_def Suc_leI of_nat_1 of_nat_le_iff)
  ultimately show ?thesis
    using assms(4) by (auto simp: try_acquire_def Let_def split: if_splits)
qed

text \<open>
  The gateway is a pipe: when the relay answers, submitting and fetching messages make one
  request each, with the client's bytes as they came, and return the relay's status and bytes
  as they came.
\<close>

lemma gateway_is_transparent:
  assumes "rr_status resp = code" "100 \<le> code" "code < 1000" "rr_body resp = Ok out"
    and "relay_request H Post (base @ ''/v1/messages/'' @ u) (Some ''application/json'') (request_body r) n
        = (Ok resp, n1)"
    and "relay_request H Get (base @ ''/v1/messages/'' @ u) None [] m = (Ok resp, m1)"
  shows "gateway_forward H base (GwSubmit u) r n = (Reply code (RawBytes out), n1)
    \<and> gateway_forward H base (GwFetch u) r m = (Reply code (RawBytes out), m1)"
  using assms
  by (simp add: gateway_forward_def gw_submit_message_def gw_fetch_messages_def forward_raw_def
      forwarded_status_def from_u16_def)

section \<open>Properties\<close>


definition toy_gateway_http :: "nat relay_http" where
  "toy_gateway_http = \<lparr>relay_request = (\<lambda>v u c b n. (Ok \<lparr>rr_status = 200, rr_body = Ok b\<rparr>, Suc n)),
     json_of = Ok, extract_bundle = (\<lambda>_. Err 422), encode_bundle = (\<lambda>_. Err [])\<rparr>"


text \<open>
  C35: A client new to the limiter gets its burst and no more: while the table has fewer than the
  10000 buckets from which on idle ones are evicted, of \<open>n\<close> requests at one instant exactly the
  first \<open>burst\<close> are admitted, for any finite refill rate and any correctly rounded arithmetic,
  and no other client's bucket changes.
\<close>

theorem burst_is_exact:
  assumes "rounding_law rnd" "limiter s = (new_rate_limiter burst (Fin p))\<lparr>buckets := bs0\<rparr>"
    and "length bs0 < 10000" "map_of bs0 key = None"
    and "requests rnd now key n (limiter s) = (bs, rl')"
  shows "bs = replicate (min n (unat burst)) True @ replicate (n - unat burst) False
    \<and> (\<forall>k'. k' \<noteq> key \<longrightarrow> map_of (buckets rl') k' = map_of bs0 k')"
proof -
  have "unat burst < 2 ^ 32"
    using unsigned_less [of burst, where ?'a = nat] by simp
  then show ?thesis
    using burst_from [OF assms(1) _ _ _ order_refl _ _ assms(5), where c = "unat burst" and p = p] assms(2-4)
    by (simp add: new_rate_limiter_def tokens_at_def)
qed

lemma exact_rounding: "rounding_law Fin"
  by (simp add: rounding_law_def)

theorem burst_is_exact_witness:
  "fst (requests Fin 7 ''key:a'' 4 (new_rate_limiter 3 (Fin (1 / 10000)))) = [True, True, True, False]"
proof -
  let ?s = "new_api_security [] 3 (Fin (1 / 10000))"
  obtain bs rl' where r: "requests Fin 7 ''key:a'' 4 (limiter ?s) = (bs, rl')" by force
  have "bs = replicate (min 4 (unat (3 :: u32))) True @ replicate (4 - unat (3 :: u32)) False"
    using burst_is_exact [OF exact_rounding _ _ _ r, where burst = 3 and p = "1 / 10000" and ?bs0.0 = "[]"]
    by (simp add: new_api_security_def new_rate_limiter_def)
  also have "unat (3 :: u32) = 3" by simp
  finally have "bs = [True, True, True, False]"
    by (simp add: numeral_3_eq_3)
  moreover have "limiter ?s = new_rate_limiter 3 (Fin (1 / 10000))"
    by (simp add: new_api_security_def)
  ultimately show ?thesis
    using r by simp
qed

end
