(* ===== verification/Mixnode.thy ===== *)
theory Mixnode
  imports Std_Text Transport
begin

text \<open>
  The mix node daemon: its identity key and key file (\<open>mixnode/src/identity.rs\<close>), the packet
  handler (\<open>routes.rs\<close>), the delayed tasks it schedules (\<open>mixing.rs\<close>), cover traffic
  (\<open>cover_traffic.rs\<close>) and the peer list of \<open>main.rs\<close>.  The file system is a map from paths
  to contents with the faults of its operations; the network is the client of Transport
  with two more requests.
\<close>

section \<open>Identity\<close>

text \<open>
  A slice \<open>&s[i..i + 2]\<close> panics when it ends inside a character, that is before a
  continuation byte of UTF-8.
\<close>

definition continuation :: "char \<Rightarrow> bool" where
  "continuation c \<longleftrightarrow> 128 \<le> (of_char c :: nat) \<and> (of_char c :: nat) < 192"

fun hex_pairs :: "string \<Rightarrow> (u8 list option, string) result" where
  "hex_pairs (a # b # rest) =
    (if rest \<noteq> [] \<and> continuation (hd rest) then Err ''byte index is not a char boundary''
     else case u8_from_hex [a, b] of
         None \<Rightarrow> Ok None
       | Some x \<Rightarrow> map_ok (map_option (\<lambda>xs. x # xs)) (hex_pairs rest))"
| "hex_pairs _ = Ok (Some [])"

definition node_hex_decode :: "string \<Rightarrow> (u8 list option, string) result" where
  "node_hex_decode s0 =
    (let s = trim s0 in if length s mod 2 \<noteq> 0 then Ok None else hex_pairs s)"

record file_system =
  files :: "string \<Rightarrow> string option"
  read_fault :: "string \<Rightarrow> string option"
  create_fault :: "string \<Rightarrow> string option"

text \<open>Creating the file exclusively fails when it exists; errors of the device are faults.\<close>

definition write_key_file :: "string \<Rightarrow> bytes \<Rightarrow> file_system \<Rightarrow> (unit, string) result \<times> file_system" where
  "write_key_file path secret fs =
    (case create_fault fs path of
       Some e \<Rightarrow> (Err (''failed to create mix node key file '' @ path @ '': '' @ e), fs)
     | None \<Rightarrow>
         if files fs path \<noteq> None then
           (Err (''failed to create mix node key file '' @ path @ '': exists''), fs)
         else (Ok (), fs\<lparr>files := (files fs)(path \<mapsto> hex_bytes secret)\<rparr>))"

definition load_or_create_key_file ::
  "bytes \<Rightarrow> string \<Rightarrow> file_system \<Rightarrow> (bytes, string) result \<times> file_system" where
  "load_or_create_key_file fresh path fs =
    (case read_fault fs path of
       Some e \<Rightarrow> (Err (''failed to read mix node key file '' @ path @ '': '' @ e), fs)
     | None \<Rightarrow>
    (case files fs path of
       Some contents \<Rightarrow>
         (and_then (node_hex_decode contents) (\<lambda>decoded.
          and_then (ok_or decoded (''mix node key file '' @ path @ '' is not 64 hex characters '' @ em_dash
              @ '' refusing to overwrite it; repair or remove it explicitly'')) (\<lambda>bs.
          if length bs = 32 then Ok bs
          else Err (''mix node key file '' @ path @ '' must decode to exactly 32 bytes '' @ em_dash
              @ '' refusing to overwrite it; repair or remove it explicitly''))), fs)
     | None \<Rightarrow>
         (case write_key_file path fresh fs of
            (Ok _, fs') \<Rightarrow> (Ok fresh, fs')
          | (Err e, fs') \<Rightarrow> (Err e, fs'))))"

text \<open>\<open>fresh\<close> is the key that \<open>generate_node_keypair\<close> would draw.\<close>

definition load_or_generate ::
  "(string \<Rightarrow> string option) \<Rightarrow> bytes \<Rightarrow> file_system \<Rightarrow> (bytes, string) result \<times> file_system" where
  "load_or_generate env fresh fs =
    (case env ''MIXNODE_SECRET_KEY_HEX'' of
       Some hex_str \<Rightarrow>
         (and_then (node_hex_decode hex_str) (\<lambda>decoded.
          and_then (ok_or decoded ''MIXNODE_SECRET_KEY_HEX must be 64 hex characters (32 bytes)'') (\<lambda>bs.
          if length bs = 32 then Ok bs
          else Err ''MIXNODE_SECRET_KEY_HEX must decode to exactly 32 bytes'')), fs)
     | None \<Rightarrow>
         (case env ''MIXNODE_KEY_PATH'' of
            Some path \<Rightarrow> load_or_create_key_file fresh path fs
          | None \<Rightarrow> (Ok fresh, fs)))"

section \<open>Node state and handlers\<close>

record node_state =
  ns_secret_key :: bytes
  ns_public_key :: bytes
  ns_relay_base_url :: string

definition new_node_state :: "sphinx_lib \<Rightarrow> bytes \<Rightarrow> string \<Rightarrow> node_state" where
  "new_node_state S secret url =
    \<lparr>ns_secret_key = secret, ns_public_key = x25519_public S secret, ns_relay_base_url = url\<rparr>"

text \<open>A spawned task: when it acts, and what it does then.\<close>

record node_task =
  due :: duration
  action :: unwrap_outcome

definition schedule :: "duration \<Rightarrow> unwrap_outcome \<Rightarrow> node_task list \<Rightarrow> node_task list" where
  "schedule now outcome tasks =
    tasks @ [\<lparr>due = (case outcome of Forward _ d _ \<Rightarrow> now + d | _ \<Rightarrow> now), action = outcome\<rparr>]"

datatype node_response =
    NodeHealth
  | NodePublicKey string
  | NodeAccepted
  | NodeRejected string

fun node_status :: "node_response \<Rightarrow> nat" where
  "node_status (NodeRejected _) = 400"
| "node_status NodeAccepted = 202"
| "node_status _ = 200"

definition node_pubkey :: "(bytes \<Rightarrow> string) \<Rightarrow> node_state \<Rightarrow> node_response" where
  "node_pubkey b64 s = NodePublicKey (b64 (ns_public_key s))"

definition receive_packet ::
  "sphinx_lib \<Rightarrow> (signal_error \<Rightarrow> string) \<Rightarrow> duration \<Rightarrow> bytes \<Rightarrow> node_state \<Rightarrow> node_task list
    \<Rightarrow> node_response \<times> node_task list" where
  "receive_packet S sig now body s tasks =
    (case process_packet S body (ns_secret_key s) of
       Ok outcome \<Rightarrow> (NodeAccepted, schedule now outcome tasks)
     | Err e \<Rightarrow> (NodeRejected (display_parda sig e), tasks))"

section \<open>Tasks\<close>

record 'n node_http = "'n http" +
  post_pull_json :: "string \<Rightarrow> pull_request \<Rightarrow> 'n \<Rightarrow> (http_response, string) result \<times> 'n"
  envelope_from_json :: "bytes \<Rightarrow> (message_envelope, string) result"
  pull_from_json :: "bytes \<Rightarrow> (pull_request, string) result"

text \<open>The results of the requests are logged only: a task returns nothing.\<close>

definition forward_packet :: "'n node_http \<Rightarrow> string \<Rightarrow> bytes \<Rightarrow> 'n \<Rightarrow> 'n" where
  "forward_packet H next_hop bs n = snd (post_body H (''http://'' @ next_hop @ ''/mix/packet'') bs n)"

definition node_stage_pull :: "'n node_http \<Rightarrow> node_state \<Rightarrow> bytes \<Rightarrow> 'n \<Rightarrow> 'n" where
  "node_stage_pull H s body n =
    (case pull_from_json H body of
       Err _ \<Rightarrow> n
     | Ok request \<Rightarrow> snd (post_pull_json H (ns_relay_base_url s @ ''/v1/pulls'') request n))"

definition deliver :: "'n node_http \<Rightarrow> node_state \<Rightarrow> bytes \<Rightarrow> 'n \<Rightarrow> 'n" where
  "deliver H s bs n =
    (case envelope_from_json H bs of
       Err _ \<Rightarrow> n
     | Ok e \<Rightarrow> snd (post_json H (ns_relay_base_url s @ ''/v1/messages/'' @ recipient_id e) e n))"

definition run_task :: "'n node_http \<Rightarrow> node_state \<Rightarrow> unwrap_outcome \<Rightarrow> 'n \<Rightarrow> 'n" where
  "run_task H s outcome n = (case outcome of
     Forward next_hop d bs \<Rightarrow> forward_packet H next_hop bs n
   | Deliver bs \<Rightarrow> deliver H s bs n
   | PullRequest bs \<Rightarrow> node_stage_pull H s bs n
   | DropCover \<Rightarrow> n)"

section \<open>Cover traffic\<close>

definition COVER_PAYLOAD_MARKER :: bytes where
  "COVER_PAYLOAD_MARKER = utf8 ''parda-drop-cover''"

text \<open>The loops run only with enough peers; these are their bodies, with their random draws.\<close>

definition cover_enabled :: "mix_node list \<Rightarrow> bool" where
  "cover_enabled peers \<longleftrightarrow> MIN_PATH_LENGTH \<le> length peers"

definition emit_cover ::
  "'n node_http \<Rightarrow> sphinx_lib \<Rightarrow> mix_random \<Rightarrow> mix_node list \<Rightarrow> duration \<Rightarrow> bytes \<Rightarrow> bytes \<Rightarrow> 'n \<Rightarrow> 'n" where
  "emit_cover H S R peers avg payload tag n =
    (let path = pick_path R peers MIN_PATH_LENGTH in
     case build_packet_to S (draw_delays R) payload path avg DEFAULT_MIX_PAYLOAD_SIZE tag of
       Ok packet \<Rightarrow> snd (post_body H (''http://'' @ node_address (hd path) @ ''/mix/packet'') packet n)
     | Err _ \<Rightarrow> n)"

definition drop_cover_step ::
  "'n node_http \<Rightarrow> sphinx_lib \<Rightarrow> mix_random \<Rightarrow> mix_node list \<Rightarrow> duration \<Rightarrow> 'n \<Rightarrow> 'n" where
  "drop_cover_step H S R peers avg n =
    (if cover_enabled peers then emit_cover H S R peers avg COVER_PAYLOAD_MARKER COVER_DESTINATION_TAG n else n)"

definition pull_cover_step ::
  "'n node_http \<Rightarrow> sphinx_lib \<Rightarrow> mix_random \<Rightarrow> string \<Rightarrow> mix_node list \<Rightarrow> duration \<Rightarrow> 'n \<Rightarrow> 'n" where
  "pull_cover_step H S R fake_recipient peers avg n =
    (if cover_enabled peers then
       (case pull_to_json H (new_pull_request (hex_of R) (token_bytes R) fake_recipient) of
          Ok payload \<Rightarrow> emit_cover H S R peers avg payload PULL_DESTINATION_TAG n
        | Err _ \<Rightarrow> n)
     else n)"

section \<open>Peers\<close>

definition parse_peer :: "(string \<Rightarrow> bytes option) \<Rightarrow> string \<Rightarrow> mix_node option" where
  "parse_peer b64_decode entry =
    (case split_once (CHR ''|'') entry of
       None \<Rightarrow> None
     | Some (address, key_b64) \<Rightarrow>
         (case b64_decode key_b64 of
            Some key \<Rightarrow> if length key = 32 then Some \<lparr>node_address = address, node_public_key = key\<rparr> else None
          | None \<Rightarrow> None))"

definition parse_peers :: "(string \<Rightarrow> bytes option) \<Rightarrow> string \<Rightarrow> mix_node list" where
  "parse_peers b64_decode raw =
    List.map_filter (parse_peer b64_decode) (filter (\<lambda>s. s \<noteq> []) (map trim (split_on (CHR '','') raw)))"

section \<open>Lemmas\<close>

lemma hex_bytes_chars: "c \<in> set (hex_bytes bs) \<Longrightarrow> \<exists>d < 16. c = hex_digit d"
proof -
  assume "c \<in> set (hex_bytes bs)"
  then obtain b where b: "c \<in> set (hex_byte b)"
    by (auto simp: hex_bytes_def)
  have lt: "unat b div 16 < 16" "unat b mod 16 < 16"
    using unsigned_less [of b, where ?'a = nat] by simp_all
  from b have "c = hex_digit (unat b div 16) \<or> c = hex_digit (unat b mod 16)"
    by (simp add: hex_byte_def)
  with lt show ?thesis by blast
qed

lemma length_hex_bytes [simp]: "length (hex_bytes bs) = 2 * length bs"
  by (induction bs) (simp_all add: hex_bytes_def hex_byte_def)

lemma trim_hex_bytes [simp]: "trim (hex_bytes bs) = hex_bytes bs"
proof (cases "hex_bytes bs = []")
  case True
  then show ?thesis by (simp add: trim_def strip_while_keeps)
next
  case False
  have "of_char c \<in> {33..<128 :: nat}" if "c \<in> set (hex_bytes bs)" for c
    using hex_bytes_chars [OF that] by (auto simp: hex_digit_code)
  with False show ?thesis
    by (intro trim_keeps) simp_all
qed

lemma hex_digit_no_continuation: "d < 16 \<Longrightarrow> \<not> continuation (hex_digit d)"
  by (auto simp: continuation_def hex_digit_code)

lemma hex_pairs_hex_bytes: "hex_pairs (hex_bytes bs) = Ok (Some bs)"
proof (induction bs)
  case Nil
  then show ?case by (simp add: hex_bytes_def)
next
  case (Cons b bs)
  have "\<not> continuation (hd (hex_bytes bs))" if "hex_bytes bs \<noteq> []"
    using that hex_bytes_chars [of "hd (hex_bytes bs)" bs] hex_digit_no_continuation by auto
  moreover have "hex_bytes (b # bs)
      = hex_digit (unat b div 16) # hex_digit (unat b mod 16) # hex_bytes bs"
    by (simp add: hex_bytes_def hex_byte_def)
  moreover have "u8_from_hex [hex_digit (unat b div 16), hex_digit (unat b mod 16)] = Some b"
    using u8_from_hex_byte [of b] by (simp add: hex_byte_def)
  ultimately show ?case
    using Cons.IH by auto
qed

lemma node_hex_roundtrip [simp]: "node_hex_decode (hex_bytes bs) = Ok (Some bs)"
  by (simp add: node_hex_decode_def hex_pairs_hex_bytes)

section \<open>Properties\<close>

text \<open>
  A node keeps its identity: once a key file was created, every later start with that path
  loads the same key, whatever fresh key it might have drawn, and writes nothing; and a file
  that exists is never overwritten, a malformed one being refused.
\<close>

theorem node_identity_survives_restart:
  assumes "load_or_generate env k fs = (Ok key, fs')" "env ''MIXNODE_SECRET_KEY_HEX'' = None"
    and "env ''MIXNODE_KEY_PATH'' = Some path" "length k = 32"
  shows "load_or_generate env k' fs' = (Ok key, fs')
    \<and> (files fs path \<noteq> None \<longrightarrow> fs' = fs)
    \<and> (\<forall>p. p \<noteq> path \<longrightarrow> files fs' p = files fs p)"
proof (cases "files fs path")
  case None
  then have "key = k" "fs' = fs\<lparr>files := (files fs)(path \<mapsto> hex_bytes k)\<rparr>" "read_fault fs path = None"
    using assms(1-3)
    by (auto simp: load_or_generate_def load_or_create_key_file_def write_key_file_def split: option.splits)
  then show ?thesis
    using None assms(2-4) by (simp add: load_or_generate_def load_or_create_key_file_def)
next
  case (Some contents)
  then have "fs' = fs"
    using assms(1-3) by (auto simp: load_or_generate_def load_or_create_key_file_def split: option.splits)
  then show ?thesis
    using Some assms(1-3) by (auto simp: load_or_generate_def load_or_create_key_file_def split: option.splits)
qed

theorem node_identity_survives_restart_witness:
  "\<exists>fs'. load_or_generate [''MIXNODE_KEY_PATH'' \<mapsto> ''k''] (replicate 32 7)
       \<lparr>files = (\<lambda>_. None), read_fault = (\<lambda>_. None), create_fault = (\<lambda>_. None)\<rparr> = (Ok (replicate 32 7), fs')
    \<and> load_or_generate [''MIXNODE_KEY_PATH'' \<mapsto> ''k''] (replicate 32 9) fs' = (Ok (replicate 32 7), fs')"
proof -
  let ?env = "[''MIXNODE_KEY_PATH'' \<mapsto> ''k'']"
  obtain fs' where l: "load_or_generate ?env (replicate 32 7)
      \<lparr>files = (\<lambda>_. None), read_fault = (\<lambda>_. None), create_fault = (\<lambda>_. None)\<rparr> = (Ok (replicate 32 7), fs')"
    by (simp add: load_or_generate_def load_or_create_key_file_def write_key_file_def)
  have "load_or_generate ?env (replicate 32 9) fs' = (Ok (replicate 32 7), fs')"
    using node_identity_survives_restart [OF l, where path = "''k''" and k' = "replicate 32 9"] by simp
  with l show ?thesis by blast
qed

text \<open>
  Cover traffic never reaches the relay: a drop-cover packet over peers that exist passes
  exactly the nodes of its path and its last one makes no request for it at all, whatever the
  network.
\<close>

theorem drop_cover_is_discarded:
  assumes "sphinx_law S" "build_packet_to S delays COVER_PAYLOAD_MARKER path avg sz COVER_DESTINATION_TAG = Ok bs"
    and "\<And>d. d \<in> set path \<Longrightarrow> valid_utf8 (utf8 (node_address d))
      \<and> (\<exists>s. secret_of (node_address d) = Some s \<and> node_public_key d = x25519_public S s)"
  shows "\<exists>out. travel S secret_of (length path) (node_address (hd path)) bs = Some (map node_address path, out)
    \<and> (\<forall>H s n. run_task H s out n = n)"
  using packet_travels [OF assms, of DropCover]
  by (auto simp: tags_distinct run_task_def simp del: travel.simps)

theorem drop_cover_is_discarded_witness:
  "\<exists>bs out. build_packet_to toy_sphinx (\<lambda>n d. replicate n d) COVER_PAYLOAD_MARKER toy_path 5 100
        COVER_DESTINATION_TAG = Ok bs
    \<and> travel toy_sphinx (\<lambda>h. Some (utf8 h)) (length toy_path) (node_address (hd toy_path)) bs
        = Some (map node_address toy_path, out)
    \<and> (\<forall>H :: nat node_http. \<forall>s n. run_task H s out n = n)"
proof -
  obtain bs where bs: "build_packet_to toy_sphinx (\<lambda>n d. replicate n d) COVER_PAYLOAD_MARKER toy_path 5 100
      COVER_DESTINATION_TAG = Ok bs"
    by (simp add: build_packet_to_def toy_path_def MIN_PATH_LENGTH_def encode_node_address_def encode_fixed_def
        tagged_destination_def toy_sphinx_def COVER_DESTINATION_TAG_def)
  show ?thesis
    using bs drop_cover_is_discarded [OF toy_sphinx_law bs, where secret_of = "\<lambda>h. Some (utf8 h)"]
      toy_path_reachable by blast
qed

end
