(* ===== verification/Radio.thy ===== *)
theory Radio
  imports Relay_Sync Mesh_Transport "HOL-Library.Countable"
begin

text \<open>
  The proximity radio (\<open>mesh/src/radio/mod.rs\<close>): advertisement tokens, their rotation and the
  handles of sighted peers; the simulated radio (\<open>simulated.rs\<close>): one shared network of devices,
  its connectivity, scanning, connecting and the in-process links, and the framing of sync messages
  over them.  Tokens drawn at random and readings of the clock are arguments.
\<close>

section \<open>Advertisement tokens\<close>

definition ADVERT_TOKEN_LEN :: nat where
  "ADVERT_TOKEN_LEN = 16"

definition PROTOCOL_TAG :: bytes where
  "PROTOCOL_TAG = utf8 ''P4''"

text \<open>\<open>AdvertToken\<close> is an array of \<open>ADVERT_TOKEN_LEN\<close> bytes, \<open>Duration\<close> a number of nanoseconds.\<close>

type_synonym advert_token = bytes

definition to_wire :: "advert_token \<Rightarrow> bytes" where
  "to_wire t = PROTOCOL_TAG @ t"

definition DEFAULT_ROTATION_INTERVAL :: duration where
  "DEFAULT_ROTATION_INTERVAL = 120 * 10 ^ 9"

record rotating_identity =
  ri_interval :: duration
  ri_token :: advert_token
  ri_since :: duration

text \<open>\<open>fresh\<close> is the token a draw would give, \<open>now\<close> the monotonic clock.\<close>

definition new_rotating_identity :: "advert_token \<Rightarrow> duration \<Rightarrow> duration \<Rightarrow> rotating_identity" where
  "new_rotating_identity fresh now interval = \<lparr>ri_interval = interval, ri_token = fresh, ri_since = now\<rparr>"

definition with_default_interval :: "advert_token \<Rightarrow> duration \<Rightarrow> rotating_identity" where
  "with_default_interval fresh now = new_rotating_identity fresh now DEFAULT_ROTATION_INTERVAL"

definition rotate_token :: "advert_token \<Rightarrow> duration \<Rightarrow> rotating_identity \<Rightarrow> advert_token \<times> rotating_identity" where
  "rotate_token fresh now r = (fresh, r\<lparr>ri_token := fresh, ri_since := now\<rparr>)"

definition current_token :: "advert_token \<Rightarrow> duration \<Rightarrow> rotating_identity \<Rightarrow> advert_token \<times> rotating_identity" where
  "current_token fresh now r =
    (let r' = if now - ri_since r \<ge> ri_interval r then r\<lparr>ri_token := fresh, ri_since := now\<rparr> else r
     in (ri_token r', r'))"

text \<open>
  One round of the rotation loop, after its sleep: the new token is put on the air; that the radio
  refuses is logged only.
\<close>

definition rotation_step ::
  "(advert_token \<Rightarrow> 's \<Rightarrow> ('a, 'e) result \<times> 's) \<Rightarrow> advert_token \<Rightarrow> duration \<Rightarrow> rotating_identity \<times> 's
    \<Rightarrow> rotating_identity \<times> 's" where
  "rotation_step advertise fresh now s =
    (let (token, identity) = rotate_token fresh now (fst s)
     in (identity, snd (advertise token (snd s))))"

text \<open>\<open>PeerHandleInner\<close>; a handle of the Linux backend holds the six bytes of a device address.\<close>

datatype peer_handle = Simulated u64 | Bluez bytes | Opaque bytes

definition from_opaque_bytes :: "bytes \<Rightarrow> peer_handle" where
  "from_opaque_bytes bs = Opaque bs"

fun opaque_bytes :: "peer_handle \<Rightarrow> bytes option" where
  "opaque_bytes (Opaque bs) = Some bs"
| "opaque_bytes _ = None"

record peer_sighting =
  sighted_handle :: peer_handle
  sighted_token :: advert_token

section \<open>The simulated network\<close>

datatype sim_profile = Ble | WifiDirect

fun approx_mtu :: "sim_profile \<Rightarrow> nat" where
  "approx_mtu Ble = 512"
| "approx_mtu WifiDirect = 65536"

text \<open>
  The unbounded channels of all links, numbered in the order of their creation; a channel
  knows whether its receiving and its sending half are still held.  A link holds the sending
  half of one channel and the receiving half of another.
\<close>

record channel =
  in_flight :: "bytes list"
  tx_held :: bool
  rx_held :: bool

record sim_link =
  link_tx :: nat
  link_rx :: nat

record device_state =
  dv_token :: "advert_token option"
  dv_online :: bool
  dv_accept :: "sim_link list"
  dv_listening :: bool

record sim_network =
  devices :: "(u64 \<times> device_state) list"
  severed :: "(u64 \<times> u64) set"
  next_index :: u64
  channels :: "channel list"

definition new_sim_network :: sim_network where
  "new_sim_network = \<lparr>devices = [], severed = {}, next_index = 0, channels = []\<rparr>"

definition register :: "advert_token \<Rightarrow> sim_network \<Rightarrow> u64 \<times> sim_network" where
  "register fresh n =
    (next_index n,
     n\<lparr>next_index := next_index n + 1,
       devices := AList.update (next_index n)
         \<lparr>dv_token = Some fresh, dv_online = True, dv_accept = [], dv_listening = True\<rparr> (devices n)\<rparr>)"

definition link_pair :: "u64 \<Rightarrow> u64 \<Rightarrow> u64 \<times> u64" where
  "link_pair a b = (if a \<le> b then (a, b) else (b, a))"

definition sever :: "u64 \<Rightarrow> u64 \<Rightarrow> sim_network \<Rightarrow> sim_network" where
  "sever a b n = n\<lparr>severed := insert (link_pair a b) (severed n)\<rparr>"

definition heal :: "u64 \<Rightarrow> u64 \<Rightarrow> sim_network \<Rightarrow> sim_network" where
  "heal a b n = n\<lparr>severed := severed n - {link_pair a b}\<rparr>"

definition update_device :: "u64 \<Rightarrow> (device_state \<Rightarrow> device_state) \<Rightarrow> sim_network \<Rightarrow> sim_network" where
  "update_device d f n = n\<lparr>devices := map (\<lambda>(i, st). (i, if i = d then f st else st)) (devices n)\<rparr>"

definition set_online :: "u64 \<Rightarrow> bool \<Rightarrow> sim_network \<Rightarrow> sim_network" where
  "set_online d b n = update_device d (\<lambda>st. st\<lparr>dv_online := b\<rparr>) n"

definition device_online :: "u64 \<Rightarrow> sim_network \<Rightarrow> bool" where
  "device_online d n = (case map_of (devices n) d of Some st \<Rightarrow> dv_online st | None \<Rightarrow> False)"

definition reachable :: "u64 \<Rightarrow> u64 \<Rightarrow> sim_network \<Rightarrow> bool" where
  "reachable a b n \<longleftrightarrow> a \<noteq> b \<and> device_online a n \<and> device_online b n \<and> link_pair a b \<notin> severed n"

definition advertise :: "u64 \<Rightarrow> advert_token \<Rightarrow> sim_network \<Rightarrow> unit mesh \<times> sim_network" where
  "advertise d t n =
    (if map_of (devices n) d = None then (Err (RadioUnavailable ''device not registered''), n)
     else (Ok (), update_device d (\<lambda>st. st\<lparr>dv_token := Some t\<rparr>) n))"

definition scan :: "u64 \<Rightarrow> sim_network \<Rightarrow> peer_sighting list" where
  "scan d n = List.map_filter
    (\<lambda>(idx, st). if idx \<noteq> d \<and> device_online d n \<and> dv_online st \<and> link_pair d idx \<notin> severed n
       then map_option (\<lambda>t. \<lparr>sighted_handle = Simulated idx, sighted_token = t\<rparr>) (dv_token st)
       else None)
    (devices n)"

text \<open>A connection creates both channels and leaves the other end in the target's accept queue.\<close>

definition connect :: "u64 \<Rightarrow> peer_handle \<Rightarrow> sim_network \<Rightarrow> sim_link mesh \<times> sim_network" where
  "connect d h n =
    (case h of
       Opaque _ \<Rightarrow> (Err PeerUnreachable, n)
     | Bluez _ \<Rightarrow> (Err PeerUnreachable, n)
     | Simulated target \<Rightarrow>
         if \<not> reachable d target n then (Err PeerUnreachable, n)
         else case map_of (devices n) target of
           None \<Rightarrow> (Err PeerUnreachable, n)
         | Some st \<Rightarrow>
             if \<not> dv_listening st then (Err PeerUnreachable, n)
             else
               let c = length (channels n); open = \<lparr>in_flight = [], tx_held = True, rx_held = True\<rparr> in
               (Ok \<lparr>link_tx = c, link_rx = c + 1\<rparr>,
                update_device target (\<lambda>st. st\<lparr>dv_accept := dv_accept st @ [\<lparr>link_tx = c + 1, link_rx = c\<rparr>]\<rparr>)
                  (n\<lparr>channels := channels n @ [open, open]\<rparr>)))"

text \<open>Waiting for a connection or a message that is not there yet blocks: the value \<open>None\<close>.\<close>

definition accept :: "u64 \<Rightarrow> sim_network \<Rightarrow> (sim_link \<times> sim_network) option" where
  "accept d n =
    (case map_of (devices n) d of
       Some st \<Rightarrow>
         (case dv_accept st of
            [] \<Rightarrow> None
          | l # ls \<Rightarrow> Some (l, update_device d (\<lambda>st. st\<lparr>dv_accept := ls\<rparr>) n))
     | None \<Rightarrow> None)"

definition link_send :: "sim_link \<Rightarrow> bytes \<Rightarrow> sim_network \<Rightarrow> unit mesh \<times> sim_network" where
  "link_send l bs n =
    (let c = channels n ! link_tx l in
     if rx_held c then
       (Ok (), n\<lparr>channels := (channels n)[link_tx l := c\<lparr>in_flight := in_flight c @ [bs]\<rparr>]\<rparr>)
     else (Err (Link ''peer link closed''), n))"

definition link_recv :: "sim_link \<Rightarrow> sim_network \<Rightarrow> (bytes mesh \<times> sim_network) option" where
  "link_recv l n =
    (let c = channels n ! link_rx l in
     case in_flight c of
       bs # rest \<Rightarrow> Some (Ok bs, n\<lparr>channels := (channels n)[link_rx l := c\<lparr>in_flight := rest\<rparr>]\<rparr>)
     | [] \<Rightarrow> if tx_held c then None else Some (Err (Link ''peer link closed''), n))"

definition drop_link :: "sim_link \<Rightarrow> sim_network \<Rightarrow> sim_network" where
  "drop_link l n =
    (let n' = n\<lparr>channels := (channels n)[link_tx l := (channels n ! link_tx l)\<lparr>tx_held := False\<rparr>]\<rparr>
     in n'\<lparr>channels := (channels n')[link_rx l := (channels n' ! link_rx l)\<lparr>rx_held := False, in_flight := []\<rparr>]\<rparr>)"

text \<open>
  Dropping a radio drops the receiving half of its accept channel with the links queued there;
  the network keeps the device's entry, and with it the token last put on the air.
\<close>

definition drop_radio :: "u64 \<Rightarrow> sim_network \<Rightarrow> sim_network" where
  "drop_radio d n =
    (case map_of (devices n) d of
       None \<Rightarrow> n
     | Some st \<Rightarrow> update_device d (\<lambda>st. st\<lparr>dv_accept := [], dv_listening := False\<rparr>)
         (fold drop_link (dv_accept st) n))"

definition radio_held :: "u64 \<Rightarrow> sim_network \<Rightarrow> bool" where
  "radio_held d n \<longleftrightarrow> (case map_of (devices n) d of Some st \<Rightarrow> dv_listening st | None \<Rightarrow> False)"

text \<open>The framing of sync messages over a link; JSON is a parameter.\<close>

record msg_codec =
  msg_to_json :: "sync_message \<Rightarrow> (bytes, string) result"
  msg_from_json :: "bytes \<Rightarrow> (sync_message, string) result"

definition msg_codec_law :: "msg_codec \<Rightarrow> bool" where
  "msg_codec_law J \<longleftrightarrow> (\<forall>m. \<exists>bs. msg_to_json J m = Ok bs \<and> msg_from_json J bs = Ok m)"

definition send_msg :: "msg_codec \<Rightarrow> sim_link \<Rightarrow> sync_message \<Rightarrow> sim_network \<Rightarrow> unit mesh \<times> sim_network" where
  "send_msg J l m n =
    (case msg_to_json J m of
       Err e \<Rightarrow> (Err (Link (''sync message encode failed: '' @ e)), n)
     | Ok bs \<Rightarrow> link_send l bs n)"

definition recv_msg :: "msg_codec \<Rightarrow> sim_link \<Rightarrow> sim_network \<Rightarrow> (sync_message mesh \<times> sim_network) option" where
  "recv_msg J l n =
    (case link_recv l n of
       None \<Rightarrow> None
     | Some (Err e, n') \<Rightarrow> Some (Err e, n')
     | Some (Ok bs, n') \<Rightarrow>
         Some (map_err (\<lambda>e. Link (''sync message decode failed: '' @ e)) (msg_from_json J bs), n'))"

section \<open>The radio as its clients see it\<close>

text \<open>
  What the propagation pass relies on: a peer that was sighted can be connected to, and
  connecting changes nothing about who is in sight.  \<open>ready\<close> is the condition on the radio
  under which this holds.
\<close>

locale mesh_radio =
  fixes sights :: "'n \<Rightarrow> 'h list"
    and connect_to :: "'h \<Rightarrow> 'n \<Rightarrow> 'l mesh \<times> 'n"
    and ready :: "'n \<Rightarrow> bool"
  assumes connect_sighted: "ready n \<Longrightarrow> h \<in> set (sights n) \<Longrightarrow> \<exists>l n'. connect_to h n = (Ok l, n')"
    and connect_sights: "ready n \<Longrightarrow> connect_to h n = (r, n') \<Longrightarrow> sights n' = sights n \<and> ready n'"
begin

text \<open>
  A pass reaches every peer in sight: when a session keeps \<open>I\<close> and what was achieved with
  other peers, every sighted peer is synced with.
\<close>

lemma sync_all_visits:
  assumes inv: "I s" "set hs \<subseteq> set (sights (net s))"
    and ready: "\<And>s. I s \<Longrightarrow> ready (net s)"
    and session: "\<And>s h l s1 r s2. I s \<Longrightarrow> h \<in> set (sights (net s)) \<Longrightarrow> conn h s = (Ok l, s1)
      \<Longrightarrow> sync l s1 = (r, s2)
      \<Longrightarrow> I s2 \<and> sights (net s2) = sights (net s) \<and> Q h s2 \<and> (\<forall>g. Q g s \<longrightarrow> Q g s2)"
    and conn: "\<And>h s. conn h s = (case connect_to h (net s) of (r, n') \<Rightarrow> (r, put n' s))"
    and run: "sync_all conn sync hs k s = (k', s')"
  shows "I s' \<and> (\<forall>h \<in> set hs. Q h s') \<and> (\<forall>g. Q g s \<longrightarrow> Q g s')"
  using inv run
proof (induction hs arbitrary: s k)
  case (Cons h hs)
  have h: "h \<in> set (sights (net s))"
    using Cons.prems(2) by simp
  obtain l n' where l: "connect_to h (net s) = (Ok l, n')"
    using connect_sighted [OF ready [OF Cons.prems(1)] h] by blast
  then have c: "conn h s = (Ok l, put n' s)"
    by (simp add: conn)
  obtain r s2 where r: "sync l (put n' s) = (r, s2)"
    by (metis prod.exhaust)
  note s2 = session [OF Cons.prems(1) h c r]
  obtain k2 where "sync_all conn sync hs k2 s2 = (k', s')"
    using Cons.prems(3) c r by (cases r) auto
  moreover have "set hs \<subseteq> set (sights (net s2))"
    using Cons.prems(2) s2 by auto
  ultimately have "I s' \<and> (\<forall>h \<in> set hs. Q h s') \<and> (\<forall>g. Q g s2 \<longrightarrow> Q g s')"
    using Cons.IH s2 by blast
  then show ?case
    using s2 by auto
qed simp

end

section \<open>The simulated radio provides it\<close>

lemma link_pair_sym: "link_pair a b = link_pair b a"
  by (simp add: link_pair_def order.antisym)

lemma map_of_update_device:
  "map_of (devices (update_device d f n)) i
    = (if i = d then map_option f (map_of (devices n) i) else map_of (devices n) i)"
proof -
  have "map_of (map (\<lambda>(i, st). (i, if i = d then f st else st)) m) i
      = map_option (\<lambda>st. if i = d then f st else st) (map_of m i)" for m :: "(u64 \<times> device_state) list"
    by (induction m) auto
  then show ?thesis
    by (simp add: update_device_def option.map_ident)
qed

lemma keys_update_device [simp]: "keys (devices (update_device d f n)) = keys (devices n)"
  by (simp add: update_device_def case_prod_unfold)

lemma update_device_same [simp]:
  "severed (update_device d f n) = severed n" "channels (update_device d f n) = channels n"
  "next_index (update_device d f n) = next_index n"
  by (simp_all add: update_device_def)

text \<open>
  What others see of the devices; the operations that change only accept queues and channels
  leave it as it is.
\<close>

definition air :: "sim_network \<Rightarrow> (u64 \<times> advert_token option \<times> bool \<times> bool) list" where
  "air n = map (\<lambda>(i, st). (i, dv_token st, dv_online st, dv_listening st)) (devices n)"

definition same_air :: "sim_network \<Rightarrow> sim_network \<Rightarrow> bool" where
  "same_air n n' \<longleftrightarrow> severed n' = severed n \<and> air n' = air n"

definition all_listening :: "sim_network \<Rightarrow> bool" where
  "all_listening n \<longleftrightarrow> distinct_keys (devices n) \<and> (\<forall>(i, st) \<in> set (devices n). dv_listening st)"

lemma map_of_air: "map_of (air n) i
    = map_option (\<lambda>st. (dv_token st, dv_online st, dv_listening st)) (map_of (devices n) i)"
proof -
  have "map_of (map (\<lambda>(i, st). (i, dv_token st, dv_online st, dv_listening st)) m) i
      = map_option (\<lambda>st. (dv_token st, dv_online st, dv_listening st)) (map_of m i)" for m
    by (induction m) auto
  then show ?thesis by (simp add: air_def)
qed

lemma device_online_air:
  "device_online i n = (case map_of (air n) i of Some (_, online, _) \<Rightarrow> online | None \<Rightarrow> False)"
  by (simp add: device_online_def map_of_air split: option.split)

lemma scan_air: "scan d n = List.map_filter
    (\<lambda>(idx, token, online, _). if idx \<noteq> d \<and> device_online d n \<and> online \<and> link_pair d idx \<notin> severed n
       then map_option (\<lambda>t. \<lparr>sighted_handle = Simulated idx, sighted_token = t\<rparr>) token else None)
    (air n)"
proof -
  have "List.map_filter (\<lambda>(idx, st). if idx \<noteq> d \<and> device_online d n \<and> dv_online st \<and> link_pair d idx \<notin> severed n
       then map_option (\<lambda>t. \<lparr>sighted_handle = Simulated idx, sighted_token = t\<rparr>) (dv_token st) else None) m
    = List.map_filter (\<lambda>(idx, token, online, _). if idx \<noteq> d \<and> device_online d n \<and> online \<and> link_pair d idx \<notin> severed n
       then map_option (\<lambda>t. \<lparr>sighted_handle = Simulated idx, sighted_token = t\<rparr>) token else None)
      (map (\<lambda>(i, st). (i, dv_token st, dv_online st, dv_listening st)) m)" for m
    by (induction m) (auto simp: map_filter_simps split: option.split)
  then show ?thesis
    by (simp add: scan_def air_def)
qed

lemma all_listening_air: "all_listening n \<longleftrightarrow> distinct_keys (air n) \<and> (\<forall>x \<in> set (air n). snd (snd (snd x)))"
  by (auto simp: all_listening_def air_def case_prod_unfold o_def)

lemma same_air_refl [simp]: "same_air n n"
  by (simp add: same_air_def)

lemma same_air_trans: "same_air n n' \<Longrightarrow> same_air n' n'' \<Longrightarrow> same_air n n''"
  by (simp add: same_air_def)

lemma same_air_queue: "same_air n (update_device d (\<lambda>st. st\<lparr>dv_accept := f st\<rparr>) n)"
  by (simp add: same_air_def air_def update_device_def case_prod_unfold)

lemma same_air_channels [simp]: "same_air n (n\<lparr>channels := cs\<rparr>)"
  by (simp add: same_air_def air_def)

lemma same_air_online: "same_air n n' \<Longrightarrow> device_online i n' = device_online i n"
  by (simp add: device_online_air same_air_def)

lemma same_air_reachable: "same_air n n' \<Longrightarrow> reachable a b n' = reachable a b n"
  using same_air_online [of n n'] by (simp add: reachable_def same_air_def)

lemma same_air_scan: "same_air n n' \<Longrightarrow> scan d n' = scan d n"
  using same_air_online [of n n'] by (simp add: scan_air same_air_def)

lemma same_air_listening: "same_air n n' \<Longrightarrow> all_listening n' = all_listening n"
  by (simp add: all_listening_air same_air_def)

lemma set_scan:
  assumes "distinct_keys (devices n)"
  shows "x \<in> set (scan d n) \<longleftrightarrow>
    (\<exists>i st t. x = \<lparr>sighted_handle = Simulated i, sighted_token = t\<rparr> \<and> reachable d i n
      \<and> map_of (devices n) i = Some st \<and> dv_token st = Some t)"
proof
  assume "x \<in> set (scan d n)"
  then obtain i st where "(i, st) \<in> set (devices n)" "i \<noteq> d" "device_online d n" "dv_online st"
    "link_pair d i \<notin> severed n"
    "map_option (\<lambda>t. \<lparr>sighted_handle = Simulated i, sighted_token = t\<rparr>) (dv_token st) = Some x"
    unfolding scan_def set_map_filter by (force split: if_splits)
  then show "\<exists>i st t. x = \<lparr>sighted_handle = Simulated i, sighted_token = t\<rparr> \<and> reachable d i n
      \<and> map_of (devices n) i = Some st \<and> dv_token st = Some t"
    using assms by (auto simp: reachable_def device_online_def)
next
  assume "\<exists>i st t. x = \<lparr>sighted_handle = Simulated i, sighted_token = t\<rparr> \<and> reachable d i n
      \<and> map_of (devices n) i = Some st \<and> dv_token st = Some t"
  then obtain i st t where *: "x = \<lparr>sighted_handle = Simulated i, sighted_token = t\<rparr>" "reachable d i n"
    "map_of (devices n) i = Some st" "dv_token st = Some t"
    by blast
  then have "(i, st) \<in> set (devices n)"
    by (simp add: map_of_SomeD)
  with * show "x \<in> set (scan d n)"
    unfolding scan_def set_map_filter by (auto simp: reachable_def device_online_def intro!: bexI [of _ "(i, st)"])
qed

text \<open>Connecting, by cases: nothing happens, or a fresh pair of channels joins both ends.\<close>

lemma connect_cases [consumes 1, case_names refused joined]:
  assumes "connect d h n = (r, n')"
  obtains (refused) "r = Err PeerUnreachable" "n' = n"
  | (joined) target st where "h = Simulated target" "reachable d target n" "map_of (devices n) target = Some st"
      "dv_listening st" "r = Ok \<lparr>link_tx = length (channels n), link_rx = length (channels n) + 1\<rparr>"
      "n' = update_device target
        (\<lambda>st. st\<lparr>dv_accept := dv_accept st @ [\<lparr>link_tx = length (channels n) + 1, link_rx = length (channels n)\<rparr>]\<rparr>)
        (n\<lparr>channels := channels n @ replicate 2 \<lparr>in_flight = [], tx_held = True, rx_held = True\<rparr>\<rparr>)"
proof (cases "\<exists>target st. h = Simulated target \<and> reachable d target n
    \<and> map_of (devices n) target = Some st \<and> dv_listening st")
  case True
  then obtain target st where *: "h = Simulated target" "reachable d target n"
    "map_of (devices n) target = Some st" "dv_listening st"
    by blast
  show ?thesis
    using assms by (intro joined [OF *]) (simp_all add: * connect_def Let_def numeral_2_eq_2)
next
  case False
  then have "connect d h n = (Err PeerUnreachable, n)"
    by (cases h) (simp_all add: connect_def split: option.split)
  then show ?thesis
    using assms by (intro refused) simp_all
qed

lemma connect_same_air:
  assumes "connect d h n = (r, n')"
  shows "same_air n n'"
  using assms
proof (cases rule: connect_cases)
  case (joined target st)
  then show ?thesis
    using same_air_trans [OF same_air_channels same_air_queue] by simp
qed simp_all

lemma connect_reachable:
  assumes "all_listening n" "reachable d i n"
  shows "\<exists>l n'. connect d (Simulated i) n = (Ok l, n')"
proof -
  obtain st where st: "map_of (devices n) i = Some st"
    using assms(2) by (auto simp: reachable_def device_online_def split: option.splits)
  then have "dv_listening st"
    using assms(1) map_of_SomeD by (force simp: all_listening_def)
  then show ?thesis
    using assms(2) st by (simp add: connect_def Let_def)
qed

lemma sights_reachable:
  assumes "distinct_keys (devices n)"
  shows "h \<in> sighted_handle ` set (scan d n) \<longleftrightarrow>
    (\<exists>i st t. h = Simulated i \<and> reachable d i n \<and> map_of (devices n) i = Some st \<and> dv_token st = Some t)"
  unfolding image_iff Bex_def set_scan [OF assms] by (metis peer_sighting.select_convs(1))

interpretation sim_radio: mesh_radio "\<lambda>n. map sighted_handle (scan d n)" "connect d" all_listening for d
proof
  fix n h
  assume listening: "all_listening n" and "h \<in> set (map sighted_handle (scan d n))"
  then obtain i where "h = Simulated i" "reachable d i n"
    using sights_reachable [of n h d] by (auto simp: all_listening_def)
  then show "\<exists>l n'. connect d h n = (Ok l, n')"
    using connect_reachable [OF listening] by blast
next
  fix n h and r :: "sim_link mesh" and n'
  assume "all_listening n" "connect d h n = (r, n')"
  then show "map sighted_handle (scan d n') = map sighted_handle (scan d n) \<and> all_listening n'"
    using connect_same_air same_air_scan same_air_listening by metis
qed

section \<open>Links\<close>

text \<open>
  A conversation over a link and its other end: what each end has sent and received so far, in
  any order of sends and receives, whatever happens meanwhile on other links and devices.
\<close>

definition mirror :: "sim_link \<Rightarrow> sim_link" where
  "mirror l = \<lparr>link_tx = link_rx l, link_rx = link_tx l\<rparr>"

definition link_end :: "sim_link \<Rightarrow> bool \<Rightarrow> sim_link" where
  "link_end l i = (if i then l else mirror l)"

inductive conversation ::
  "msg_codec \<Rightarrow> sim_link \<Rightarrow> sim_network \<Rightarrow> (bool \<Rightarrow> sync_message list) \<Rightarrow> (bool \<Rightarrow> sync_message list)
    \<Rightarrow> sim_network \<Rightarrow> bool"
  for J l n0
where
  conv_start: "conversation J l n0 (\<lambda>_. []) (\<lambda>_. []) n0"
| conv_send: "conversation J l n0 s g n \<Longrightarrow> send_msg J (link_end l i) m n = (Ok (), n') \<Longrightarrow>
    conversation J l n0 (s(i := s i @ [m])) g n'"
| conv_recv: "conversation J l n0 s g n \<Longrightarrow> recv_msg J (link_end l i) n = Some (Ok m, n') \<Longrightarrow>
    conversation J l n0 s (g(i := g i @ [m])) n'"
| conv_other: "conversation J l n0 s g n \<Longrightarrow> length (channels n) \<le> length (channels n') \<Longrightarrow>
    channels n' ! link_tx l = channels n ! link_tx l \<Longrightarrow>
    channels n' ! link_rx l = channels n ! link_rx l \<Longrightarrow> conversation J l n0 s g n'"

definition framed :: "msg_codec \<Rightarrow> sync_message \<Rightarrow> bytes \<Rightarrow> bool" where
  "framed J m bs \<longleftrightarrow> msg_to_json J m = Ok bs"

lemma framed_decodes: "msg_codec_law J \<Longrightarrow> framed J m bs \<Longrightarrow> msg_from_json J bs = Ok m"
  unfolding msg_codec_law_def framed_def by (metis result.inject(1))

definition link_inv :: "msg_codec \<Rightarrow> sim_link \<Rightarrow> (bool \<Rightarrow> sync_message list) \<Rightarrow> (bool \<Rightarrow> sync_message list)
    \<Rightarrow> sim_network \<Rightarrow> bool" where
  "link_inv J l s g n \<longleftrightarrow> (\<forall>i.
    link_tx (link_end l i) < length (channels n) \<and> tx_held (channels n ! link_tx (link_end l i))
    \<and> rx_held (channels n ! link_tx (link_end l i))
    \<and> (\<exists>pending. s i = g (\<not> i) @ pending
        \<and> list_all2 (framed J) pending (in_flight (channels n ! link_tx (link_end l i)))))"

lemma link_end_rx: "link_rx (link_end l i) = link_tx (link_end l (\<not> i))"
  by (simp add: link_end_def mirror_def)

lemma link_ends_distinct: "link_tx l \<noteq> link_rx l \<Longrightarrow> link_tx (link_end l i) = link_tx (link_end l j) \<longleftrightarrow> i = j"
  by (cases i; cases j) (auto simp: link_end_def mirror_def)

lemma send_msg_Ok:
  assumes "send_msg J l m n = (Ok (), n')"
  obtains bs where "framed J m bs"
    "n' = n\<lparr>channels := (channels n)[link_tx l := (channels n ! link_tx l)
      \<lparr>in_flight := in_flight (channels n ! link_tx l) @ [bs]\<rparr>]\<rparr>"
  using assms by (auto simp: send_msg_def link_send_def framed_def Let_def split: result.splits if_splits)

lemma recv_msg_Ok:
  assumes "recv_msg J l n = Some (Ok m, n')"
  obtains bs rest where "in_flight (channels n ! link_rx l) = bs # rest" "msg_from_json J bs = Ok m"
    "n' = n\<lparr>channels := (channels n)[link_rx l := (channels n ! link_rx l)\<lparr>in_flight := rest\<rparr>]\<rparr>"
  using assms
  by (auto simp: recv_msg_def link_recv_def Let_def split: list.splits if_splits option.splits result.splits)

lemma link_inv_conversation:
  assumes "conversation J l n0 s g n" "link_inv J l (\<lambda>_. []) (\<lambda>_. []) n0" "link_tx l \<noteq> link_rx l" "msg_codec_law J"
  shows "link_inv J l s g n"
  using assms(1)
proof (induction rule: conversation.induct)
  case (conv_send s g n i m n')
  obtain bs where bs: "framed J m bs"
    "n' = n\<lparr>channels := (channels n)[link_tx (link_end l i) := (channels n ! link_tx (link_end l i))
      \<lparr>in_flight := in_flight (channels n ! link_tx (link_end l i)) @ [bs]\<rparr>]\<rparr>"
    using send_msg_Ok [OF conv_send(2)] .
  show ?case
    unfolding link_inv_def
  proof
    fix j
    obtain pending where "s j = g (\<not> j) @ pending"
      "list_all2 (framed J) pending (in_flight (channels n ! link_tx (link_end l j)))"
      using conv_send.IH unfolding link_inv_def by blast
    then have "\<exists>pending. (s(i := s i @ [m])) j = g (\<not> j) @ pending
        \<and> list_all2 (framed J) pending (in_flight (channels n' ! link_tx (link_end l j)))"
      using conv_send.IH bs(1) link_ends_distinct [OF assms(3), of i j]
      by (cases "i = j") (auto simp: bs(2) link_inv_def intro!: list_all2_appendI)
    then show "link_tx (link_end l j) < length (channels n') \<and> tx_held (channels n' ! link_tx (link_end l j))
      \<and> rx_held (channels n' ! link_tx (link_end l j))
      \<and> (\<exists>pending. (s(i := s i @ [m])) j = g (\<not> j) @ pending
        \<and> list_all2 (framed J) pending (in_flight (channels n' ! link_tx (link_end l j))))"
      using conv_send.IH link_ends_distinct [OF assms(3), of i j]
      by (cases "i = j") (auto simp: bs(2) link_inv_def)
  qed
next
  case (conv_recv s g n i m n')
  obtain bs rest where bs: "in_flight (channels n ! link_rx (link_end l i)) = bs # rest" "msg_from_json J bs = Ok m"
    "n' = n\<lparr>channels := (channels n)[link_rx (link_end l i) := (channels n ! link_rx (link_end l i))
      \<lparr>in_flight := rest\<rparr>]\<rparr>"
    using recv_msg_Ok [OF conv_recv(2)] .
  show ?case
    unfolding link_inv_def
  proof
    fix j
    obtain pending where p: "s j = g (\<not> j) @ pending"
      "list_all2 (framed J) pending (in_flight (channels n ! link_tx (link_end l j)))"
      using conv_recv.IH unfolding link_inv_def by blast
    have "\<exists>pending. s j = (g(i := g i @ [m])) (\<not> j) @ pending
        \<and> list_all2 (framed J) pending (in_flight (channels n' ! link_tx (link_end l j)))"
    proof (cases "i = (\<not> j)")
      case True
      then obtain m' pending' where "pending = m' # pending'" "framed J m' bs" "list_all2 (framed J) pending' rest"
        using p(2) bs(1) by (auto simp: link_end_rx list_all2_Cons2)
      moreover from this have "m' = m"
        using framed_decodes [OF assms(4)] bs(2) by (metis result.inject(1))
      ultimately show ?thesis
        using p(1) True conv_recv.IH by (auto simp: bs(3) link_end_rx link_inv_def)
    next
      case False
      then show ?thesis
        using p link_ends_distinct [OF assms(3), of "\<not> i" j] by (auto simp: bs(3) link_end_rx)
    qed
    then show "link_tx (link_end l j) < length (channels n') \<and> tx_held (channels n' ! link_tx (link_end l j))
      \<and> rx_held (channels n' ! link_tx (link_end l j))
      \<and> (\<exists>pending. s j = (g(i := g i @ [m])) (\<not> j) @ pending
        \<and> list_all2 (framed J) pending (in_flight (channels n' ! link_tx (link_end l j))))"
      using conv_recv.IH link_ends_distinct [OF assms(3), of "\<not> i" j]
      by (cases "i = (\<not> j)") (auto simp: bs(3) link_inv_def link_end_rx)
  qed
next
  case (conv_other s g n n')
  have "channels n' ! link_tx (link_end l i) = channels n ! link_tx (link_end l i)" for i
    using conv_other by (simp add: link_end_def mirror_def)
  then show ?case
    using conv_other.IH conv_other(2) unfolding link_inv_def by (metis less_le_trans)
qed (use assms(2) in simp)

section \<open>Networks that arise\<close>

text \<open>
  Fewer than \<open>2 ^ 64 - 1\<close> devices register.  A radio may be dropped at any time, and a link that
  was queued or accepted as well.
\<close>

inductive sim_reachable :: "sim_network \<Rightarrow> bool" where
  sim_new: "sim_reachable new_sim_network"
| sim_register: "sim_reachable n \<Longrightarrow> unat (next_index n) + 1 < 2 ^ 64 \<Longrightarrow> sim_reachable (snd (register t n))"
| sim_sever: "sim_reachable n \<Longrightarrow> sim_reachable (sever a b n)"
| sim_heal: "sim_reachable n \<Longrightarrow> sim_reachable (heal a b n)"
| sim_set_online: "sim_reachable n \<Longrightarrow> sim_reachable (set_online d online n)"
| sim_advertise: "sim_reachable n \<Longrightarrow> sim_reachable (snd (advertise d t n))"
| sim_connect: "sim_reachable n \<Longrightarrow> sim_reachable (snd (connect d h n))"
| sim_accept: "sim_reachable n \<Longrightarrow> accept d n = Some (l, n') \<Longrightarrow> sim_reachable n'"
| sim_send: "sim_reachable n \<Longrightarrow> sim_reachable (snd (link_send l bs n))"
| sim_recv: "sim_reachable n \<Longrightarrow> link_recv l n = Some (r, n') \<Longrightarrow> sim_reachable n'"
| sim_drop: "sim_reachable n \<Longrightarrow> sim_reachable (drop_link l n)"
| sim_drop_radio: "sim_reachable n \<Longrightarrow> sim_reachable (drop_radio d n)"

definition sim_inv :: "sim_network \<Rightarrow> bool" where
  "sim_inv n \<longleftrightarrow> distinct_keys (devices n)
    \<and> (\<forall>(i, st) \<in> set (devices n). dv_token st \<noteq> None \<and> i < next_index n)"

lemma sim_inv_update:
  "sim_inv n \<Longrightarrow> (\<And>st. dv_token st \<noteq> None \<Longrightarrow> dv_token (f st) \<noteq> None) \<Longrightarrow> sim_inv (update_device d f n)"
  unfolding sim_inv_def by (auto simp: update_device_def case_prod_unfold o_def split: if_splits)

lemma sim_inv_fields:
  "sim_inv n \<Longrightarrow> devices n' = devices n \<Longrightarrow> next_index n' = next_index n \<Longrightarrow> sim_inv n'"
  by (simp add: sim_inv_def)

lemma sim_inv_air: "sim_inv n \<longleftrightarrow> distinct_keys (air n)
    \<and> (\<forall>(i, token, _) \<in> set (air n). token \<noteq> None \<and> i < next_index n)"
  by (auto simp: sim_inv_def air_def case_prod_unfold o_def)

lemma sim_inv_same_air: "same_air n n' \<Longrightarrow> next_index n' = next_index n \<Longrightarrow> sim_inv n' = sim_inv n"
  by (simp add: sim_inv_air same_air_def)

lemma connect_next_index: "connect d h n = (r, n') \<Longrightarrow> next_index n' = next_index n"
  by (auto simp: connect_def Let_def split: peer_handle.splits if_splits option.splits)

lemma drop_link_keeps [simp]:
  "devices (drop_link l n) = devices n" "severed (drop_link l n) = severed n"
  "next_index (drop_link l n) = next_index n"
  by (simp_all add: drop_link_def Let_def)

lemma drop_links_keep [simp]:
  "devices (fold drop_link ls n) = devices n" "severed (fold drop_link ls n) = severed n"
  "next_index (fold drop_link ls n) = next_index n"
  by (induction ls arbitrary: n) simp_all

text \<open>A change of a device that concerns neither its token nor its being online is not seen.\<close>

lemma scan_unseen:
  assumes "\<And>st. dv_token (f st) = dv_token st" "\<And>st. dv_online (f st) = dv_online st"
    and "devices n' = devices n" "severed n' = severed n"
  shows "scan d (update_device e f n') = scan d n"
proof -
  have online: "device_online d (update_device e f n') = device_online d n"
    using assms by (auto simp: device_online_def map_of_update_device split: option.split)
  have "List.map_filter g (map (\<lambda>(i, st). (i, if i = e then f st else st)) m) = List.map_filter g m"
    if "\<And>i st. g (i, f st) = g (i, st)" for g :: "u64 \<times> device_state \<Rightarrow> peer_sighting option" and m
    by (induction m) (auto simp: map_filter_simps that split: if_splits option.split)
  then show ?thesis
    unfolding scan_def online using assms by (simp add: update_device_def)
qed

lemma drop_radio_scan: "scan d (drop_radio e n) = scan d n"
  by (simp add: drop_radio_def scan_unseen split: option.split)

lemma drop_radio_held: "radio_held i (drop_radio e n) \<longleftrightarrow> i \<noteq> e \<and> radio_held i n"
  by (auto simp: drop_radio_def radio_held_def map_of_update_device split: option.split)

lemma register_inv: "sim_inv n \<Longrightarrow> unat (next_index n) + 1 < 2 ^ 64 \<Longrightarrow> sim_inv (snd (register t n))"
proof -
  assume inv: "sim_inv n" and room: "unat (next_index n) + 1 < 2 ^ 64"
  have lt: "i < next_index n + 1" if "i \<le> next_index n" for i :: u64
    using that room by (simp add: word_less_nat_alt word_le_nat_alt unat_word_ariths)
  have "map_of (devices n) (next_index n) = None"
    using inv by (auto simp: sim_inv_def map_of_eq_None_iff)
  then show ?thesis
    using inv lt by (auto simp: sim_inv_def register_def update_fresh map_of_eq_None_iff less_imp_le)
qed

lemma sim_reachable_inv: "sim_reachable n \<Longrightarrow> sim_inv n"
proof (induction rule: sim_reachable.induct)
  case sim_new
  then show ?case by (simp add: sim_inv_def new_sim_network_def)
next
  case (sim_connect n d h)
  obtain r n' where c: "connect d h n = (r, n')" by (metis prod.exhaust)
  then show ?case
    using sim_connect.IH sim_inv_same_air [OF connect_same_air connect_next_index] by simp
next
  case (sim_accept n d l n')
  then show ?case
    by (auto simp: accept_def split: option.splits list.splits intro!: sim_inv_update)
next
  case (sim_recv n l r n')
  then show ?case
    by (auto simp: link_recv_def Let_def split: list.splits if_splits intro: sim_inv_fields)
next
  case (sim_drop_radio n d)
  have "sim_inv (fold drop_link ls n)" for ls
    by (rule sim_inv_fields [OF sim_drop_radio.IH]) simp_all
  then show ?case
    using sim_drop_radio.IH by (auto simp: drop_radio_def split: option.split intro: sim_inv_update)
qed (auto simp: sever_def heal_def set_online_def advertise_def link_send_def drop_link_def Let_def
    intro: register_inv sim_inv_update sim_inv_fields)

lemma sighted_iff:
  assumes "sim_inv n"
  shows "h \<in> sighted_handle ` set (scan d n) \<longleftrightarrow> (\<exists>i. h = Simulated i \<and> reachable d i n)"
proof -
  have "\<exists>st t. map_of (devices n) i = Some st \<and> dv_token st = Some t" if i: "reachable d i n" for i
  proof -
    obtain st where st: "map_of (devices n) i = Some st"
      using i by (cases "map_of (devices n) i") (auto simp: reachable_def device_online_def)
    then have "dv_token st \<noteq> None"
      using assms map_of_SomeD [OF st] unfolding sim_inv_def by blast
    with st show ?thesis by blast
  qed
  then show ?thesis
    using sights_reachable [of n] assms unfolding sim_inv_def by blast
qed

lemma connect_ok_iff:
  "is_ok (fst (connect d h n)) \<longleftrightarrow> (\<exists>i. h = Simulated i \<and> reachable d i n \<and> radio_held i n)"
proof
  assume ok: "is_ok (fst (connect d h n))"
  obtain r n' where c: "connect d h n = (r, n')" by (metis prod.exhaust)
  then show "\<exists>i. h = Simulated i \<and> reachable d i n \<and> radio_held i n"
  proof (cases rule: connect_cases)
    case refused
    then show ?thesis using ok c by simp
  qed (auto simp: radio_held_def)
qed (auto simp: connect_def radio_held_def Let_def split: option.splits)

lemma connect_refused: "\<not> is_ok (fst (connect d h n)) \<Longrightarrow> connect d h n = (Err PeerUnreachable, n)"
  by (auto simp: connect_def Let_def split: peer_handle.split option.split)

lemma reachable_sym: "reachable a b n \<longleftrightarrow> reachable b a n"
  by (auto simp: reachable_def link_pair_sym [of a b])

lemma map_map_filter:
  assumes "\<And>x y. f x = Some y \<Longrightarrow> h y = c (g x)"
  shows "map h (List.map_filter f xs) = map c (map g (filter (\<lambda>x. f x \<noteq> None) xs))"
  using assms by (induction xs) (auto simp: map_filter_simps split: option.split)

lemma distinct_scan: "distinct_keys (devices n) \<Longrightarrow> distinct (map sighted_handle (scan d n))"
  unfolding scan_def
  by (subst map_map_filter [where c = Simulated and g = fst])
    (auto simp: distinct_map inj_on_def split: if_splits)

section \<open>Properties\<close>

text \<open>
  C36: In every network that can arise, radios dropped at any time included, a scan sights each
  peer at most once and with the token it advertises at that moment, and sight is mutual.  A
  connection succeeds exactly to a peer in sight whose radio still exists; otherwise it is
  \<open>PeerUnreachable\<close> and changes nothing.  Dropping a radio takes no device out of anyone's sight:
  its own device stays sighted as before, no connection reaches it any more, and all other
  radios remain.
\<close>

theorem connections_reach_sighted_radios:
  assumes "sim_reachable n"
  shows "distinct (map sighted_handle (scan d n))
    \<and> (\<forall>x \<in> set (scan d n). \<exists>i st. sighted_handle x = Simulated i \<and> map_of (devices n) i = Some st
        \<and> dv_token st = Some (sighted_token x))
    \<and> (Simulated a \<in> sighted_handle ` set (scan b n) \<longleftrightarrow> Simulated b \<in> sighted_handle ` set (scan a n))
    \<and> (is_ok (fst (connect d h n)) \<longleftrightarrow>
        h \<in> sighted_handle ` set (scan d n) \<and> (\<exists>i. h = Simulated i \<and> radio_held i n))
    \<and> (is_ok (fst (connect d h n)) \<or> connect d h n = (Err PeerUnreachable, n))
    \<and> scan d (drop_radio e n) = scan d n
    \<and> connect d (Simulated e) (drop_radio e n) = (Err PeerUnreachable, drop_radio e n)
    \<and> (\<forall>i. radio_held i (drop_radio e n) \<longleftrightarrow> i \<noteq> e \<and> radio_held i n)"
proof -
  note inv = sim_reachable_inv [OF assms]
  then have d: "distinct_keys (devices n)"
    by (simp add: sim_inv_def)
  have "\<not> is_ok (fst (connect d (Simulated e) (drop_radio e n)))"
    by (simp add: connect_ok_iff drop_radio_held)
  note gone = connect_refused [OF this]
  have "\<forall>x \<in> set (scan d n). \<exists>i st. sighted_handle x = Simulated i \<and> map_of (devices n) i = Some st
      \<and> dv_token st = Some (sighted_token x)"
    by (auto simp: set_scan [OF d])
  moreover have "Simulated a \<in> sighted_handle ` set (scan b n) \<longleftrightarrow> Simulated b \<in> sighted_handle ` set (scan a n)"
    using reachable_sym by (simp add: sighted_iff [OF inv])
  moreover have "is_ok (fst (connect d h n)) \<longleftrightarrow>
      h \<in> sighted_handle ` set (scan d n) \<and> (\<exists>i. h = Simulated i \<and> radio_held i n)"
    by (auto simp: sighted_iff [OF inv] connect_ok_iff)
  ultimately show ?thesis
    using distinct_scan [OF d] connect_refused gone by (simp add: drop_radio_scan drop_radio_held) blast
qed

text \<open>Two devices of a fresh network.\<close>

definition toy_network :: sim_network where
  "toy_network = snd (register (replicate 16 2) (snd (register (replicate 16 1) new_sim_network)))"

lemma toy_network_reachable: "sim_reachable toy_network"
  unfolding toy_network_def
  by (intro sim_register sim_new) (simp_all add: register_def new_sim_network_def)

theorem connections_reach_sighted_radios_witness:
  "Simulated 1 \<in> sighted_handle ` set (scan 0 toy_network)
    \<and> is_ok (fst (connect 0 (Simulated 1) toy_network))
    \<and> Simulated 1 \<in> sighted_handle ` set (scan 0 (drop_radio 1 toy_network))
    \<and> connect 0 (Simulated 1) (drop_radio 1 toy_network) = (Err PeerUnreachable, drop_radio 1 toy_network)"
proof -
  have "is_ok (fst (connect 0 (Simulated 1) toy_network))"
    by code_simp
  then show ?thesis
    using connections_reach_sighted_radios [OF toy_network_reachable, of 0 0 0 "Simulated 1" 1] by simp
qed

text \<open>
  A link between two devices delivers every sync message sent over it, once and in order, in
  both directions independently, whatever else happens on the network: what one end has
  received is always a prefix of what the other has sent, the next receive yields the next
  message, and it waits only when everything sent has arrived.
\<close>

theorem link_is_fifo:
  assumes "msg_codec_law J" "connect d h n0 = (Ok l, n1)" "conversation J l n1 s g n"
  shows "\<exists>pending. s i = g (\<not> i) @ pending
    \<and> (case pending of
         [] \<Rightarrow> recv_msg J (link_end l (\<not> i)) n = None
       | m # _ \<Rightarrow> \<exists>n'. recv_msg J (link_end l (\<not> i)) n = Some (Ok m, n'))"
proof -
  have "link_inv J l (\<lambda>_. []) (\<lambda>_. []) n1 \<and> link_tx l \<noteq> link_rx l"
    using assms(2)
  proof (cases rule: connect_cases)
    case (joined target st)
    then show ?thesis
      by (auto simp: link_inv_def link_end_def mirror_def nth_append numeral_2_eq_2)
  qed simp
  then have inv: "link_inv J l s g n"
    using link_inv_conversation assms(1,3) by blast
  then obtain pending where p: "s i = g (\<not> i) @ pending" "tx_held (channels n ! link_tx (link_end l i))"
    "list_all2 (framed J) pending (in_flight (channels n ! link_tx (link_end l i)))"
    unfolding link_inv_def by blast
  have rx: "link_rx (link_end l (\<not> i)) = link_tx (link_end l i)"
    by (simp add: link_end_rx)
  show ?thesis
  proof (intro exI conjI)
    show "case pending of [] \<Rightarrow> recv_msg J (link_end l (\<not> i)) n = None
       | m # _ \<Rightarrow> \<exists>n'. recv_msg J (link_end l (\<not> i)) n = Some (Ok m, n')"
      using p(2,3) framed_decodes [OF assms(1)]
      by (auto simp: recv_msg_def link_recv_def rx Let_def list_all2_Cons1 split: list.split)
  qed (rule p(1))
qed

instance sync_message :: countable
  by countable_datatype

definition toy_msg_codec :: msg_codec where
  "toy_msg_codec = \<lparr>msg_to_json = (\<lambda>m. Ok (replicate (to_nat m) 0)), msg_from_json = (\<lambda>bs. Ok (from_nat (length bs)))\<rparr>"

lemma toy_msg_codec_law: "msg_codec_law toy_msg_codec"
  by (simp add: msg_codec_law_def toy_msg_codec_def)

theorem link_is_fifo_witness:
  "\<exists>l n n'. connect 0 (Simulated 1) toy_network = (Ok l, n)
    \<and> recv_msg toy_msg_codec (mirror l) (snd (send_msg toy_msg_codec l Done n)) = Some (Ok Done, n')"
proof -
  let ?J = toy_msg_codec
  have "is_ok (fst (connect 0 (Simulated 1) toy_network))"
    by code_simp
  then obtain l n where c: "connect 0 (Simulated 1) toy_network = (Ok l, n)"
    by (metis is_ok_iff prod.collapse)
  obtain n2 where s: "send_msg ?J (link_end l True) Done n = (Ok (), n2)"
    using c
  proof (cases rule: connect_cases)
    case (joined target st)
    then show ?thesis
      using that by (auto simp: send_msg_def toy_msg_codec_def link_end_def link_send_def nth_append
          numeral_2_eq_2 Let_def)
  qed simp
  have "conversation ?J l n ((\<lambda>_. [])(True := [Done])) (\<lambda>_. []) n2"
    using conv_send [OF conv_start s] by simp
  from link_is_fifo [OF toy_msg_codec_law c this, of True]
  obtain n' where "recv_msg ?J (link_end l False) n2 = Some (Ok Done, n')"
    by (auto split: list.splits)
  with c s show ?thesis
    by (auto simp: link_end_def)
qed

section \<open>Rotation on the air\<close>

definition rotation_rounds ::
  "u64 \<Rightarrow> (advert_token \<times> duration) list \<Rightarrow> rotating_identity \<times> sim_network \<Rightarrow> rotating_identity \<times> sim_network" where
  "rotation_rounds d draws s = fold (\<lambda>(fresh, now). rotation_step (advertise d) fresh now) draws s"

lemma update_device_twice:
  "(\<And>st. f (g st) = f st) \<Longrightarrow> update_device d f (update_device d g n) = update_device d f n"
  by (simp add: update_device_def case_prod_unfold o_def cong: if_cong)

lemma rotation_rounds_eq:
  assumes "map_of (devices n) d \<noteq> None" "draws \<noteq> []"
  shows "snd (rotation_rounds d draws (r, n)) = update_device d (\<lambda>st. st\<lparr>dv_token := Some (fst (last draws))\<rparr>) n
    \<and> ri_token (fst (rotation_rounds d draws (r, n))) = fst (last draws)"
  using assms
proof (induction draws arbitrary: r n)
  case (Cons x draws)
  have step: "rotation_step (advertise d) (fst x) (snd x) (r, n) =
      (r\<lparr>ri_token := fst x, ri_since := snd x\<rparr>, update_device d (\<lambda>st. st\<lparr>dv_token := Some (fst x)\<rparr>) n)"
    using Cons.prems by (auto simp: rotation_step_def rotate_token_def advertise_def)
  show ?case
  proof (cases draws)
    case Nil
    then show ?thesis by (simp add: rotation_rounds_def case_prod_unfold step)
  next
    case (Cons y ys)
    moreover have "map_of (devices (update_device d (\<lambda>st. st\<lparr>dv_token := Some (fst x)\<rparr>) n)) d \<noteq> None"
      using Cons.prems by (simp add: map_of_update_device)
    ultimately show ?thesis
      using Cons.IH [of "update_device d (\<lambda>st. st\<lparr>dv_token := Some (fst x)\<rparr>) n" "r\<lparr>ri_token := fst x, ri_since := snd x\<rparr>"]
      by (simp add: rotation_rounds_def case_prod_unfold step update_device_twice)
  qed
qed simp

text \<open>C14: However often its token rotates, a device is seen with the token drawn last and no
  earlier one, by everyone who saw it before and no one else, and the rotation changes nothing
  about how the other devices are seen.\<close>

theorem rotation_leaves_only_the_last_token:
  assumes reachable: "sim_reachable n" and there: "map_of (devices n) d \<noteq> None"
    and draws: "draws \<noteq> []" and run: "rotation_rounds d draws (r, n) = (r', n')"
  shows "\<lparr>sighted_handle = h, sighted_token = t\<rparr> \<in> set (scan e n') \<longleftrightarrow>
    (if h = Simulated d then t = fst (last draws) \<and> reachable e d n
     else \<lparr>sighted_handle = h, sighted_token = t\<rparr> \<in> set (scan e n))"
proof -
  let ?f = "\<lambda>st. st\<lparr>dv_token := Some (fst (last draws))\<rparr>"
  have n': "n' = update_device d ?f n"
    using rotation_rounds_eq [OF there draws, of r] run by simp
  have inv: "distinct_keys (devices n)"
    using sim_reachable_inv [OF reachable] by (simp add: sim_inv_def)
  then have inv': "distinct_keys (devices n')"
    by (simp add: n')
  have reach: "reachable e i n' = reachable e i n" for i
    by (auto simp: n' reachable_def device_online_def map_of_update_device split: option.split)
  show ?thesis
    unfolding set_scan [OF inv] set_scan [OF inv'] reach
    using there by (auto simp: n' map_of_update_device)
qed

theorem rotation_leaves_only_the_last_token_witness:
  "\<lparr>sighted_handle = Simulated 0, sighted_token = replicate 16 8\<rparr>
    \<in> set (scan 1 (snd (rotation_rounds 0 [(replicate 16 7, 0), (replicate 16 8, 1)]
      (with_default_interval (replicate 16 1) 0, toy_network))))"
proof -
  have "map_of (devices toy_network) 0 \<noteq> None" and "reachable 1 0 toy_network"
    by code_simp+
  then show ?thesis
    using rotation_leaves_only_the_last_token [OF toy_network_reachable, of 0 "[(replicate 16 7, 0), (replicate 16 8, 1)]"
      "with_default_interval (replicate 16 1) 0", OF _ _ prod.collapse [symmetric],
      of "Simulated 0" "replicate 16 8" 1]
    by simp
qed

end
