(* ===== verification/Sim_Harness.thy ===== *)
theory Sim_Harness
  imports Radio
begin

text \<open>
  The multi-node harness (\<open>mesh/src/sim.rs\<close>): the propagation pass of every node over one
  simulated network, round by round, and what epidemic propagation achieves on it.
\<close>

section \<open>The harness\<close>

text \<open>
  The nodes in index order, each named by the index of its radio; every node has a running
  accept loop, which takes the other end of a link as soon as it is queued.  A session runs to
  its end on both sides before the next one begins.
\<close>

record sim_harness =
  sh_network :: sim_network
  sh_devices :: "u64 list"
  sh_relays :: "u64 \<Rightarrow> relay_store"

fun register_all :: "advert_token list \<Rightarrow> sim_network \<Rightarrow> u64 list \<times> sim_network" where
  "register_all [] n = ([], n)"
| "register_all (t # ts) n =
    (let (d, n') = register t n; (ds, n'') = register_all ts n' in (d # ds, n''))"

definition new_harness :: "advert_token list \<Rightarrow> sim_harness" where
  "new_harness tokens =
    (let (ds, n) = register_all tokens new_sim_network
     in \<lparr>sh_network = n, sh_devices = ds, sh_relays = (\<lambda>_. new_relay_store)\<rparr>)"

definition harness_sever :: "nat \<Rightarrow> nat \<Rightarrow> sim_harness \<Rightarrow> sim_harness" where
  "harness_sever i j w = w\<lparr>sh_network := sever (sh_devices w ! i) (sh_devices w ! j) (sh_network w)\<rparr>"

definition harness_heal :: "nat \<Rightarrow> nat \<Rightarrow> sim_harness \<Rightarrow> sim_harness" where
  "harness_heal i j w = w\<lparr>sh_network := heal (sh_devices w ! i) (sh_devices w ! j) (sh_network w)\<rparr>"

definition harness_set_online :: "nat \<Rightarrow> bool \<Rightarrow> sim_harness \<Rightarrow> sim_harness" where
  "harness_set_online i b w = w\<lparr>sh_network := set_online (sh_devices w ! i) b (sh_network w)\<rparr>"

definition acceptor :: "sim_link \<Rightarrow> sim_network \<Rightarrow> u64 option" where
  "acceptor l n = map_option fst (find (\<lambda>(d, st). \<exists>ls. dv_accept st = mirror l # ls) (devices n))"

definition node_connect :: "u64 \<Rightarrow> peer_handle \<Rightarrow> sim_harness \<Rightarrow> sim_link mesh \<times> sim_harness" where
  "node_connect d h w =
    (let (r, n) = connect d h (sh_network w) in (r, w\<lparr>sh_network := n\<rparr>))"

definition node_session ::
  "relay_lib \<Rightarrow> relay_config \<Rightarrow> u64 \<Rightarrow> u64 \<Rightarrow> sim_link \<Rightarrow> sim_harness \<Rightarrow> nat mesh \<times> sim_harness" where
  "node_session L cfg now d l w =
    (case acceptor l (sh_network w) of
       None \<Rightarrow> (Err (Link ''peer link closed''), w)
     | Some p \<Rightarrow>
         (case accept p (sh_network w) of
            None \<Rightarrow> (Err (Link ''peer link closed''), w)
          | Some (l', n) \<Rightarrow>
              let ((mine, a), (_, b)) = sync_both L cfg cfg now (sh_relays w d) (sh_relays w p) in
              (case mine of Finished k \<Rightarrow> Ok k | Failed e \<Rightarrow> Err e | _ \<Rightarrow> Err (Link ''peer link closed''),
               w\<lparr>sh_network := drop_link l' (drop_link l n), sh_relays := (sh_relays w)(d := a, p := b)\<rparr>)))"

definition node_sync_once :: "relay_lib \<Rightarrow> relay_config \<Rightarrow> u64 \<Rightarrow> u64 \<Rightarrow> sim_harness \<Rightarrow> nat mesh \<times> sim_harness" where
  "node_sync_once L cfg now d w =
    sync_once (\<lambda>w. (Ok (map sighted_handle (scan d (sh_network w))), w)) (node_connect d)
      (node_session L cfg now d) w"

fun run_round ::
  "relay_lib \<Rightarrow> relay_config \<Rightarrow> u64 \<Rightarrow> u64 list \<Rightarrow> nat \<Rightarrow> sim_harness \<Rightarrow> nat \<times> sim_harness" where
  "run_round L cfg now [] n w = (n, w)"
| "run_round L cfg now (d # ds) n w =
    (case node_sync_once L cfg now d w of
       (Ok moved, w') \<Rightarrow> run_round L cfg now ds (n + moved) w'
     | (Err _, w') \<Rightarrow> run_round L cfg now ds n w')"

definition run_sync_round :: "relay_lib \<Rightarrow> relay_config \<Rightarrow> u64 \<Rightarrow> sim_harness \<Rightarrow> nat \<times> sim_harness" where
  "run_sync_round L cfg now w = run_round L cfg now (sh_devices w) 0 w"

fun run_sync_rounds :: "relay_lib \<Rightarrow> relay_config \<Rightarrow> u64 \<Rightarrow> nat \<Rightarrow> sim_harness \<Rightarrow> sim_harness" where
  "run_sync_rounds L cfg now 0 w = w"
| "run_sync_rounds L cfg now (Suc k) w = run_sync_rounds L cfg now k (snd (run_sync_round L cfg now w))"

section \<open>Sessions of relays that share a bundle population\<close>

text \<open>
  \<open>U\<close> is a set of live bundles that fits every cap; the relays considered hold bundles of \<open>U\<close>
  only.
\<close>

definition population :: "relay_lib \<Rightarrow> relay_config \<Rightarrow> u64 \<Rightarrow> bytes set \<Rightarrow> bool" where
  "population L cfg now U \<longleftrightarrow> finite U \<and> inj_on (sha L) U
    \<and> (\<forall>x \<in> U. \<forall>e a. readable L x e a \<longrightarrow> now < e)
    \<and> card U \<le> max_bundles_per_session cfg \<and> card U \<le> max_total_bundles cfg
    \<and> (\<Sum>x \<in> U. length x) \<le> max_total_bytes cfg"

definition carries :: "relay_lib \<Rightarrow> relay_config \<Rightarrow> bytes set \<Rightarrow> relay_store \<Rightarrow> bool" where
  "carries L cfg U s \<longleftrightarrow> relay_inv L cfg s \<and> held s \<subseteq> U"

lemma carries_count:
  assumes "carries L cfg U s" "finite U"
  shows "stored_count s \<le> card U"
proof -
  have "stored_count s = card (held s)"
    using held_sizes(1) assms(1) by (auto simp: carries_def)
  also have "\<dots> \<le> card U"
    using assms by (intro card_mono) (simp_all add: carries_def)
  finally show ?thesis .
qed

lemma carries_union:
  assumes "population L cfg now U" "carries L cfg U a" "carries L cfg U b"
  shows "card (held a \<union> held b) \<le> card U" "(\<Sum>x \<in> held a \<union> held b. length x) \<le> (\<Sum>x \<in> U. length x)"
proof -
  have U: "finite U" "held a \<union> held b \<subseteq> U"
    using assms by (auto simp: population_def carries_def)
  show "card (held a \<union> held b) \<le> card U"
    using U by (rule card_mono)
  show "(\<Sum>x \<in> held a \<union> held b. length x) \<le> (\<Sum>x \<in> U. length x)"
    using U by (intro sum_mono2) simp_all
qed

lemma carries_sweep:
  assumes "carries L cfg U s" "population L cfg now U"
  shows "sweep_expired now s = s"
proof -
  have inv: "relay_inv L cfg s" "relay_inv L cfg (sweep_expired now s)"
    using assms(1) relay_inv_sweep by (simp_all add: carries_def)
  have "now < sb_expiry_ms b" if "(h, b) \<in> set (by_hash s)" for h b
  proof -
    have "sb_bytes b \<in> U"
      using that assms(1) by (force simp: carries_def held_def)
    moreover have "readable L (sb_bytes b) (sb_expiry_ms b) (sb_address b)"
      using that inv(1) by (auto simp: relay_inv_def)
    ultimately show ?thesis
      using assms(2) unfolding population_def by blast
  qed
  then have "by_hash (sweep_expired now s) = by_hash s"
    using inv(1) by (auto simp: sweep_expired_eq relay_inv_def filter_id_conv)
  then show ?thesis
    using inv by (simp add: relay_inv_def)
qed

lemma population_session:
  assumes "population L cfg now U" "carries L cfg U a" "carries L cfg U b"
  obtains na nb a' b' where "sync_both L cfg cfg now a b = ((Finished na, a'), (Finished nb, b'))"
    "carries L cfg U a'" "carries L cfg U b'" "held a' = held a \<union> held b" "held b' = held a \<union> held b"
proof -
  note sizes = carries_count [OF assms(2)] carries_count [OF assms(3)]
  note sw = carries_sweep [OF assms(2,1)] carries_sweep [OF assms(3,1)]
  have U: "finite U" "inj_on (sha L) (held a \<union> held b)"
    using assms by (auto simp: population_def carries_def intro: inj_on_subset)
  have "\<exists>na nb a' b'. sync_both L cfg cfg now a b = ((Finished na, a'), (Finished nb, b'))
    \<and> held a' = held a \<union> held b \<and> held b' = held a \<union> held b
    \<and> relay_inv L cfg a' \<and> relay_inv L cfg b'"
    using sync_both_union [of L cfg a cfg b now] sizes [OF U(1)] U(2) assms carries_union [OF assms]
    unfolding sw by (auto simp: population_def carries_def)
  then show ?thesis
    using that assms(2,3) unfolding carries_def by auto
qed

section \<open>One pass of one node\<close>

definition quiet :: "sim_network \<Rightarrow> bool" where
  "quiet n \<longleftrightarrow> (\<forall>(i, st) \<in> set (devices n). dv_accept st = [])"

definition harness_ok ::
  "relay_lib \<Rightarrow> relay_config \<Rightarrow> bytes set \<Rightarrow> sim_network \<Rightarrow> sim_harness \<Rightarrow> bool" where
  "harness_ok L cfg U net w \<longleftrightarrow> same_air net (sh_network w) \<and> quiet (sh_network w)
    \<and> (\<forall>d. carries L cfg U (sh_relays w d))"

lemma find_unique:
  "\<exists>x \<in> set xs. P x \<Longrightarrow> \<forall>x \<in> set xs. P x \<longrightarrow> fst x = t \<Longrightarrow> map_option fst (find P xs) = Some t"
  by (induction xs) auto

lemma connect_joins:
  assumes "quiet n" "distinct_keys (devices n)" "connect d h n = (Ok l, n1)"
  obtains t n2 where "h = Simulated t" "reachable d t n" "acceptor l n1 = Some t"
    "accept t n1 = Some (mirror l, n2)" "quiet n2" "same_air n n2"
  using assms(3)
proof (cases rule: connect_cases)
  case (joined t st)
  let ?f = "\<lambda>st. st\<lparr>dv_accept := dv_accept st @ [mirror l]\<rparr>"
  let ?n = "n\<lparr>channels := channels n @ replicate 2 \<lparr>in_flight = [], tx_held = True, rx_held = True\<rparr>\<rparr>"
  let ?n2 = "update_device t (\<lambda>st. st\<lparr>dv_accept := []\<rparr>) n1"
  have n1: "n1 = update_device t ?f ?n"
    using joined(5,6) by (simp add: mirror_def)
  have st: "(t, st) \<in> set (devices n)" "dv_accept st = []"
    using joined(3) assms(1) map_of_SomeD by (force simp: quiet_def)+
  have dev: "devices n1 = map (\<lambda>(i, st). (i, if i = t then ?f st else st)) (devices n)"
    by (simp add: n1 update_device_def)
  have acceptor: "acceptor l n1 = Some t"
    unfolding acceptor_def
  proof (rule find_unique)
    show "\<exists>x \<in> set (devices n1). case x of (d, st) \<Rightarrow> \<exists>ls. dv_accept st = mirror l # ls"
    proof
      show "(t, ?f st) \<in> set (devices n1)"
        unfolding dev set_map using st(1) by (intro image_eqI [of _ _ "(t, st)"]) simp_all
    qed (simp add: st(2))
    show "\<forall>x \<in> set (devices n1). (case x of (d, st) \<Rightarrow> \<exists>ls. dv_accept st = mirror l # ls) \<longrightarrow> fst x = t"
      using assms(1) by (auto simp: dev quiet_def split: if_splits)
  qed
  have "map_of (devices n1) t = Some (?f st)"
    using joined(3) by (simp add: n1 map_of_update_device)
  then have accepted: "accept t n1 = Some (mirror l, ?n2)"
    by (simp add: accept_def st(2))
  have silent: "quiet ?n2"
    using assms(1) by (auto simp: quiet_def update_device_def dev split: if_splits)
  have "same_air n ?n2"
    by (rule same_air_trans [OF connect_same_air [OF assms(3)] same_air_queue])
  then show ?thesis
    by (rule that [OF joined(1,2) acceptor accepted silent])
qed simp

lemma node_session_spreads:
  assumes "population L cfg now U" "all_listening net" "harness_ok L cfg U net w"
    and "node_connect d h w = (Ok l, w1)" "node_session L cfg now d l w1 = (r, w2)"
  shows "harness_ok L cfg U net w2 \<and> sh_devices w2 = sh_devices w
    \<and> (\<forall>i. held (sh_relays w i) \<subseteq> held (sh_relays w2 i))
    \<and> (\<exists>t. h = Simulated t \<and> held (sh_relays w d) \<subseteq> held (sh_relays w2 t))"
proof -
  obtain n1 where c: "connect d h (sh_network w) = (Ok l, n1)" "w1 = w\<lparr>sh_network := n1\<rparr>"
    using assms(4) by (auto simp: node_connect_def split: prod.splits)
  have ok: "same_air net (sh_network w)" "quiet (sh_network w)" "\<forall>d. carries L cfg U (sh_relays w d)"
    using assms(3) by (simp_all add: harness_ok_def)
  have "distinct_keys (devices (sh_network w))"
    using same_air_listening [OF ok(1)] assms(2) by (simp add: all_listening_def)
  then obtain t n2 where t: "h = Simulated t" "reachable d t (sh_network w)" "acceptor l n1 = Some t"
    "accept t n1 = Some (mirror l, n2)" "quiet n2" "same_air (sh_network w) n2"
    using connect_joins [OF ok(2) _ c(1)] by blast
  obtain na nb a b where s: "sync_both L cfg cfg now (sh_relays w d) (sh_relays w t) = ((Finished na, a), (Finished nb, b))"
    "carries L cfg U a" "carries L cfg U b"
    "held a = held (sh_relays w d) \<union> held (sh_relays w t)" "held b = held (sh_relays w d) \<union> held (sh_relays w t)"
    using population_session [OF assms(1) ok(3) [THEN spec, of d] ok(3) [THEN spec, of t]] .
  have w2: "w2 = w\<lparr>sh_network := drop_link (mirror l) (drop_link l n2),
      sh_relays := (sh_relays w)(d := a, t := b)\<rparr>"
    using assms(5) by (simp add: node_session_def c(2) t(3,4) s(1))
  have "same_air n2 (drop_link (mirror l) (drop_link l n2))"
    by (simp add: same_air_def air_def)
  then have "same_air net (sh_network w2)"
    unfolding w2 using same_air_trans [OF ok(1) same_air_trans [OF t(6)]] by simp
  moreover have "quiet (sh_network w2)"
    unfolding w2 using t(5) by (simp add: quiet_def)
  moreover have "\<forall>i. carries L cfg U (sh_relays w2 i)"
    unfolding w2 using ok(3) s(2,3) by simp
  ultimately have "harness_ok L cfg U net w2"
    by (simp add: harness_ok_def)
  moreover have "sh_devices w2 = sh_devices w" "held (sh_relays w2 t) = held b"
    by (simp_all add: w2)
  moreover have "held (sh_relays w i) \<subseteq> held (sh_relays w2 i)" for i
    using s(4,5) by (auto simp: w2)
  ultimately show ?thesis
    using s(5) t(1) by blast
qed

lemma node_sync_once_spreads:
  assumes "population L cfg now U" "sim_inv net" "harness_ok L cfg U net w" "all_listening net"
    and "node_sync_once L cfg now d w = (r, w')"
  shows "harness_ok L cfg U net w' \<and> sh_devices w' = sh_devices w
    \<and> (\<forall>i. held (sh_relays w i) \<subseteq> held (sh_relays w' i))
    \<and> (\<forall>i. reachable d i net \<longrightarrow> held (sh_relays w d) \<subseteq> held (sh_relays w' i))"
proof -
  let ?net = sh_network
  define I where "I v \<longleftrightarrow> harness_ok L cfg U net v \<and> sh_devices v = sh_devices w
    \<and> (\<forall>i. held (sh_relays w i) \<subseteq> held (sh_relays v i))" for v :: sim_harness
  define Q where "Q h v \<longleftrightarrow> (\<exists>i. h = Simulated i \<and> held (sh_relays w d) \<subseteq> held (sh_relays v i))" for h and v :: sim_harness
  note listening = assms(4)
  have sights: "scan d (?net v) = scan d net" "all_listening (?net v)" if "I v" for v
    using that listening same_air_scan same_air_listening by (auto simp: I_def harness_ok_def)
  obtain k' where run: "sync_all (node_connect d) (node_session L cfg now d)
      (map sighted_handle (scan d (?net w))) 0 w = (k', w')"
    using assms(5) by (simp add: node_sync_once_def sync_once_def split: prod.splits)
  have "I w' \<and> (\<forall>h \<in> set (map sighted_handle (scan d (?net w))). Q h w') \<and> (\<forall>g. Q g w \<longrightarrow> Q g w')"
  proof (rule sim_radio.sync_all_visits [where net = ?net and put = "\<lambda>n w. w\<lparr>sh_network := n\<rparr>", OF _ _ _ _ _ run])
    show "I w"
      using assms(3) by (simp add: I_def)
    show "node_connect d h v = (case connect d h (?net v) of (r, n) \<Rightarrow> (r, v\<lparr>sh_network := n\<rparr>))" for h v
      by (simp add: node_connect_def)
    show "I v2 \<and> map sighted_handle (scan d (?net v2)) = map sighted_handle (scan d (?net v))
        \<and> Q h v2 \<and> (\<forall>g. Q g v \<longrightarrow> Q g v2)"
      if v: "I v" "node_connect d h v = (Ok l, v1)" "node_session L cfg now d l v1 = (r, v2)" for v h l v1 r v2
    proof -
      have ok: "harness_ok L cfg U net v"
        using v(1) by (simp add: I_def)
      from node_session_spreads [OF assms(1) listening ok v(2,3)]
      have *: "I v2" "\<forall>i. held (sh_relays v i) \<subseteq> held (sh_relays v2 i)"
        "\<exists>t. h = Simulated t \<and> held (sh_relays v d) \<subseteq> held (sh_relays v2 t)"
        using v(1) by (auto simp: I_def)
      have "Q h v2"
        using v(1) *(3) unfolding Q_def I_def by blast
      moreover have "Q g v2" if "Q g v" for g
        using that *(2) unfolding Q_def by blast
      ultimately show ?thesis
        using *(1) sights(1) [OF v(1)] sights(1) [OF *(1)] by metis
    qed
  qed (use sights in auto)
  moreover have "Simulated i \<in> set (map sighted_handle (scan d (?net w)))" if "reachable d i net" for i
  proof -
    have "scan d (?net w) = scan d net"
      using assms(3) by (intro same_air_scan) (simp add: harness_ok_def)
    then show ?thesis
      using that sighted_iff [OF assms(2)] by simp
  qed
  ultimately show ?thesis
    unfolding I_def Q_def by blast
qed

section \<open>Rounds\<close>

lemma run_round_spreads:
  assumes "population L cfg now U" "sim_inv net" "all_listening net"
  shows "run_round L cfg now ds n w = (n', w') \<Longrightarrow> harness_ok L cfg U net w \<Longrightarrow>
    harness_ok L cfg U net w' \<and> sh_devices w' = sh_devices w
    \<and> (\<forall>i. held (sh_relays w i) \<subseteq> held (sh_relays w' i))
    \<and> (\<forall>d \<in> set ds. \<forall>i. reachable d i net \<longrightarrow> held (sh_relays w d) \<subseteq> held (sh_relays w' i))"
proof (induction ds arbitrary: n w)
  case (Cons d ds)
  obtain r w1 where r: "node_sync_once L cfg now d w = (r, w1)"
    by (metis prod.exhaust)
  note one = node_sync_once_spreads [OF assms(1,2) Cons.prems(2) assms(3) r]
  obtain m where "run_round L cfg now ds m w1 = (n', w')"
    using Cons.prems(1) r by (cases r) auto
  from Cons.IH [OF this] one show ?case
    by (auto; blast)
qed simp

lemma run_sync_rounds_spread:
  assumes "population L cfg now U" "sim_inv net" "all_listening net" "harness_ok L cfg U net w"
    and "set (keys (devices net)) \<subseteq> set (sh_devices w)"
  shows "harness_ok L cfg U net (run_sync_rounds L cfg now k w)
    \<and> (\<forall>i. held (sh_relays w i) \<subseteq> held (sh_relays (run_sync_rounds L cfg now k w) i))
    \<and> (\<forall>j a b. j \<le> k \<longrightarrow> (a, b) \<in> {(a, b). reachable a b net} ^^ j \<longrightarrow>
        held (sh_relays w a) \<subseteq> held (sh_relays (run_sync_rounds L cfg now k w) b))"
  using assms(4,5)
proof (induction k arbitrary: w)
  case (Suc k)
  obtain n w1 where r: "run_sync_round L cfg now w = (n, w1)"
    by (metis prod.exhaust)
  note one = run_round_spreads [OF assms(1-3) r [unfolded run_sync_round_def] Suc.prems(1)]
  then have rest: "harness_ok L cfg U net (run_sync_rounds L cfg now k w1)
    \<and> (\<forall>i. held (sh_relays w1 i) \<subseteq> held (sh_relays (run_sync_rounds L cfg now k w1) i))
    \<and> (\<forall>j a b. j \<le> k \<longrightarrow> (a, b) \<in> {(a, b). reachable a b net} ^^ j \<longrightarrow>
        held (sh_relays w1 a) \<subseteq> held (sh_relays (run_sync_rounds L cfg now k w1) b))"
    using Suc.IH Suc.prems(2) by simp
  have known: "a \<in> set (sh_devices w)" if "reachable a b net" for a b
  proof -
    have "device_online a net"
      using that by (simp add: reachable_def)
    then have "map_of (devices net) a \<noteq> None"
      by (auto simp: device_online_def split: option.splits)
    then show ?thesis
      using Suc.prems(2) by (auto simp: map_of_eq_None_iff)
  qed
  have "held (sh_relays w a) \<subseteq> held (sh_relays (run_sync_rounds L cfg now k w1) b)"
    if path: "j \<le> Suc k" "(a, b) \<in> {(a, b). reachable a b net} ^^ j" for j a b
  proof (cases j)
    case 0
    then show ?thesis
      using path(2) one rest by (simp; blast)
  next
    case (Suc i)
    then obtain c where "reachable a c net" "(c, b) \<in> {(a, b). reachable a b net} ^^ i" "i \<le> k"
      using path relpow_Suc_D2 [of a b i "{(a, b). reachable a b net}"] by auto
    then show ?thesis
      using one rest known by blast
  qed
  moreover have "held (sh_relays w i) \<subseteq> held (sh_relays (run_sync_rounds L cfg now k w1) i)" for i
    using one rest by blast
  ultimately show ?case
    using rest by (simp add: r)
qed auto

section \<open>Properties\<close>

text \<open>
  C22: Epidemic propagation reaches everyone within reach.  In a simulated network in which no
  connection is pending and no radio was dropped, when the bundles the nodes hold are live, no two
  of them have the same hash and all of them together fit the caps of a session and of a store,
  \<open>k\<close> rounds carry every bundle of a node to each node at most \<open>k\<close> hops away along devices that
  are online and not severed; nothing is lost anywhere and nothing appears that no node held.
\<close>

theorem epidemic_reaches_k_hops:
  fixes w :: sim_harness
  defines "U \<equiv> \<Union>d. held (sh_relays w d)"
  assumes "sim_reachable (sh_network w)" "quiet (sh_network w)"
    and "\<forall>d \<in> set (keys (devices (sh_network w))). radio_held d (sh_network w)"
    and "set (keys (devices (sh_network w))) \<subseteq> set (sh_devices w)"
    and "\<forall>d. relay_reachable L cfg (sh_relays w d)" "population L cfg now U"
    and "j \<le> k" "(a, b) \<in> {(a, b). reachable a b (sh_network w)} ^^ j"
  shows "held (sh_relays w a) \<subseteq> held (sh_relays (run_sync_rounds L cfg now k w) b)
    \<and> held (sh_relays w b) \<subseteq> held (sh_relays (run_sync_rounds L cfg now k w) b)
    \<and> held (sh_relays (run_sync_rounds L cfg now k w) b) \<subseteq> U"
proof -
  note inv = sim_reachable_inv [OF assms(2)]
  have "all_listening (sh_network w)"
    using inv assms(4) by (force simp: all_listening_def sim_inv_def radio_held_def)
  note spread = run_sync_rounds_spread [OF assms(7) inv this _ assms(5)]
  have "carries L cfg U (sh_relays w d)" for d
    using assms(6) relay_reachable_inv by (auto simp: carries_def U_def)
  then have "harness_ok L cfg U (sh_network w) w"
    using assms(3) by (simp add: harness_ok_def)
  from spread [OF this]
  show ?thesis
    using assms(8,9) unfolding harness_ok_def carries_def by blast
qed

text \<open>Three devices in a line; the first relay holds a bundle.\<close>

definition toy_line :: sim_network where
  "toy_line = sever 0 2 (snd (register (replicate 16 3) toy_network))"

lemma toy_line_reachable: "sim_reachable toy_line"
  unfolding toy_line_def
  by (intro sim_sever sim_register toy_network_reachable) (simp add: toy_network_def register_def new_sim_network_def)

definition toy_harness :: sim_harness where
  "toy_harness = \<lparr>sh_network = toy_line, sh_devices = [0, 1, 2],
    sh_relays = (\<lambda>d. if d = 0 then toy_relay else new_relay_store)\<rparr>"

theorem epidemic_reaches_k_hops_witness:
  "\<not> reachable 0 2 (sh_network toy_harness)
    \<and> toy_bytes \<in> held (sh_relays (run_sync_rounds toy_relay_lib default_relay_config 1500001 2 toy_harness) 2)"
proof -
  have U: "(\<Union>d. held (sh_relays toy_harness d)) = {toy_bytes}"
    by (auto simp: toy_harness_def toy_relay_eq new_relay_store_def held_def split: if_splits)
  have expiry: "1500001 < e" if "readable toy_relay_lib toy_bytes e x" for e x
    using that toy_readable by (auto simp: readable_def)
  have "population toy_relay_lib default_relay_config 1500001 {toy_bytes}"
    using expiry length_toy_bytes by (auto simp: population_def default_relay_config_def)
  moreover have "reachable 0 1 toy_line" "reachable 1 2 toy_line" "\<not> reachable 0 2 toy_line"
    by code_simp+
  then have "(0, 2) \<in> {(a, b). reachable a b (sh_network toy_harness)} ^^ 2"
    by (auto simp: toy_harness_def numeral_2_eq_2)
  moreover have "quiet toy_line" "set (keys (devices toy_line)) \<subseteq> {0, 1, 2}"
    by (auto simp: quiet_def toy_line_def toy_network_def register_def new_sim_network_def sever_def)
  moreover have "\<forall>d \<in> set (keys (devices toy_line)). radio_held d toy_line"
    by code_simp
  moreover have "\<forall>d. relay_reachable toy_relay_lib default_relay_config (sh_relays toy_harness d)"
    using toy_relay_reachable reach_new by (simp add: toy_harness_def)
  ultimately have "held (sh_relays toy_harness 0)
      \<subseteq> held (sh_relays (run_sync_rounds toy_relay_lib default_relay_config 1500001 2 toy_harness) 2)"
    using epidemic_reaches_k_hops [of toy_harness toy_relay_lib default_relay_config 1500001 2 2 0 2]
      toy_line_reachable U by (simp add: toy_harness_def)
  then show ?thesis
    using \<open>\<not> reachable 0 2 toy_line\<close> by (auto simp: toy_harness_def toy_relay_eq held_def)
qed

end
