(* ===== verification/Secure_Memory.thy ===== *)
theory Secure_Memory
  imports Std_Text
begin

text \<open>
  Memory locking (\<open>protocol/src/secure_memory.rs\<close>) and the buffers that are kept locked while
  they hold a secret.  The system locks whole pages, and locks of one page do not add up: the
  first unlock ends them all.  Where a buffer lies, whether a call succeeds and the text of
  \<open>/proc/self/status\<close> are arguments.
\<close>

section \<open>Locking pages\<close>

text \<open>
  Of a process: the last contents of every buffer that ever held a secret, by its address,
  whether still owned or given back, and the pages that are locked.
\<close>

record process_memory =
  cells :: "(nat \<times> bytes) list"
  locked :: "nat set"

definition fresh_memory :: process_memory where
  "fresh_memory = \<lparr>cells = [], locked = {}\<rparr>"

definition PAGE_SIZE :: nat where
  "PAGE_SIZE = 4096"

definition pages :: "nat \<Rightarrow> nat \<Rightarrow> nat set" where
  "pages ptr len = (\<lambda>a. a div PAGE_SIZE) ` {ptr..<ptr + len}"

definition imp_lock :: "bool \<Rightarrow> nat \<Rightarrow> nat \<Rightarrow> process_memory \<Rightarrow> bool \<times> process_memory" where
  "imp_lock mlock_ok ptr len m =
    (if mlock_ok then (True, m\<lparr>locked := locked m \<union> pages ptr len\<rparr>) else (False, m))"

definition imp_unlock :: "nat \<Rightarrow> nat \<Rightarrow> process_memory \<Rightarrow> process_memory" where
  "imp_unlock ptr len m = m\<lparr>locked := locked m - pages ptr len\<rparr>"

definition secure_lock :: "bool \<Rightarrow> nat \<Rightarrow> nat \<Rightarrow> process_memory \<Rightarrow> bool \<times> process_memory" where
  "secure_lock mlock_ok ptr len m = (if len = 0 then (True, m) else imp_lock mlock_ok ptr len m)"

definition secure_unlock :: "nat \<Rightarrow> nat \<Rightarrow> process_memory \<Rightarrow> process_memory" where
  "secure_unlock ptr len m = (if len = 0 then m else imp_unlock ptr len m)"

text \<open>
  The system's own count, from the line of \<open>/proc/self/status\<close> that gives it in kilobytes.  A
  count that is no number, or a status that cannot be read, is no answer; a release build wraps
  the product.
\<close>

fun first_word :: "string \<Rightarrow> string" where
  "first_word [] = []"
| "first_word (c # s) = (if strip_any whitespace (c # s) \<noteq> None then [] else c # first_word s)"

fun locked_in :: "string list \<Rightarrow> u64 option" where
  "locked_in [] = None"
| "locked_in (line # lines) =
    (case strip_prefix ''VmLck:'' line of
       Some rest \<Rightarrow>
         (case first_word (trim rest) of
            [] \<Rightarrow> None
          | w \<Rightarrow> map_option (\<lambda>kb. of_nat kb * 1024) (parse_unsigned (2 ^ 64) w))
     | None \<Rightarrow> locked_in lines)"

definition locked_byte_count :: "string option \<Rightarrow> u64 option" where
  "locked_byte_count status = Option.bind status (\<lambda>s. locked_in (split_on (CHR 0x0A) s))"

text \<open>The line is found behind lines that do not start with the label, and read in kilobytes.\<close>

lemma strip_any_printable:
  assumes "of_char c \<in> {33..<128 :: nat}"
  shows "strip_any whitespace (c # s) = None"
proof -
  have "c \<notin> hd ` set whitespace"
    using whitespace_codes assms unfolding list_all_iff by auto
  moreover have "[] \<notin> set whitespace"
    by (auto simp: whitespace_def)
  ultimately show ?thesis
    by (intro strip_any_None) simp_all
qed

lemma first_word_printable:
  "\<forall>c \<in> set w. of_char c \<in> {33..<128 :: nat} \<Longrightarrow> first_word (w @ CHR '' '' # s) = w"
proof (induction w)
  case Nil
  have "strip_any whitespace (CHR '' '' # s) = Some s"
    by (simp add: whitespace_def char_of_def bit_0)
  then show ?case by simp
next
  case (Cons c w)
  then show ?case by (simp add: strip_any_printable)
qed

lemma trim_leading:
  assumes "set pad \<subseteq> {CHR '' '', CHR 0x09}" "s \<noteq> []" "of_char (hd s) \<in> {33..<128 :: nat}" "of_char (last s) \<in> {33..<128 :: nat}"
  shows "trim (pad @ s) = s"
proof -
  have ne: "[] \<notin> set whitespace"
    by (auto simp: whitespace_def)
  have one: "strip_any whitespace (c # t) = Some t" if "c \<in> {CHR '' '', CHR 0x09}" for c t
    using that by (elim insertE emptyE; hypsubst; simp add: whitespace_def char_of_def bit_0)
  have "strip_while whitespace (pad @ s) = strip_while whitespace s"
    using assms(1)
  proof (induction pad)
    case (Cons c pad)
    then show ?case
      using ne one [of c "pad @ s"] by (simp add: strip_while.simps [of _ "c # _"])
  qed simp
  then show ?thesis
    using trim_keeps [OF assms(2-4)] by (simp add: trim_def)
qed

lemma locked_byte_count_reads_status:
  assumes "\<forall>line \<in> set before. strip_prefix ''VmLck:'' line = None" "set pad \<subseteq> {CHR '' '', CHR 0x09}" "kb < 2 ^ 64"
  shows "locked_in (before @ (''VmLck:'' @ pad @ dec kb @ '' kB'') # after) = Some (of_nat kb * 1024)"
  using assms(1)
proof (induction before)
  case Nil
  have digits: "of_char c \<in> {33..<128 :: nat}" if "c \<in> set (dec kb)" for c
    using dec_digits [OF that] by (auto simp: is_ascii_digit_def)
  obtain d ds where d: "dec kb = d # ds"
    by (metis dec.simps neq_Nil_conv snoc_eq_iff_butlast)
  have "trim (pad @ dec kb @ '' kB'') = dec kb @ '' kB''"
    using digits [of d] d by (intro trim_leading [OF assms(2)]) simp_all
  moreover have "first_word (dec kb @ '' kB'') = dec kb"
    using first_word_printable [of "dec kb" "''kB''"] digits by simp
  ultimately show ?case
    using parse_unsigned_dec [OF assms(3)] d strip_prefix_append [of "''VmLck:''" "pad @ dec kb @ '' kB''"]
    by (simp split: list.split)
qed simp

section \<open>Buffers that hold a secret\<close>

text \<open>
  A buffer is filled and locked when it is taken, and zeroed and unlocked when it is given back.
  A transient one is only written and zeroed.
\<close>

definition write_buffer :: "nat \<Rightarrow> bytes \<Rightarrow> process_memory \<Rightarrow> process_memory" where
  "write_buffer ptr bs m = m\<lparr>cells := AList.update ptr bs (cells m)\<rparr>"

definition take_buffer :: "bool \<Rightarrow> nat \<Rightarrow> bytes \<Rightarrow> process_memory \<Rightarrow> process_memory" where
  "take_buffer mlock_ok ptr bs m = snd (secure_lock mlock_ok ptr (length bs) (write_buffer ptr bs m))"

definition zero_buffer :: "nat \<Rightarrow> bytes \<Rightarrow> process_memory \<Rightarrow> process_memory" where
  "zero_buffer ptr bs m = write_buffer ptr (replicate (length bs) 0) m"

definition give_back :: "nat \<Rightarrow> bytes \<Rightarrow> process_memory \<Rightarrow> process_memory" where
  "give_back ptr bs m = secure_unlock ptr (length bs) (zero_buffer ptr bs m)"

lemma pages_empty [simp]: "pages ptr 0 = {}"
  by (simp add: pages_def)

lemma write_buffer_sel [simp]:
  "cells (write_buffer ptr bs m) = AList.update ptr bs (cells m)" "locked (write_buffer ptr bs m) = locked m"
  by (simp_all add: write_buffer_def)

lemma take_unlocked: "take_buffer False ptr bs m = write_buffer ptr bs m"
  by (simp add: take_buffer_def secure_lock_def imp_lock_def)

lemma zero_buffer_sel [simp]:
  "cells (zero_buffer ptr bs m) = AList.update ptr (replicate (length bs) 0) (cells m)"
  "locked (zero_buffer ptr bs m) = locked m"
  by (simp_all add: zero_buffer_def)

lemma take_buffer_sel [simp]:
  "cells (take_buffer ok ptr bs m) = AList.update ptr bs (cells m)"
  "locked (take_buffer ok ptr bs m) = (if ok then locked m \<union> pages ptr (length bs) else locked m)"
  by (simp_all add: take_buffer_def secure_lock_def imp_lock_def)

lemma give_back_sel [simp]:
  "cells (give_back ptr bs m) = AList.update ptr (replicate (length bs) 0) (cells m)"
  "locked (give_back ptr bs m) = locked m - pages ptr (length bs)"
  by (simp_all add: give_back_def secure_unlock_def imp_unlock_def)

text \<open>
  \<open>owned\<close> gives the buffers that are in use, those of \<open>lockable\<close> owners locked when the system
  allows.  They hold what they should, at distinct addresses, every other buffer is zero, and no
  page is locked that is not part of a lockable owner's buffer.
\<close>

definition secrets_inv :: "('i \<Rightarrow> bool) \<Rightarrow> ('i \<rightharpoonup> nat \<times> bytes) \<Rightarrow> process_memory \<Rightarrow> bool" where
  "secrets_inv lockable owned m \<longleftrightarrow>
    (\<forall>i p bs. owned i = Some (p, bs) \<longrightarrow> map_of (cells m) p = Some bs)
    \<and> (\<forall>i j p bs cs. owned i = Some (p, bs) \<longrightarrow> owned j = Some (p, cs) \<longrightarrow> i = j)
    \<and> (\<forall>p bs. map_of (cells m) p = Some bs \<longrightarrow> \<not> set bs \<subseteq> {0} \<longrightarrow> (\<exists>i cs. owned i = Some (p, cs)))
    \<and> (\<forall>pg \<in> locked m. \<exists>i p bs. lockable i \<and> owned i = Some (p, bs) \<and> pg \<in> pages p (length bs))"

lemma secrets_invD:
  assumes "secrets_inv lockable owned m"
  shows "owned i = Some (p, bs) \<Longrightarrow> map_of (cells m) p = Some bs"
    and "owned i = Some (p, bs) \<Longrightarrow> owned j = Some (p, cs) \<Longrightarrow> i = j"
    and "map_of (cells m) p = Some bs \<Longrightarrow> \<not> set bs \<subseteq> {0} \<Longrightarrow> \<exists>i cs. owned i = Some (p, cs)"
    and "pg \<in> locked m \<Longrightarrow> \<exists>i p bs. lockable i \<and> owned i = Some (p, bs) \<and> pg \<in> pages p (length bs)"
  using assms unfolding secrets_inv_def by blast+

lemma secrets_inv_fresh: "secrets_inv lockable (\<lambda>_. None) fresh_memory"
  by (simp add: secrets_inv_def fresh_memory_def)

text \<open>A buffer nobody owns is taken, or the owner of a transient one writes it.\<close>

lemma secrets_inv_take:
  assumes inv: "secrets_inv lockable owned m" and i: "owned i = None \<or> (\<exists>cs. owned i = Some (ptr, cs)) \<and> \<not> lockable i"
    and unused: "\<And>j q cs. j \<noteq> i \<Longrightarrow> owned j = Some (q, cs) \<Longrightarrow> q \<noteq> ptr" and ok: "ok \<longrightarrow> lockable i"
  shows "secrets_inv lockable (owned(i \<mapsto> (ptr, bs))) (take_buffer ok ptr bs m)"
  unfolding secrets_inv_def
proof (intro conjI allI impI ballI)
  show "map_of (cells (take_buffer ok ptr bs m)) p = Some cs" if "(owned(i \<mapsto> (ptr, bs))) j = Some (p, cs)" for j p cs
    using that unused [of j p cs] secrets_invD(1) [OF inv, of j] by (auto split: if_splits)
  show "j = k" if "(owned(i \<mapsto> (ptr, bs))) j = Some (p, cs)" "(owned(i \<mapsto> (ptr, bs))) k = Some (p, ds)" for j k p cs ds
    using that unused secrets_invD(2) [OF inv, of j p cs k ds] by (auto split: if_splits)
  show "\<exists>j ds. (owned(i \<mapsto> (ptr, bs))) j = Some (p, ds)"
    if cell: "map_of (cells (take_buffer ok ptr bs m)) p = Some cs" "\<not> set cs \<subseteq> {0}" for p cs
  proof (cases "p = ptr")
    case False
    then obtain j ds where "owned j = Some (p, ds)"
      using cell secrets_invD(3) [OF inv, of p cs] by auto
    with i False show ?thesis by (intro exI [of _ j] exI [of _ ds]) auto
  qed auto
  show "\<exists>j p cs. lockable j \<and> (owned(i \<mapsto> (ptr, bs))) j = Some (p, cs) \<and> pg \<in> pages p (length cs)"
    if pg: "pg \<in> locked (take_buffer ok ptr bs m)" for pg
  proof (cases "ok \<and> pg \<in> pages ptr (length bs)")
    case True
    then show ?thesis using ok by (intro exI [of _ i] exI [of _ ptr] exI [of _ bs]) simp
  next
    case False
    then obtain j p cs where "lockable j" "owned j = Some (p, cs)" "pg \<in> pages p (length cs)"
      using pg secrets_invD(4) [OF inv, of pg] by (auto split: if_splits)
    with i show ?thesis by (intro exI [of _ j] exI [of _ p] exI [of _ cs]) auto
  qed
qed

lemma secrets_inv_write:
  assumes "secrets_inv lockable owned m" "owned i = None \<or> (\<exists>cs. owned i = Some (ptr, cs))" "\<not> lockable i"
    and "\<And>j q cs. j \<noteq> i \<Longrightarrow> owned j = Some (q, cs) \<Longrightarrow> q \<noteq> ptr"
  shows "secrets_inv lockable (owned(i \<mapsto> (ptr, bs))) (write_buffer ptr bs m)"
  using secrets_inv_take [OF assms(1), of i ptr False bs] assms(2-4) by (auto simp: take_unlocked)

text \<open>A buffer is zeroed, and unlocked if its owner may have locked it.\<close>

lemma secrets_inv_zeroed:
  assumes inv: "secrets_inv lockable owned m" and i: "owned i = Some (ptr, bs)"
    and m': "cells m' = AList.update ptr (replicate (length bs) 0) (cells m)" "locked m' \<subseteq> locked m"
      "lockable i \<Longrightarrow> locked m' \<inter> pages ptr (length bs) = {}"
  shows "secrets_inv lockable (owned(i := None)) m'"
  unfolding secrets_inv_def
proof (intro conjI allI impI ballI)
  have other: "j \<noteq> i \<and> owned j = Some (p, cs) \<and> p \<noteq> ptr" if "(owned(i := None)) j = Some (p, cs)" for j p cs
    using that secrets_invD(2) [OF inv i, of j cs] by (auto split: if_splits)
  show "map_of (cells m') p = Some cs" if "(owned(i := None)) j = Some (p, cs)" for j p cs
    using other [OF that] secrets_invD(1) [OF inv, of j] by (auto simp: m'(1) map_of_update)
  show "j = k" if "(owned(i := None)) j = Some (p, cs)" "(owned(i := None)) k = Some (p, ds)" for j k p cs ds
    using other [OF that(1)] other [OF that(2)] secrets_invD(2) [OF inv] by blast
  show "\<exists>j ds. (owned(i := None)) j = Some (p, ds)"
    if cell: "map_of (cells m') p = Some cs" "\<not> set cs \<subseteq> {0}" for p cs
  proof -
    have "p \<noteq> ptr" "map_of (cells m) p = Some cs"
      using cell by (auto simp: m'(1) map_of_update split: if_splits)
    then obtain j ds where "owned j = Some (p, ds)" "j \<noteq> i"
      using secrets_invD(3) [OF inv _ cell(2), of p] i by fastforce
    then show ?thesis by (intro exI [of _ j] exI [of _ ds]) simp
  qed
  show "\<exists>j p cs. lockable j \<and> (owned(i := None)) j = Some (p, cs) \<and> pg \<in> pages p (length cs)"
    if pg: "pg \<in> locked m'" for pg
  proof -
    obtain j p cs where j: "lockable j" "owned j = Some (p, cs)" "pg \<in> pages p (length cs)"
      using secrets_invD(4) [OF inv, of pg] m'(2) pg by blast
    then have "j \<noteq> i"
      using m'(3) pg i by auto
    with j show ?thesis by (intro exI [of _ j] exI [of _ p] exI [of _ cs]) simp
  qed
qed

lemma secrets_inv_give_back:
  "secrets_inv lockable owned m \<Longrightarrow> owned i = Some (ptr, bs) \<Longrightarrow>
    secrets_inv lockable (owned(i := None)) (give_back ptr bs m)"
  by (rule secrets_inv_zeroed) auto

lemma secrets_inv_zero:
  "secrets_inv lockable owned m \<Longrightarrow> owned i = Some (ptr, bs) \<Longrightarrow> \<not> lockable i \<Longrightarrow>
    secrets_inv lockable (owned(i := None)) (zero_buffer ptr bs m)"
  by (rule secrets_inv_zeroed) auto

text \<open>
  Whoever shares no page with the buffers given back stays locked; a buffer in the same page
  as one of them does not.
\<close>

lemma give_back_unlocks:
  "pages q n \<inter> pages ptr (length bs) = {} \<Longrightarrow> pages q n \<subseteq> locked m \<Longrightarrow> pages q n \<subseteq> locked (give_back ptr bs m)"
  "pages q n \<inter> pages ptr (length bs) \<noteq> {} \<Longrightarrow> \<not> pages q n \<subseteq> locked (give_back ptr bs m)"
  by auto

section \<open>Owners of secrets\<close>

text \<open>
  What a component that keeps secrets in such buffers can rely on in its valid states: a secret
  is nowhere but with its owner, and nothing is locked but the buffers of lockable owners.
\<close>

locale secret_owner =
  fixes lockable :: "'i \<Rightarrow> bool"
    and owned :: "'s \<Rightarrow> 'i \<rightharpoonup> nat \<times> bytes"
    and memory :: "'s \<Rightarrow> process_memory"
    and valid :: "'s \<Rightarrow> bool"
  assumes valid_owned: "valid s \<Longrightarrow> secrets_inv lockable (owned s) (memory s)"
begin

lemma owned_is_there: "valid s \<Longrightarrow> owned s i = Some (p, bs) \<Longrightarrow> map_of (cells (memory s)) p = Some bs"
  by (rule secrets_invD(1) [OF valid_owned])

lemma one_owner: "valid s \<Longrightarrow> owned s i = Some (p, bs) \<Longrightarrow> owned s j = Some (p, cs) \<Longrightarrow> i = j"
  by (rule secrets_invD(2) [OF valid_owned])

lemma secret_has_owner:
  assumes "valid s" "map_of (cells (memory s)) p = Some bs" "\<not> set bs \<subseteq> {0}"
  obtains i where "owned s i = Some (p, bs)"
proof -
  obtain i cs where i: "owned s i = Some (p, cs)"
    using secrets_invD(3) [OF valid_owned] assms by blast
  then have "cs = bs"
    using owned_is_there [OF assms(1) i] assms(2) by simp
  with i that show thesis by blast
qed

lemma lock_has_owner:
  assumes "valid s" "page \<in> locked (memory s)"
  obtains i p bs where "lockable i" "owned s i = Some (p, bs)" "page \<in> pages p (length bs)"
  using secrets_invD(4) [OF valid_owned] assms by blast

end

end
