(* ===== verification/Plaintext.thy ===== *)
theory Plaintext
  imports Secure_Memory
begin

text \<open>
  The native plaintext buffers handed to the mobile apps: the handle and its C interface
  (\<open>protocol/src/plaintext_ffi.rs\<close>) and the registry of handles the JVM calls go through
  (\<open>mobile-bridge/src/plaintext_exports.rs\<close>), over the locked buffers of \<open>Secure_Memory\<close>; where
  an allocation lands and whether the system call succeeds are arguments.
\<close>

section \<open>Handles\<close>

record plaintext_handle =
  ph_ptr :: nat
  ph_bytes :: "bytes option"

definition new_handle :: "bool \<Rightarrow> nat \<Rightarrow> bytes \<Rightarrow> process_memory \<Rightarrow> plaintext_handle \<times> process_memory" where
  "new_handle mlock_ok ptr bs m =
    (\<lparr>ph_ptr = ptr, ph_bytes = Some bs\<rparr>,
     take_buffer mlock_ok ptr bs m)"

definition handle_len :: "plaintext_handle \<Rightarrow> nat" where
  "handle_len h = (case ph_bytes h of Some bs \<Rightarrow> length bs | None \<Rightarrow> 0)"

definition handle_is_empty :: "plaintext_handle \<Rightarrow> bool" where
  "handle_is_empty h \<longleftrightarrow> handle_len h = 0"

definition copy_into :: "plaintext_handle \<Rightarrow> bytes \<Rightarrow> bool \<times> bytes" where
  "copy_into h out =
    (case ph_bytes h of
       Some bs \<Rightarrow> if length bs \<le> length out then (True, bs @ drop (length bs) out) else (False, out)
     | None \<Rightarrow> (False, out))"

definition release :: "plaintext_handle \<Rightarrow> process_memory \<Rightarrow> plaintext_handle \<times> process_memory" where
  "release h m =
    (h\<lparr>ph_bytes := None\<rparr>,
     case ph_bytes h of
       Some bs \<Rightarrow> give_back (ph_ptr h) bs m
     | None \<Rightarrow> m)"

text \<open>Dropping a handle releases it.\<close>

definition drop_handle :: "plaintext_handle \<Rightarrow> process_memory \<Rightarrow> process_memory" where
  "drop_handle h m = snd (release h m)"

section \<open>The C interface\<close>

text \<open>
  The heap of boxed handles by address; 0 is the null pointer, and using an address that holds
  no handle is undefined behaviour, the value \<open>None\<close>.
\<close>

record c_heap =
  boxes :: "(nat \<times> plaintext_handle) list"
  c_memory :: process_memory

definition parda_plaintext_new :: "bool \<Rightarrow> nat \<Rightarrow> nat \<Rightarrow> bytes \<Rightarrow> c_heap \<Rightarrow> nat \<times> c_heap" where
  "parda_plaintext_new mlock_ok box ptr bs c =
    (let (h, m) = new_handle mlock_ok ptr bs (c_memory c)
     in (box, \<lparr>boxes = AList.update box h (boxes c), c_memory = m\<rparr>))"

definition parda_plaintext_len :: "nat \<Rightarrow> c_heap \<Rightarrow> nat option" where
  "parda_plaintext_len box c = (if box = 0 then Some 0 else map_option handle_len (map_of (boxes c) box))"

definition parda_plaintext_copy_into :: "nat \<Rightarrow> bytes \<Rightarrow> c_heap \<Rightarrow> (bool \<times> bytes) option" where
  "parda_plaintext_copy_into box out c =
    (if box = 0 then Some (False, out) else map_option (\<lambda>h. copy_into h out) (map_of (boxes c) box))"

definition parda_plaintext_release :: "nat \<Rightarrow> c_heap \<Rightarrow> c_heap option" where
  "parda_plaintext_release box c =
    (if box = 0 then Some c
     else map_option (\<lambda>h. let (h', m) = release h (c_memory c)
            in \<lparr>boxes = AList.delete box (boxes c), c_memory = drop_handle h' m\<rparr>)
       (map_of (boxes c) box))"

section \<open>The registry of the JVM interface\<close>

text \<open>
  Handles by identifier; identifiers come from a counter shared with all other requests.  A
  \<open>jlong\<close> is a 64-bit word.  Creating an array in the JVM may fail.  A copy takes the lock of the
  registry twice, and calls into the JVM without it, so it has three steps between which others
  may run; a call in progress holds a buffer of its own, which is never locked.
\<close>

record copy_call =
  cc_handle :: u64
  cc_ptr :: nat
  cc_buf :: bytes

datatype copy_phase = Allocated (call: copy_call) | Filled (call: copy_call)

record plain_registry =
  pr_next :: u64
  pr_handles :: "(u64 \<times> plaintext_handle) list"
  pr_copies :: "nat \<rightharpoonup> copy_phase"
  pr_memory :: process_memory

definition initial_registry :: plain_registry where
  "initial_registry = \<lparr>pr_next = 1, pr_handles = [], pr_copies = (\<lambda>_. None), pr_memory = fresh_memory\<rparr>"

definition registry_next_id :: "plain_registry \<Rightarrow> u64 \<times> plain_registry" where
  "registry_next_id r = (pr_next r, r\<lparr>pr_next := pr_next r + 1\<rparr>)"

definition native_new :: "bool \<Rightarrow> nat \<Rightarrow> bytes option \<Rightarrow> plain_registry \<Rightarrow> u64 \<times> plain_registry" where
  "native_new mlock_ok ptr array r =
    (case array of
       None \<Rightarrow> (0, r)
     | Some bs \<Rightarrow>
         let (i, r) = registry_next_id r;
             (h, m) = new_handle mlock_ok ptr bs (pr_memory r)
         in (i, r\<lparr>pr_handles := AList.update i h (pr_handles r), pr_memory := m\<rparr>))"

definition native_len :: "u64 \<Rightarrow> plain_registry \<Rightarrow> u64" where
  "native_len i r = (case map_of (pr_handles r) i of Some h \<Rightarrow> of_nat (handle_len h) | None \<Rightarrow> 0)"

text \<open>
  The first lookup gives the length of the buffer, the second fills it; a handle that went in
  between, or a buffer too short, ends the call, and its buffer is dropped as it is.  Handing
  the buffer to the JVM, whether or not that succeeds, is followed by zeroing it.
\<close>

definition native_copy_begin :: "u64 \<Rightarrow> nat \<Rightarrow> plain_registry \<Rightarrow> copy_call option \<times> plain_registry" where
  "native_copy_begin i ptr r =
    (case map_of (pr_handles r) i of
       None \<Rightarrow> (None, r)
     | Some h \<Rightarrow>
         let buf = replicate (handle_len h) 0
         in (Some \<lparr>cc_handle = i, cc_ptr = ptr, cc_buf = buf\<rparr>, r\<lparr>pr_memory := write_buffer ptr buf (pr_memory r)\<rparr>))"

definition native_copy_fill :: "copy_call \<Rightarrow> plain_registry \<Rightarrow> copy_call option \<times> plain_registry" where
  "native_copy_fill cc r =
    (case map_of (pr_handles r) (cc_handle cc) of
       None \<Rightarrow> (None, r)
     | Some h \<Rightarrow>
         let (copied, buf) = copy_into h (cc_buf cc);
             r = r\<lparr>pr_memory := write_buffer (cc_ptr cc) buf (pr_memory r)\<rparr>
         in (if copied then Some (cc\<lparr>cc_buf := buf\<rparr>) else None, r))"

definition native_copy_end :: "(bytes \<Rightarrow> bytes option) \<Rightarrow> copy_call \<Rightarrow> plain_registry \<Rightarrow> bytes option \<times> plain_registry" where
  "native_copy_end new_array cc r =
    (new_array (cc_buf cc), r\<lparr>pr_memory := zero_buffer (cc_ptr cc) (cc_buf cc) (pr_memory r)\<rparr>)"

definition native_release :: "u64 \<Rightarrow> plain_registry \<Rightarrow> plain_registry" where
  "native_release i r =
    (case map_of (pr_handles r) i of
       None \<Rightarrow> r
     | Some h \<Rightarrow>
         let (h', m) = release h (pr_memory r)
         in r\<lparr>pr_handles := AList.delete i (pr_handles r), pr_memory := drop_handle h' m\<rparr>)"

section \<open>Lemmas\<close>

lemma copy_into_all_or_nothing:
  "copy_into h out = (True, out') \<Longrightarrow> \<exists>bs. ph_bytes h = Some bs \<and> take (length bs) out' = bs \<and> length out' = length out"
  "copy_into h out = (False, out') \<Longrightarrow> out' = out"
  by (auto simp: copy_into_def split: option.splits if_splits)

lemma release_idempotent: "release (fst (release h m)) (snd (release h m)) = release h m"
  by (simp add: release_def split: option.split)

lemma released_is_empty [simp]:
  "handle_len (fst (release h m)) = 0" "copy_into (fst (release h m)) out = (False, out)"
  by (simp_all add: release_def handle_len_def copy_into_def)

text \<open>The buffers in use: those of the handles in the registry, and those of the copies in progress.\<close>

definition owned_buffers :: "plain_registry \<Rightarrow> u64 + nat \<rightharpoonup> nat \<times> bytes" where
  "owned_buffers r = case_sum
    (\<lambda>i. Option.bind (map_of (pr_handles r) i) (\<lambda>h. map_option (Pair (ph_ptr h)) (ph_bytes h)))
    (\<lambda>t. map_option (\<lambda>c. (cc_ptr (call c), cc_buf (call c))) (pr_copies r t))"

definition unowned :: "nat \<Rightarrow> plain_registry \<Rightarrow> bool" where
  "unowned ptr r \<longleftrightarrow> (\<forall>j q bs. owned_buffers r j = Some (q, bs) \<longrightarrow> q \<noteq> ptr)"

text \<open>
  A process: the allocator never places a buffer where an owned one is, identifiers are drawn
  for other requests too, and there are fewer than \<open>2 ^ 63\<close> of them, so that none is negative
  or drawn twice.  Any number of copies is in progress.
\<close>

inductive registry_step :: "plain_registry \<Rightarrow> plain_registry \<Rightarrow> bool" where
  step_new: "unowned ptr r \<Longrightarrow> pr_next r < 2 ^ 63 - 1 \<Longrightarrow>
    registry_step r (snd (native_new mlock_ok ptr array r))"
| step_other_request: "pr_next r < 2 ^ 63 - 1 \<Longrightarrow> registry_step r (snd (registry_next_id r))"
| step_release: "registry_step r (native_release i r)"
| step_copy_begin: "pr_copies r t = None \<Longrightarrow> unowned ptr r \<Longrightarrow> native_copy_begin i ptr r = (Some cc, r') \<Longrightarrow>
    registry_step r (r'\<lparr>pr_copies := (pr_copies r')(t \<mapsto> Allocated cc)\<rparr>)"
| step_copy_fill: "pr_copies r t = Some (Allocated cc) \<Longrightarrow> native_copy_fill cc r = (x, r') \<Longrightarrow>
    registry_step r (r'\<lparr>pr_copies := (pr_copies r')(t := map_option Filled x)\<rparr>)"
| step_copy_end: "pr_copies r t = Some (Filled cc) \<Longrightarrow> native_copy_end new_array cc r = (array, r') \<Longrightarrow>
    registry_step r (r'\<lparr>pr_copies := (pr_copies r')(t := None)\<rparr>)"

inductive registry_steps :: "plain_registry \<Rightarrow> plain_registry \<Rightarrow> bool" where
  steps_refl: "registry_steps r r"
| steps_step: "registry_steps r r' \<Longrightarrow> registry_step r' r'' \<Longrightarrow> registry_steps r r''"

text \<open>
  Identifiers are below the counter, so one that is gone never names another handle, and a
  buffer not yet filled is as long as its handle, if that is still there.
\<close>

definition registry_inv :: "plain_registry \<Rightarrow> bool" where
  "registry_inv r \<longleftrightarrow> 1 \<le> pr_next r
    \<and> (\<forall>i h. map_of (pr_handles r) i = Some h \<longrightarrow> 1 \<le> i \<and> i < pr_next r \<and> ph_bytes h \<noteq> None)
    \<and> (\<forall>t cc. pr_copies r t = Some (Allocated cc) \<longrightarrow> cc_handle cc < pr_next r \<and> set (cc_buf cc) \<subseteq> {0}
        \<and> (\<forall>h. map_of (pr_handles r) (cc_handle cc) = Some h \<longrightarrow> length (cc_buf cc) = handle_len h))
    \<and> secrets_inv isl (owned_buffers r) (pr_memory r)"

lemma registry_invD:
  assumes "registry_inv r"
  shows "1 \<le> pr_next r" "secrets_inv isl (owned_buffers r) (pr_memory r)"
    and "map_of (pr_handles r) i = Some h \<Longrightarrow> 1 \<le> i \<and> i < pr_next r"
    and "map_of (pr_handles r) i = Some h \<Longrightarrow> \<exists>bs. ph_bytes h = Some bs \<and> owned_buffers r (Inl i) = Some (ph_ptr h, bs)"
    and "pr_copies r t = Some (Allocated cc) \<Longrightarrow> cc_handle cc < pr_next r \<and> set (cc_buf cc) \<subseteq> {0}"
    and "pr_copies r t = Some (Allocated cc) \<Longrightarrow> map_of (pr_handles r) (cc_handle cc) = Some h \<Longrightarrow>
      length (cc_buf cc) = handle_len h"
  using assms unfolding registry_inv_def owned_buffers_def by fastforce+

lemma owned_buffers_iff:
  "owned_buffers r (Inl i) = Some (p, bs) \<longleftrightarrow>
    (\<exists>h. map_of (pr_handles r) i = Some h \<and> ph_ptr h = p \<and> ph_bytes h = Some bs)"
  "owned_buffers r (Inr t) = Some (p, bs) \<longleftrightarrow>
    (\<exists>c. pr_copies r t = Some c \<and> cc_ptr (call c) = p \<and> cc_buf (call c) = bs)"
  by (auto simp: owned_buffers_def bind_eq_Some_conv)

lemma registry_inv_initial: "registry_inv initial_registry"
proof -
  have "owned_buffers initial_registry = (\<lambda>_. None)"
    by (rule ext) (simp add: owned_buffers_def initial_registry_def split: sum.split)
  then show ?thesis
    using secrets_inv_fresh by (simp add: registry_inv_def initial_registry_def)
qed

lemma id_room: "n < 2 ^ 63 - 1 \<Longrightarrow> n < n + 1" for n :: u64
  by (simp add: word_less_nat_alt unat_word_ariths)

lemma drop_after_release [simp]: "drop_handle (fst (release h m)) m' = m'"
  by (simp add: drop_handle_def release_def)

lemma native_release_eq:
  "native_release i r = (case map_of (pr_handles r) i of
      None \<Rightarrow> r
    | Some h \<Rightarrow> r\<lparr>pr_handles := AList.delete i (pr_handles r), pr_memory := snd (release h (pr_memory r))\<rparr>)"
  by (simp add: native_release_def case_prod_unfold split: option.split)

lemma native_new_eq:
  "snd (native_new ok ptr (Some bs) r) = r\<lparr>pr_next := pr_next r + 1,
     pr_handles := AList.update (pr_next r) \<lparr>ph_ptr = ptr, ph_bytes = Some bs\<rparr> (pr_handles r),
     pr_memory := take_buffer ok ptr bs (pr_memory r)\<rparr>"
  by (simp add: native_new_def registry_next_id_def new_handle_def)

lemma native_copy_begin_Some:
  assumes "native_copy_begin i ptr r = (Some cc, r')"
  obtains h where "map_of (pr_handles r) i = Some h" "cc = \<lparr>cc_handle = i, cc_ptr = ptr, cc_buf = replicate (handle_len h) 0\<rparr>"
    "r' = r\<lparr>pr_memory := write_buffer ptr (cc_buf cc) (pr_memory r)\<rparr>"
  using assms by (auto simp: native_copy_begin_def Let_def split: option.splits)

text \<open>A copy that began while its handle was there, as it still is, gets all of it.\<close>

lemma native_copy_fill_owned:
  assumes "map_of (pr_handles r) (cc_handle cc) = Some h" "ph_bytes h = Some bs" "length (cc_buf cc) = handle_len h"
  shows "native_copy_fill cc r
    = (Some (cc\<lparr>cc_buf := bs\<rparr>), r\<lparr>pr_memory := write_buffer (cc_ptr cc) bs (pr_memory r)\<rparr>)"
  using assms by (simp add: native_copy_fill_def copy_into_def handle_len_def)

lemma native_copy_fill_gone:
  "map_of (pr_handles r) (cc_handle cc) = None \<Longrightarrow> native_copy_fill cc r = (None, r)"
  by (simp add: native_copy_fill_def)

lemma owned_buffers_upd:
  "owned_buffers (snd (native_new ok ptr (Some bs) r)) = (owned_buffers r)(Inl (pr_next r) \<mapsto> (ptr, bs))"
  "owned_buffers (native_release i r) = (owned_buffers r)(Inl i := None)"
  "owned_buffers (r\<lparr>pr_memory := m, pr_copies := (pr_copies r)(t := c)\<rparr>)
    = (owned_buffers r)(Inr t := map_option (\<lambda>c. (cc_ptr (call c), cc_buf (call c))) c)"
  "owned_buffers (r\<lparr>pr_copies := (pr_copies r)(t := c)\<rparr>)
    = (owned_buffers r)(Inr t := map_option (\<lambda>c. (cc_ptr (call c), cc_buf (call c))) c)"
  by (auto simp: fun_eq_iff owned_buffers_def native_new_eq native_release_eq map_of_update delete_conv'
      split: sum.split option.split)

text \<open>Filling a buffer that is not yet filled, ending a copy and dropping an empty buffer keep every secret with its owner.\<close>

lemma unowned_other:
  assumes "secrets_inv isl (owned_buffers r) m" "owned_buffers r j = Some (q, bs)" "owned_buffers r k = Some (p, cs)" "j \<noteq> k"
  shows "q \<noteq> p"
  using secrets_invD(2) [OF assms(1), of j q bs k cs] assms by auto

lemma copy_inv_fill:
  assumes inv: "secrets_inv isl (owned_buffers r) (pr_memory r)" and t: "pr_copies r t = Some c"
  shows "secrets_inv isl ((owned_buffers r)(Inr t \<mapsto> (cc_ptr (call c), bs))) (write_buffer (cc_ptr (call c)) bs (pr_memory r))"
  by (rule secrets_inv_write [OF inv]) (use t unowned_other [OF inv, of _ _ _ "Inr t"] in \<open>auto simp: owned_buffers_iff\<close>)

lemma copy_inv_end:
  assumes inv: "secrets_inv isl (owned_buffers r) (pr_memory r)" and t: "pr_copies r t = Some c"
  shows "secrets_inv isl ((owned_buffers r)(Inr t := None)) (zero_buffer (cc_ptr (call c)) (cc_buf (call c)) (pr_memory r))"
  by (rule secrets_inv_zero [OF inv]) (use t in \<open>simp_all add: owned_buffers_iff\<close>)

lemma zero_zeros:
  assumes "map_of (cells m) p = Some bs" "set bs \<subseteq> {0}"
  shows "zero_buffer p bs m = m"
proof -
  have "replicate (length bs) 0 = bs"
    using assms(2) by (induction bs) auto
  then show ?thesis
    using assms(1) by (simp add: zero_buffer_def write_buffer_def update_triv)
qed

lemma copy_inv_drop:
  assumes inv: "secrets_inv isl (owned_buffers r) (pr_memory r)" and t: "pr_copies r t = Some c" "set (cc_buf (call c)) \<subseteq> {0}"
  shows "secrets_inv isl ((owned_buffers r)(Inr t := None)) (pr_memory r)"
  using copy_inv_end [OF inv t(1)] zero_zeros [OF secrets_invD(1) [OF inv] t(2), of "Inr t" "cc_ptr (call c)"] t(1)
  by (simp add: owned_buffers_iff)

lemma registry_inv_step: "registry_step r r' \<Longrightarrow> registry_inv r \<Longrightarrow> registry_inv r'"
proof (induction rule: registry_step.induct)
  case (step_new ptr r ok array)
  note inv = registry_invD [OF step_new.prems]
  show ?case
  proof (cases array)
    case (Some bs)
    have fresh: "map_of (pr_handles r) (pr_next r) = None"
      using inv(3) [of "pr_next r"] by (cases "map_of (pr_handles r) (pr_next r)") auto
    have "secrets_inv isl ((owned_buffers r)(Inl (pr_next r) \<mapsto> (ptr, bs))) (take_buffer ok ptr bs (pr_memory r))"
      using step_new.hyps(1) fresh by (intro secrets_inv_take [OF inv(2)]) (auto simp: unowned_def owned_buffers_def)
    moreover have "1 \<le> pr_next r + 1" "pr_next r < pr_next r + 1"
      using inv(1) id_room [OF step_new.hyps(2)] by auto
    moreover have "i < pr_next r + 1" if "map_of (pr_handles r) i = Some h" for i h
      using inv(3) [OF that] id_room [OF step_new.hyps(2)] by (auto dest: order.strict_trans)
    moreover have "cc_handle cc \<noteq> pr_next r \<and> cc_handle cc < pr_next r + 1" if "pr_copies r t = Some (Allocated cc)" for t cc
      using inv(5) [OF that] id_room [OF step_new.hyps(2)] by (auto dest: order.strict_trans)
    ultimately show ?thesis
      using step_new.prems
      unfolding Some registry_inv_def owned_buffers_upd
      by (auto simp: native_new_eq map_of_update split: if_splits dest: order.strict_trans)
  qed (use step_new in \<open>simp add: native_new_def\<close>)
next
  case (step_other_request r)
  note inv = registry_invD [OF step_other_request.prems]
  have "owned_buffers (snd (registry_next_id r)) = owned_buffers r"
    by (simp add: owned_buffers_def registry_next_id_def)
  moreover have "1 \<le> pr_next r + 1" "pr_next r < pr_next r + 1"
    using inv(1) id_room [OF step_other_request.hyps] by auto
  moreover have "i < pr_next r + 1" if "map_of (pr_handles r) i = Some h" for i h
    using inv(3) [OF that] id_room [OF step_other_request.hyps] by (auto dest: order.strict_trans)
  moreover have "cc_handle cc < pr_next r + 1" if "pr_copies r t = Some (Allocated cc)" for t cc
    using inv(5) [OF that] id_room [OF step_other_request.hyps] by (auto dest: order.strict_trans)
  ultimately show ?case
    using step_other_request.prems unfolding registry_inv_def
    by (auto simp: registry_next_id_def dest: order.strict_trans)
next
  case (step_release r i)
  note inv = registry_invD [OF step_release]
  show ?case
  proof (cases "map_of (pr_handles r) i")
    case None
    then show ?thesis using step_release by (simp add: native_release_eq)
  next
    case (Some h)
    obtain bs where bs: "ph_bytes h = Some bs" "owned_buffers r (Inl i) = Some (ph_ptr h, bs)"
      using inv(4) [OF Some] by blast
    have "secrets_inv isl ((owned_buffers r)(Inl i := None)) (give_back (ph_ptr h) bs (pr_memory r))"
      by (rule secrets_inv_give_back [OF inv(2) bs(2)])
    then show ?thesis
      using step_release unfolding registry_inv_def owned_buffers_upd
      by (auto simp: native_release_eq Some release_def bs(1) delete_conv' split: if_splits)
  qed
next
  case (step_copy_begin r t ptr i cc r')
  note inv = registry_invD [OF step_copy_begin.prems]
  obtain h where h: "map_of (pr_handles r) i = Some h" "cc = \<lparr>cc_handle = i, cc_ptr = ptr, cc_buf = replicate (handle_len h) 0\<rparr>"
    "r' = r\<lparr>pr_memory := write_buffer ptr (cc_buf cc) (pr_memory r)\<rparr>"
    using native_copy_begin_Some [OF step_copy_begin.hyps(3)] .
  have "secrets_inv isl ((owned_buffers r)(Inr t \<mapsto> (ptr, cc_buf cc))) (write_buffer ptr (cc_buf cc) (pr_memory r))"
    using step_copy_begin.hyps(1,2) by (intro secrets_inv_write [OF inv(2)]) (auto simp: unowned_def owned_buffers_def)
  then show ?case
    using step_copy_begin.prems h inv(3) [OF h(1)] unfolding registry_inv_def
    by (simp add: owned_buffers_upd set_replicate_conv_if)
next
  case (step_copy_fill r t cc x r')
  note inv = registry_invD [OF step_copy_fill.prems]
  show ?case
  proof (cases "map_of (pr_handles r) (cc_handle cc)")
    case None
    have "secrets_inv isl ((owned_buffers r)(Inr t := None)) (pr_memory r)"
      using inv(5) [OF step_copy_fill.hyps(1)] by (intro copy_inv_drop [OF inv(2) step_copy_fill.hyps(1)]) simp
    moreover have "x = None" "r' = r"
      using step_copy_fill.hyps(2) native_copy_fill_gone [OF None] by auto
    ultimately show ?thesis
      using step_copy_fill.prems unfolding registry_inv_def by (simp add: owned_buffers_upd)
  next
    case (Some h)
    obtain bs where "ph_bytes h = Some bs"
      using inv(4) [OF Some] by blast
    then have "x = Some (cc\<lparr>cc_buf := bs\<rparr>)" "r' = r\<lparr>pr_memory := write_buffer (cc_ptr cc) bs (pr_memory r)\<rparr>"
      using step_copy_fill.hyps(2) native_copy_fill_owned [OF Some _ inv(6) [OF step_copy_fill.hyps(1) Some]] by auto
    then show ?thesis
      using step_copy_fill.prems copy_inv_fill [OF inv(2) step_copy_fill.hyps(1), of bs] unfolding registry_inv_def
      by (simp add: owned_buffers_upd)
  qed
next
  case (step_copy_end r t cc new_array array r')
  note inv = registry_invD [OF step_copy_end.prems]
  have "r' = r\<lparr>pr_memory := zero_buffer (cc_ptr cc) (cc_buf cc) (pr_memory r)\<rparr>"
    using step_copy_end.hyps(2) by (auto simp: native_copy_end_def)
  then show ?case
    using step_copy_end.prems copy_inv_end [OF inv(2) step_copy_end.hyps(1)] unfolding registry_inv_def
    by (simp add: owned_buffers_upd)
qed

lemma registry_inv_steps: "registry_steps r r' \<Longrightarrow> registry_inv r \<Longrightarrow> registry_inv r'"
  by (induction rule: registry_steps.induct) (auto dest: registry_inv_step)

interpretation registry: secret_owner isl owned_buffers pr_memory registry_inv
  by unfold_locales (rule registry_invD(2))

text \<open>An identifier below the counter that is not in the registry never comes back.\<close>

lemma absent_step:
  "registry_step r r' \<Longrightarrow> map_of (pr_handles r) i = None \<Longrightarrow> i < pr_next r \<Longrightarrow>
    map_of (pr_handles r') i = None \<and> i < pr_next r'"
proof (induction rule: registry_step.induct)
  case (step_new ptr r ok array)
  then show ?case
    using id_room [of "pr_next r"]
    by (cases array) (auto simp: native_new_eq simp: native_new_def [of _ _ None] dest: order.strict_trans)
next
  case (step_other_request r)
  then show ?case
    using id_room [of "pr_next r"] by (auto simp: registry_next_id_def)
next
  case (step_release r j)
  then show ?case
    by (auto simp: native_release_eq split: option.split)
next
  case (step_copy_begin r t ptr j cc r')
  then show ?case
    by (auto elim: native_copy_begin_Some)
next
  case (step_copy_fill r t cc x r')
  then show ?case
    by (auto simp: native_copy_fill_def Let_def split: option.splits prod.splits)
next
  case (step_copy_end r t cc new_array array r')
  then show ?case
    by (auto simp: native_copy_end_def)
qed

lemma released_stays_absent:
  "registry_steps r r' \<Longrightarrow> map_of (pr_handles r) i = None \<Longrightarrow> i < pr_next r \<Longrightarrow>
    map_of (pr_handles r') i = None \<and> i < pr_next r'"
  by (induction rule: registry_steps.induct) (auto dest: absent_step)

section \<open>Properties\<close>

text \<open>
  C37: However creations, releases and the three steps of any number of copies are interleaved,
  the plaintext of a handle is in native memory only while the handle is owned or a copy that was
  filled has not ended: every other buffer that held a plaintext, those of finished and of failed
  copies included, is all zero, and no page is locked but those of owned handles.  An owned
  handle holds its whole plaintext, a copy that began before fills its buffer with exactly that,
  and the array a filled copy returns is of its buffer, which is zero from then on.
\<close>

theorem plaintext_only_in_owned_handles:
  assumes "registry_steps initial_registry r"
  shows "(map_of (cells (pr_memory r)) ptr = Some bs \<longrightarrow> set bs \<subseteq> {0}
        \<or> (\<exists>i h. map_of (pr_handles r) i = Some h \<and> ph_ptr h = ptr \<and> ph_bytes h = Some bs)
        \<or> (\<exists>t cc. pr_copies r t = Some (Filled cc) \<and> cc_ptr cc = ptr \<and> cc_buf cc = bs))
    \<and> (page \<in> locked (pr_memory r) \<longrightarrow>
        (\<exists>i h. map_of (pr_handles r) i = Some h \<and> page \<in> pages (ph_ptr h) (handle_len h)))
    \<and> (map_of (pr_handles r) i = Some h \<longrightarrow> (\<exists>bs. ph_bytes h = Some bs
        \<and> map_of (cells (pr_memory r)) (ph_ptr h) = Some bs
        \<and> (\<forall>t cc. pr_copies r t = Some (Allocated cc) \<and> cc_handle cc = i \<longrightarrow>
            (let (x, r') = native_copy_fill cc r
             in x = Some (cc\<lparr>cc_buf := bs\<rparr>) \<and> map_of (cells (pr_memory r')) (cc_ptr cc) = Some bs))))
    \<and> (pr_copies r t = Some (Filled cc) \<longrightarrow>
        (let (array, r') = native_copy_end new_array cc r
         in array = new_array (cc_buf cc) \<and> map_of (cells (pr_memory r)) (cc_ptr cc) = Some (cc_buf cc)
           \<and> map_of (cells (pr_memory r')) (cc_ptr cc) = Some (replicate (length (cc_buf cc)) 0)))"
proof (intro conjI impI)
  note inv = registry_inv_steps [OF assms registry_inv_initial]
  show "set bs \<subseteq> {0} \<or> (\<exists>i h. map_of (pr_handles r) i = Some h \<and> ph_ptr h = ptr \<and> ph_bytes h = Some bs)
      \<or> (\<exists>t cc. pr_copies r t = Some (Filled cc) \<and> cc_ptr cc = ptr \<and> cc_buf cc = bs)"
    if cell: "map_of (cells (pr_memory r)) ptr = Some bs"
  proof (cases "set bs \<subseteq> {0}")
    case False
    obtain j where j: "owned_buffers r j = Some (ptr, bs)"
      using registry.secret_has_owner [OF inv cell False] .
    show ?thesis
    proof (cases j)
      case (Inl i)
      then show ?thesis using j by (auto simp: owned_buffers_iff)
    next
      case (Inr t)
      then obtain c where c: "pr_copies r t = Some c" "cc_ptr (call c) = ptr" "cc_buf (call c) = bs"
        using j by (auto simp: owned_buffers_iff)
      then show ?thesis
        using registry_invD(5) [OF inv, of t] False by (cases c) auto
    qed
  qed simp
  show "\<exists>i h. map_of (pr_handles r) i = Some h \<and> page \<in> pages (ph_ptr h) (handle_len h)"
    if page: "page \<in> locked (pr_memory r)"
  proof -
    obtain j p bs where "isl j" "owned_buffers r j = Some (p, bs)" "page \<in> pages p (length bs)"
      using registry.lock_has_owner [OF inv page] .
    then obtain i h where "map_of (pr_handles r) i = Some h" "ph_ptr h = p" "ph_bytes h = Some bs" "page \<in> pages p (length bs)"
      by (cases j) (auto simp: owned_buffers_iff)
    then show ?thesis
      by (intro exI [of _ i] exI [of _ h]) (simp add: handle_len_def)
  qed
  show "\<exists>bs. ph_bytes h = Some bs \<and> map_of (cells (pr_memory r)) (ph_ptr h) = Some bs
      \<and> (\<forall>t cc. pr_copies r t = Some (Allocated cc) \<and> cc_handle cc = i \<longrightarrow>
          (let (x, r') = native_copy_fill cc r
           in x = Some (cc\<lparr>cc_buf := bs\<rparr>) \<and> map_of (cells (pr_memory r')) (cc_ptr cc) = Some bs))"
    if h: "map_of (pr_handles r) i = Some h"
  proof -
    obtain bs where bs: "ph_bytes h = Some bs" "owned_buffers r (Inl i) = Some (ph_ptr h, bs)"
      using registry_invD(4) [OF inv h] by blast
    have "native_copy_fill cc r
        = (Some (cc\<lparr>cc_buf := bs\<rparr>), r\<lparr>pr_memory := write_buffer (cc_ptr cc) bs (pr_memory r)\<rparr>)"
      if "pr_copies r t = Some (Allocated cc)" "cc_handle cc = i" for t cc
      using that h bs(1) registry_invD(6) [OF inv that(1)] by (intro native_copy_fill_owned) simp_all
    then show ?thesis
      using bs registry.owned_is_there [OF inv bs(2)] by (auto simp: map_of_update)
  qed
  show "let (array, r') = native_copy_end new_array cc r
      in array = new_array (cc_buf cc) \<and> map_of (cells (pr_memory r)) (cc_ptr cc) = Some (cc_buf cc)
        \<and> map_of (cells (pr_memory r')) (cc_ptr cc) = Some (replicate (length (cc_buf cc)) 0)"
    if "pr_copies r t = Some (Filled cc)"
    using registry.owned_is_there [OF inv, of "Inr t" "cc_ptr cc" "cc_buf cc"] that
    by (simp add: native_copy_end_def owned_buffers_iff map_of_update)
qed

text \<open>
  Release is final.  Once a handle was released its plaintext is zero and unlocked, and its
  identifier is dead for good: its length is 0, a copy returns nothing, even one that had begun
  before the release, and releasing it again changes nothing; the identifier is never drawn
  again, and never 0, the value that reports a failed creation.
\<close>

theorem released_handle_is_dead:
  assumes "registry_steps initial_registry r" "map_of (pr_handles r) i = Some h" "ph_bytes h = Some bs"
    and "registry_steps (native_release i r) r'"
  shows "map_of (cells (pr_memory (native_release i r))) (ph_ptr h) = Some (replicate (length bs) 0)
    \<and> pages (ph_ptr h) (length bs) \<inter> locked (pr_memory (native_release i r)) = {}
    \<and> native_len i r' = 0 \<and> native_copy_begin i p r' = (None, r')
    \<and> (cc_handle cc = i \<longrightarrow> native_copy_fill cc r' = (None, r'))
    \<and> native_release i r' = r' \<and> fst (registry_next_id r') \<noteq> i \<and> i \<noteq> 0"
proof -
  let ?r = "native_release i r"
  have inv: "registry_inv r" "registry_inv ?r"
    using registry_inv_steps [OF assms(1) registry_inv_initial] registry_inv_step [OF step_release] by blast+
  have i: "1 \<le> i" "i < pr_next r"
    using registry_invD(3) [OF inv(1) assms(2)] by blast+
  have r: "pr_handles ?r = AList.delete i (pr_handles r)" "pr_next ?r = pr_next r"
    "pr_memory ?r = give_back (ph_ptr h) bs (pr_memory r)"
    by (simp_all add: native_release_eq assms(2,3) release_def)
  have absent: "map_of (pr_handles r') i = None" "i < pr_next r'"
    using released_stays_absent [OF assms(4)] i by (simp_all add: r(1,2))
  moreover have "native_release i r' = r'"
    by (simp add: native_release_eq absent(1))
  ultimately show ?thesis
    using i(1) by (auto simp: r(3) native_len_def native_copy_begin_def native_copy_fill_gone registry_next_id_def map_of_update)
qed

text \<open>
  A lock is not kept for as long as the handle is: giving back another buffer in the same page
  unlocks the page under a plaintext that is still owned.
\<close>

lemma neighbour_is_unlocked:
  assumes "map_of (pr_handles r) i = Some h" "ph_bytes h = Some bs" "map_of (pr_handles r) j = Some k"
    and "pages (ph_ptr h) (length bs) \<inter> pages (ph_ptr k) (handle_len k) \<noteq> {}"
  shows "\<not> pages (ph_ptr k) (handle_len k) \<subseteq> locked (pr_memory (native_release i r))"
  using assms by (auto simp: native_release_eq release_def)

text \<open>One handle, and a copy of it that was filled.\<close>

definition toy_registry :: plain_registry where
  "toy_registry = snd (native_new True 64 (Some [104, 105]) initial_registry)"

definition toy_call :: "bytes \<Rightarrow> copy_call" where
  "toy_call buf = \<lparr>cc_handle = 1, cc_ptr = 9000, cc_buf = buf\<rparr>"

definition toy_copying :: plain_registry where
  "toy_copying = (let (_, r) = native_copy_begin 1 9000 toy_registry;
      r = r\<lparr>pr_copies := (pr_copies r)(0 \<mapsto> Allocated (toy_call [0, 0]))\<rparr>;
      (_, r) = native_copy_fill (toy_call [0, 0]) r
    in r\<lparr>pr_copies := (pr_copies r)(0 \<mapsto> Filled (toy_call [104, 105]))\<rparr>)"

lemma toy_registry_steps: "registry_steps initial_registry toy_registry"
  unfolding toy_registry_def
  by (rule steps_step [OF steps_refl step_new])
    (simp_all add: unowned_def owned_buffers_def initial_registry_def split: sum.split)

lemma toy_handle: "map_of (pr_handles toy_registry) 1 = Some \<lparr>ph_ptr = 64, ph_bytes = Some [104, 105]\<rparr>"
  by (simp add: toy_registry_def native_new_eq) (simp add: initial_registry_def)

lemma toy_copying_steps:
  "registry_steps initial_registry toy_copying \<and> pr_copies toy_copying 0 = Some (Filled (toy_call [104, 105]))"
proof -
  obtain r1 where r1: "native_copy_begin 1 9000 toy_registry = (Some (toy_call [0, 0]), r1)"
    using toy_handle by (simp add: native_copy_begin_def handle_len_def toy_call_def numeral_2_eq_2 Let_def)
  obtain r2 where r2: "r2 = r1\<lparr>pr_copies := (pr_copies r1)(0 \<mapsto> Allocated (toy_call [0, 0]))\<rparr>"
    by blast
  have "pr_handles r2 = pr_handles toy_registry" "pr_copies r2 0 = Some (Allocated (toy_call [0, 0]))"
    using r1 toy_handle by (auto simp: r2 native_copy_begin_def Let_def)
  moreover from this obtain r3 where r3: "native_copy_fill (toy_call [0, 0]) r2 = (Some (toy_call [104, 105]), r3)"
    using native_copy_fill_owned [of r2 "toy_call [0, 0]"] toy_handle by (simp add: toy_call_def handle_len_def)
  ultimately have steps: "registry_step toy_registry r2" "registry_step r2 (r3\<lparr>pr_copies := (pr_copies r3)(0 \<mapsto> Filled (toy_call [104, 105]))\<rparr>)"
    using step_copy_begin [OF _ _ r1, of 0] step_copy_fill [OF _ r3, of 0]
    by (simp_all add: r2 unowned_def owned_buffers_def toy_registry_def native_new_eq initial_registry_def
        map_of_update split: sum.split)
  then show ?thesis
    using steps_step [OF steps_step [OF toy_registry_steps steps(1)] steps(2)]
    by (simp add: toy_copying_def r1 r2 [symmetric] r3)
qed

theorem plaintext_only_in_owned_handles_witness:
  "(let (array, r') = native_copy_end Some (toy_call [104, 105]) toy_copying
    in array = Some [104, 105] \<and> map_of (cells (pr_memory r')) 9000 = Some [0, 0])"
proof -
  have "pr_copies toy_copying 0 = Some (Filled (toy_call [104, 105]))" "registry_steps initial_registry toy_copying"
    using toy_copying_steps by simp_all
  then show ?thesis
    using plaintext_only_in_owned_handles [of toy_copying 0 "[]" 0 1 undefined 0 "toy_call [104, 105]" Some]
    by (auto simp: toy_call_def numeral_2_eq_2 split: prod.split)
qed

theorem released_handle_is_dead_witness:
  "native_copy_fill (toy_call [0, 0]) (native_release 1 toy_registry) = (None, native_release 1 toy_registry)
    \<and> map_of (cells (pr_memory (native_release 1 toy_registry))) 64 = Some [0, 0]"
proof -
  from released_handle_is_dead [OF toy_registry_steps toy_handle _ steps_refl, of "[104, 105]" 0 "toy_call [0, 0]"]
  show ?thesis by (simp add: numeral_2_eq_2 toy_call_def)
qed

end
