(* ===== verification/Mobile_Radio.thy ===== *)
theory Mobile_Radio
  imports Radio
begin

text \<open>
  The Android radio of \<open>mobile-bridge/\<close>: the tables of pending requests and scan streams that
  turn callbacks into results (\<open>pending.rs\<close>), the entry points the JVM calls back
  (\<open>jni_exports.rs\<close>), the radio operations on top of them (\<open>radio.rs\<close>) and the start and stop of
  the mesh node (\<open>lifecycle.rs\<close>).  An operation is split where it awaits its callback.  What a
  call into the JVM returns is an argument; a \<open>jlong\<close> is a 64-bit word.
\<close>

section \<open>Pending requests\<close>

datatype oneshot_result =
    OsBytes bytes
  | OsEmpty
  | OsError string

record scan_result_bytes =
  sr_peer_handle :: bytes
  sr_token :: bytes

text \<open>
  \<open>awaiting\<close> is the table of senders of one-shot channels; \<open>answers\<close> what was sent into them.
  A stream carries what was pushed and not yet read, and whether its reader is still there.
\<close>

record pending_table =
  next_request :: u64
  awaiting :: "u64 set"
  answers :: "u64 \<Rightarrow> oneshot_result option"
  streams :: "u64 \<Rightarrow> (scan_result_bytes list \<times> bool) option"

definition initial_pending :: pending_table where
  "initial_pending = \<lparr>next_request = 1, awaiting = {}, answers = (\<lambda>_. None), streams = (\<lambda>_. None)\<rparr>"

definition next_id :: "pending_table \<Rightarrow> u64 \<times> pending_table" where
  "next_id p = (next_request p, p\<lparr>next_request := next_request p + 1\<rparr>)"

definition register_oneshot :: "u64 \<Rightarrow> pending_table \<Rightarrow> pending_table" where
  "register_oneshot i p = p\<lparr>awaiting := insert i (awaiting p)\<rparr>"

definition resolve_oneshot :: "u64 \<Rightarrow> oneshot_result \<Rightarrow> pending_table \<Rightarrow> pending_table" where
  "resolve_oneshot i r p =
    (if i \<in> awaiting p then p\<lparr>awaiting := awaiting p - {i}, answers := (answers p)(i \<mapsto> r)\<rparr> else p)"

definition STREAM_CAPACITY :: nat where
  "STREAM_CAPACITY = 64"

definition register_stream :: "u64 \<Rightarrow> pending_table \<Rightarrow> pending_table" where
  "register_stream i p = p\<lparr>streams := (streams p)(i \<mapsto> ([], True))\<rparr>"

definition push_stream :: "u64 \<Rightarrow> scan_result_bytes \<Rightarrow> pending_table \<Rightarrow> pending_table" where
  "push_stream i s p =
    (case streams p i of
       Some (queue, True) \<Rightarrow>
         if length queue < STREAM_CAPACITY then p\<lparr>streams := (streams p)(i \<mapsto> (queue @ [s], True))\<rparr> else p
     | _ \<Rightarrow> p)"

definition unregister_stream :: "u64 \<Rightarrow> pending_table \<Rightarrow> pending_table" where
  "unregister_stream i p = p\<lparr>streams := (streams p)(i := None)\<rparr>"

section \<open>Callbacks from the JVM\<close>

definition on_advertise_result :: "u64 \<Rightarrow> bool \<Rightarrow> string option \<Rightarrow> pending_table \<Rightarrow> pending_table" where
  "on_advertise_result i success err =
    resolve_oneshot i (if success then OsEmpty
      else OsError (case err of Some e \<Rightarrow> e | None \<Rightarrow> ''advertise failed (no message)''))"

definition on_scan_result :: "u64 \<Rightarrow> bytes option \<Rightarrow> bytes option \<Rightarrow> pending_table \<Rightarrow> pending_table" where
  "on_scan_result i peer token p =
    (case (peer, token) of
       (Some h, Some t) \<Rightarrow> push_stream i \<lparr>sr_peer_handle = h, sr_token = t\<rparr> p
     | _ \<Rightarrow> p)"

definition on_connect_result :: "u64 \<Rightarrow> u64 \<Rightarrow> string option \<Rightarrow> pending_table \<Rightarrow> pending_table" where
  "on_connect_result i link_handle err =
    resolve_oneshot i (case err of Some e \<Rightarrow> OsError e | None \<Rightarrow> OsBytes (be_bytes 8 link_handle))"

definition on_accept_result :: "u64 \<Rightarrow> u64 \<Rightarrow> string option \<Rightarrow> pending_table \<Rightarrow> pending_table" where
  "on_accept_result i link_handle err = on_connect_result i link_handle err"

definition on_send_result :: "u64 \<Rightarrow> string option \<Rightarrow> pending_table \<Rightarrow> pending_table" where
  "on_send_result i err = resolve_oneshot i (case err of Some e \<Rightarrow> OsError e | None \<Rightarrow> OsEmpty)"

definition on_recv_result :: "u64 \<Rightarrow> (bytes, string) result \<Rightarrow> string option \<Rightarrow> pending_table \<Rightarrow> pending_table" where
  "on_recv_result i bs err =
    resolve_oneshot i (case err of
        Some e \<Rightarrow> OsError e
      | None \<Rightarrow> (case bs of Ok data \<Rightarrow> OsBytes data | Err e \<Rightarrow> OsError (''failed to read recv bytes: '' @ e)))"

section \<open>Radio operations\<close>

fun oneshot_to_mesh_result :: "oneshot_result \<Rightarrow> bytes mesh" where
  "oneshot_to_mesh_result (OsBytes bs) = Ok bs"
| "oneshot_to_mesh_result OsEmpty = Ok []"
| "oneshot_to_mesh_result (OsError e) = Err (RadioUnavailable e)"

text \<open>The part every operation shares: a fresh request is registered, then the JVM is called.\<close>

definition begin_request :: "(string \<Rightarrow> mesh_error) \<Rightarrow> (unit, string) result \<Rightarrow> pending_table \<Rightarrow> u64 mesh \<times> pending_table" where
  "begin_request failure jvm p =
    (let (i, p) = next_id p; p = register_oneshot i p
     in (case jvm of Ok _ \<Rightarrow> Ok i | Err e \<Rightarrow> Err (failure e), p))"

text \<open>\<open>advertise\<close> also shows what is handed to the platform to put on the air.\<close>

definition android_advertise :: "(unit, string) result \<Rightarrow> advert_token \<Rightarrow> pending_table \<Rightarrow> bytes \<times> u64 mesh \<times> pending_table" where
  "android_advertise jvm token p =
    (to_wire token, begin_request (\<lambda>e. RadioUnavailable (''JNI startAdvertise failed: '' @ e)) jvm p)"

definition android_advertised :: "oneshot_result option \<Rightarrow> unit mesh" where
  "android_advertised answer =
    (case answer of
       None \<Rightarrow> Err (RadioUnavailable ''advertise callback channel closed'')
     | Some r \<Rightarrow> map_ok (\<lambda>_. ()) (oneshot_to_mesh_result r))"

definition android_scan :: "(unit, string) result \<Rightarrow> pending_table \<Rightarrow> u64 mesh \<times> pending_table" where
  "android_scan jvm p =
    (let (i, p) = next_id p; p = register_stream i p in
     case jvm of
       Ok _ \<Rightarrow> (Ok i, p)
     | Err e \<Rightarrow> (Err (RadioUnavailable (''JNI startScan failed: '' @ e)),
         p\<lparr>streams := (streams p)(i \<mapsto> ([], False))\<rparr>))"

text \<open>
  What the collecting task passes on of one raw sighting; it collects what arrives within four
  seconds, then unregisters the stream.
\<close>

definition collect_sighting :: "scan_result_bytes \<Rightarrow> peer_sighting option" where
  "collect_sighting s =
    (if length (sr_token s) \<noteq> ADVERT_TOKEN_LEN then None
     else Some \<lparr>sighted_handle = from_opaque_bytes (sr_peer_handle s), sighted_token = sr_token s\<rparr>)"

definition collect_scan :: "u64 \<Rightarrow> pending_table \<Rightarrow> peer_sighting list \<times> pending_table" where
  "collect_scan i p =
    (case streams p i of
       Some (queue, _) \<Rightarrow> List.map_filter collect_sighting queue
     | None \<Rightarrow> [],
     unregister_stream i p)"

definition android_connect :: "(unit, string) result \<Rightarrow> peer_handle \<Rightarrow> pending_table \<Rightarrow> u64 mesh \<times> pending_table" where
  "android_connect jvm peer p =
    (case opaque_bytes peer of
       None \<Rightarrow> (Err PeerUnreachable, p)
     | Some _ \<Rightarrow> begin_request (\<lambda>e. Link (''JNI connect failed: '' @ e)) jvm p)"

definition link_handle_of :: "mesh_error \<Rightarrow> mesh_error \<Rightarrow> oneshot_result option \<Rightarrow> u64 mesh" where
  "link_handle_of closed malformed answer =
    (case answer of
       None \<Rightarrow> Err closed
     | Some r \<Rightarrow> and_then (oneshot_to_mesh_result r) (\<lambda>bs.
         if length bs = 8 then Ok (of_be_bytes bs) else Err malformed))"

definition android_connected :: "oneshot_result option \<Rightarrow> u64 mesh" where
  "android_connected = link_handle_of (Link ''connect callback channel closed'')
    (Link ''malformed link handle from connect callback'')"

definition android_accept :: "(unit, string) result \<Rightarrow> pending_table \<Rightarrow> u64 mesh \<times> pending_table" where
  "android_accept = begin_request (\<lambda>e. RadioUnavailable (''JNI accept failed: '' @ e))"

definition android_accepted :: "oneshot_result option \<Rightarrow> u64 mesh" where
  "android_accepted = link_handle_of (RadioUnavailable ''accept callback channel closed'')
    (RadioUnavailable ''malformed link handle from accept callback'')"

definition android_send :: "(unit, string) result \<Rightarrow> pending_table \<Rightarrow> u64 mesh \<times> pending_table" where
  "android_send = begin_request (\<lambda>e. Link (''JNI send failed: '' @ e))"

definition android_sent :: "oneshot_result option \<Rightarrow> unit mesh" where
  "android_sent answer =
    (case answer of
       None \<Rightarrow> Err (Link ''send callback channel closed'')
     | Some r \<Rightarrow> map_ok (\<lambda>_. ()) (oneshot_to_mesh_result r))"

definition android_recv :: "(unit, string) result \<Rightarrow> pending_table \<Rightarrow> u64 mesh \<times> pending_table" where
  "android_recv = begin_request (\<lambda>e. Link (''JNI recv failed: '' @ e))"

definition android_received :: "oneshot_result option \<Rightarrow> bytes mesh" where
  "android_received answer =
    (case answer of
       None \<Rightarrow> Err (Link ''recv callback channel closed'')
     | Some r \<Rightarrow> oneshot_to_mesh_result r)"

section \<open>Lifecycle\<close>

definition SYNC_INTERVAL :: duration where
  "SYNC_INTERVAL = 30 * 10 ^ 9"

datatype mesh_task = SyncLoop duration | AcceptLoop | FirstAdvertisement advert_token | RotationLoop duration

text \<open>The running node, if any, and every task that runs, with the number of the start it belongs to.\<close>

record mesh_lifecycle =
  running :: "nat option"
  starts :: nat
  tasks :: "(nat \<times> mesh_task) list"

definition native_start_mesh :: "bool \<Rightarrow> advert_token \<Rightarrow> mesh_lifecycle \<Rightarrow> mesh_lifecycle" where
  "native_start_mesh runtime_ok token s =
    (if running s \<noteq> None then s
     else if \<not> runtime_ok then s
     else \<lparr>running = Some (starts s), starts = starts s + 1,
       tasks = tasks s @ map (Pair (starts s))
         [SyncLoop SYNC_INTERVAL, AcceptLoop, FirstAdvertisement token, RotationLoop DEFAULT_ROTATION_INTERVAL]\<rparr>)"

text \<open>Aborting the loops and dropping the runtime ends every task of that start.\<close>

definition native_stop_mesh :: "mesh_lifecycle \<Rightarrow> mesh_lifecycle" where
  "native_stop_mesh s =
    (case running s of
       None \<Rightarrow> s
     | Some k \<Rightarrow> s\<lparr>running := None, tasks := filter (\<lambda>(j, _). j \<noteq> k) (tasks s)\<rparr>)"

section \<open>Lemmas\<close>

text \<open>Every way the table changes; identifiers are drawn fewer than \<open>2 ^ 63\<close> times.\<close>

inductive pending_step :: "pending_table \<Rightarrow> pending_table \<Rightarrow> bool" where
  pend_request: "next_request p < 2 ^ 63 - 1 \<Longrightarrow> begin_request failure jvm p = (r, p') \<Longrightarrow> pending_step p p'"
| pend_scan: "next_request p < 2 ^ 63 - 1 \<Longrightarrow> android_scan jvm p = (r, p') \<Longrightarrow> pending_step p p'"
| pend_id: "next_request p < 2 ^ 63 - 1 \<Longrightarrow> pending_step p (snd (next_id p))"
| pend_resolve: "pending_step p (resolve_oneshot i r p)"
| pend_push: "pending_step p (push_stream i s p)"
| pend_collect: "pending_step p (snd (collect_scan i p))"

inductive pending_steps :: "pending_table \<Rightarrow> pending_table \<Rightarrow> bool" where
  pends_refl: "pending_steps p p"
| pends_step: "pending_steps p p' \<Longrightarrow> pending_step p' p'' \<Longrightarrow> pending_steps p p''"

definition pending_inv :: "pending_table \<Rightarrow> bool" where
  "pending_inv p \<longleftrightarrow> 1 \<le> next_request p \<and> (\<forall>i \<in> awaiting p. i < next_request p)
    \<and> (\<forall>i. answers p i \<noteq> None \<longrightarrow> i < next_request p \<and> i \<notin> awaiting p)"

lemma u64_succ: "n < 2 ^ 63 - 1 \<Longrightarrow> n < n + 1" for n :: u64
  by (simp add: word_less_nat_alt unat_word_ariths)

lemma push_stream_same [simp]: "awaiting (push_stream i s p) = awaiting p" "answers (push_stream i s p) = answers p"
  "next_request (push_stream i s p) = next_request p"
  by (auto simp: push_stream_def split: option.split bool.split)

lemma begin_request_eq: "begin_request failure jvm p = (r, p') \<longleftrightarrow>
    r = (case jvm of Ok _ \<Rightarrow> Ok (next_request p) | Err e \<Rightarrow> Err (failure e))
    \<and> p' = p\<lparr>next_request := next_request p + 1, awaiting := insert (next_request p) (awaiting p)\<rparr>"
  by (auto simp: begin_request_def next_id_def register_oneshot_def)

text \<open>A request whose call into the JVM fails keeps its entry, which no callback will ever take.\<close>

lemma failed_call_leaks_its_entry:
  "begin_request failure (Err e) p = (r, p') \<Longrightarrow> r = Err (failure e) \<and> next_request p \<in> awaiting p'"
  by (simp add: begin_request_eq)

lemma android_scan_same: "android_scan jvm p = (r, p') \<Longrightarrow>
    next_request p' = next_request p + 1 \<and> awaiting p' = awaiting p \<and> answers p' = answers p"
  by (auto simp: android_scan_def next_id_def register_stream_def Let_def split: result.splits)

lemma collect_scan_same [simp]: "awaiting (snd (collect_scan i p)) = awaiting p"
  "answers (snd (collect_scan i p)) = answers p" "next_request (snd (collect_scan i p)) = next_request p"
  by (simp_all add: collect_scan_def unregister_stream_def)

lemma pending_inv_initial: "pending_inv initial_pending"
  by (simp add: pending_inv_def initial_pending_def)

lemma pending_inv_grow:
  assumes "pending_inv p" "next_request p < 2 ^ 63 - 1" "next_request p' = next_request p + 1"
    and "awaiting p' \<subseteq> insert (next_request p) (awaiting p)" "answers p' = answers p"
  shows "pending_inv p'"
proof -
  have n: "i < next_request p + 1" if "i \<le> next_request p" for i
    using that u64_succ [OF assms(2)] by (rule order.strict_trans1)
  have "answers p (next_request p) = None"
    using assms(1) unfolding pending_inv_def by (metis less_irrefl)
  then have "i \<notin> awaiting p'" if "answers p i \<noteq> None" for i
    using that assms(1,4) unfolding pending_inv_def by auto
  moreover have "1 \<le> next_request p + 1" "\<forall>i \<in> awaiting p'. i < next_request p + 1"
    using assms(1,4) n u64_succ [OF assms(2)] unfolding pending_inv_def
    by (meson order.trans less_imp_le, metis insertE subsetD less_imp_le order_refl)
  moreover have "i < next_request p + 1" if "answers p i \<noteq> None" for i
    using that assms(1) n unfolding pending_inv_def by (meson less_imp_le)
  ultimately show ?thesis
    unfolding pending_inv_def assms(3,5) by blast
qed

lemma pending_inv_step: "pending_step p p' \<Longrightarrow> pending_inv p \<Longrightarrow> pending_inv p'"
proof (induction rule: pending_step.induct)
  case (pend_request p failure jvm r p')
  then show ?case
    by (intro pending_inv_grow [OF pend_request.prems pend_request(1)]) (simp_all add: begin_request_eq)
next
  case (pend_scan p jvm r p')
  then show ?case
    using android_scan_same [OF pend_scan(2)]
    by (intro pending_inv_grow [OF pend_scan.prems pend_scan(1)]) auto
next
  case (pend_id p)
  then show ?case
    by (intro pending_inv_grow [OF pend_id.prems pend_id(1)]) (auto simp: next_id_def)
qed (auto simp: pending_inv_def resolve_oneshot_def)

lemma pending_inv_steps: "pending_steps p p' \<Longrightarrow> pending_inv p \<Longrightarrow> pending_inv p'"
  by (induction rule: pending_steps.induct) (auto dest: pending_inv_step)

text \<open>A request is outstanding until its first answer, and keeps that answer.\<close>

definition outstanding :: "u64 \<Rightarrow> pending_table \<Rightarrow> bool" where
  "outstanding i p \<longleftrightarrow> i < next_request p \<and> (i \<in> awaiting p \<longleftrightarrow> answers p i = None)"

lemma outstanding_step:
  assumes "pending_step p p'" "outstanding i p"
  shows "outstanding i p' \<and> (answers p i \<noteq> None \<longrightarrow> answers p' i = answers p i)"
  using assms
proof (induction rule: pending_step.induct)
  case (pend_request p failure jvm r p')
  then show ?case
    using u64_succ [OF pend_request(1)] by (auto simp: outstanding_def begin_request_eq)
next
  case (pend_scan p jvm r p')
  have same: "next_request p' = next_request p + 1" "awaiting p' = awaiting p" "answers p' = answers p"
    using android_scan_same [OF pend_scan(2)] by simp_all
  show ?case
    using pend_scan.prems u64_succ [OF pend_scan(1)] unfolding outstanding_def same
    by (blast intro: order.strict_trans)
next
  case (pend_id p)
  then show ?case
    using u64_succ [OF pend_id(1)] by (auto simp: outstanding_def next_id_def)
qed (auto simp: outstanding_def resolve_oneshot_def)

lemma outstanding_steps:
  assumes "pending_steps p p'" "outstanding i p"
  shows "outstanding i p' \<and> (answers p i \<noteq> None \<longrightarrow> answers p' i = answers p i)"
  using assms by (induction rule: pending_steps.induct) (auto dest: outstanding_step)

text \<open>The node's tasks belong to the start that is running.\<close>

inductive lifecycle_reachable :: "mesh_lifecycle \<Rightarrow> bool" where
  life_init: "lifecycle_reachable \<lparr>running = None, starts = 0, tasks = []\<rparr>"
| life_start: "lifecycle_reachable s \<Longrightarrow> lifecycle_reachable (native_start_mesh ok token s)"
| life_stop: "lifecycle_reachable s \<Longrightarrow> lifecycle_reachable (native_stop_mesh s)"

lemma one_node_at_a_time:
  "lifecycle_reachable s \<Longrightarrow> (\<forall>(k, t) \<in> set (tasks s). running s = Some k)
    \<and> (running s \<noteq> None \<longrightarrow> length (tasks s) = 4)"
proof (induction rule: lifecycle_reachable.induct)
  case (life_start s ok token)
  moreover have "tasks s = []" if "running s = None"
    using that life_start.IH by (cases "tasks s") auto
  ultimately show ?case
    by (auto simp: native_start_mesh_def)
next
  case (life_stop s)
  then show ?case
    by (cases "running s") (auto simp: native_stop_mesh_def)
qed simp

section \<open>Properties\<close>

text \<open>
  C38: Every callback answers its own request: a request that has no answer yet gets the next one
  reported for it, whatever other requests, scans and callbacks ran in between; its first
  answer is final, since duplicate and late callbacks change nothing; and a callback for one
  request never answers another.
\<close>

theorem first_callback_answers_its_request:
  assumes "pending_steps initial_pending p" "next_request p < 2 ^ 63 - 1"
    and "begin_request failure jvm p = (Ok i, p1)" "pending_steps p1 p2" "pending_steps p2 p3"
  shows "(answers p2 i = None \<longrightarrow> answers (resolve_oneshot i r p2) i = Some r)
    \<and> (answers p2 i = Some r' \<longrightarrow> answers p3 i = Some r' \<and> resolve_oneshot i r p3 = p3)
    \<and> (j \<noteq> i \<longrightarrow> answers (resolve_oneshot j r p2) i = answers p2 i)"
proof -
  have inv: "pending_inv p"
    using pending_inv_steps [OF assms(1) pending_inv_initial] .
  have i: "i = next_request p"
    using assms(3) by (auto simp: begin_request_eq split: result.splits)
  have "answers p i = None"
    using inv unfolding pending_inv_def i by (metis less_irrefl)
  then have "outstanding i p1"
    using assms(3) u64_succ [OF assms(2)] by (simp add: outstanding_def begin_request_eq i)
  then have p2: "outstanding i p2"
    using outstanding_steps assms(4) by blast
  note p3 = outstanding_steps [OF assms(5) p2]
  show ?thesis
    using p2 p3 by (auto simp: outstanding_def resolve_oneshot_def)
qed

theorem first_callback_answers_its_request_witness:
  "answers (resolve_oneshot 1 OsEmpty (snd (begin_request Link (Ok ()) initial_pending))) 1 = Some OsEmpty"
proof -
  have b: "begin_request Link (Ok ()) initial_pending = (Ok 1, snd (begin_request Link (Ok ()) initial_pending))"
    by (simp add: begin_request_def next_id_def register_oneshot_def initial_pending_def)
  have "answers (snd (begin_request Link (Ok ()) initial_pending)) 1 = None"
    by (simp add: begin_request_def next_id_def register_oneshot_def initial_pending_def)
  then show ?thesis
    using first_callback_answers_its_request [OF pends_refl _ b pends_refl pends_refl]
    by (simp add: initial_pending_def)
qed

text \<open>A link handle survives its way through the table as bytes.\<close>

lemma link_handle_roundtrip:
  "i \<in> awaiting p \<Longrightarrow> android_connected (answers (on_connect_result i h None p) i) = Ok h"
  "i \<in> awaiting p \<Longrightarrow> android_accepted (answers (on_accept_result i h None p) i) = Ok h"
  using of_be_bytes_be_bytes [of 8 h]
  by (simp_all add: on_accept_result_def on_connect_result_def resolve_oneshot_def android_connected_def
      android_accepted_def link_handle_of_def)

text \<open>
  C39: Two Android nodes never sight each other: a node advertises the wire form of its token,
  two bytes longer than the token, and a scan discards every advertisement that is not exactly
  as long as a token.
\<close>

theorem android_nodes_never_sight_each_other:
  assumes "streams p i = Some (queue, open)"
    and "\<forall>s \<in> set queue. \<exists>token q. length token = ADVERT_TOKEN_LEN
      \<and> sr_token s = fst (android_advertise (Ok ()) token q)"
  shows "fst (collect_scan i p) = []"
proof -
  have "collect_sighting s = None" if "s \<in> set queue" for s
    using assms(2) that
    by (force simp: collect_sighting_def android_advertise_def to_wire_def PROTOCOL_TAG_def ADVERT_TOKEN_LEN_def)
  then have "List.map_filter collect_sighting queue = []"
    by (induction queue) (simp_all add: map_filter_simps)
  then show ?thesis
    using assms(1) by (simp add: collect_scan_def)
qed

theorem android_nodes_never_sight_each_other_witness:
  "fst (collect_scan 1 (on_scan_result 1 (Some [1]) (Some (fst (android_advertise (Ok ()) (replicate 16 5) initial_pending)))
      (snd (android_scan (Ok ()) initial_pending)))) = []"
proof -
  let ?token = "fst (android_advertise (Ok ()) (replicate 16 5) initial_pending)"
  let ?p = "on_scan_result 1 (Some [1]) (Some ?token) (snd (android_scan (Ok ()) initial_pending))"
  have "streams ?p 1 = Some ([\<lparr>sr_peer_handle = [1], sr_token = ?token\<rparr>], True)"
    by (simp add: on_scan_result_def push_stream_def android_scan_def next_id_def register_stream_def
        initial_pending_def STREAM_CAPACITY_def)
  then show ?thesis
    by (rule android_nodes_never_sight_each_other)
      (auto simp: ADVERT_TOKEN_LEN_def intro!: exI [of _ "replicate 16 5"] exI [of _ initial_pending])
qed

end
