(* ===== verification/Tls.thy ===== *)
theory Tls
  imports Std_Text
begin

text \<open>
  TLS termination shared by the servers (\<open>tls/src/lib.rs\<close>): how the environment selects a mode,
  the certificate it needs and what the server then listens with.  Loading PEM files,
  generating a certificate and the listeners themselves are the libraries'; their results are
  parameters.
\<close>

section \<open>Settings\<close>

datatype tls_settings =
    TlsDisabled
  | FromFiles (cert_path: string) (key_path: string)
  | SelfSigned (subject_alt_names: "string list")

datatype tls_error =
    HalfConfigured string
  | CertificateLoad string
  | CertificateGeneration string
  | Serve string

fun display_tls :: "tls_error \<Rightarrow> string" where
  "display_tls (HalfConfigured which_is_set) =
    ''TLS is half-configured: '' @ which_is_set @ '' is set but its counterpart is not. Set both ''
    @ ''PARDA_TLS_CERT_PATH and PARDA_TLS_KEY_PATH, or neither (for a self-signed development ''
    @ ''certificate).''"
| "display_tls (CertificateLoad e) = ''failed to load TLS certificate/key: '' @ e"
| "display_tls (CertificateGeneration e) = ''failed to generate a self-signed development certificate: '' @ e"
| "display_tls (Serve e) = ''server error: '' @ e"

text \<open>The environment maps names to their values; a variable that is not Unicode counts as unset.\<close>

type_synonym environment = "string \<Rightarrow> string option"

definition subject_names :: "environment \<Rightarrow> string list" where
  "subject_names env = filter (\<lambda>s. s \<noteq> []) (map trim (split_on (CHR '','')
     (case env ''PARDA_TLS_SAN'' of Some v \<Rightarrow> v | None \<Rightarrow> ''localhost,127.0.0.1'')))"

definition tls_from_env :: "environment \<Rightarrow> (tls_settings, tls_error) result" where
  "tls_from_env env =
    (if (case env ''PARDA_TLS_ENABLED'' of Some v \<Rightarrow> v | None \<Rightarrow> []) \<noteq> ''1'' then Ok TlsDisabled
     else case (env ''PARDA_TLS_CERT_PATH'', env ''PARDA_TLS_KEY_PATH'') of
       (Some cert, Some key) \<Rightarrow> Ok (FromFiles cert key)
     | (None, None) \<Rightarrow> Ok (SelfSigned (subject_names env))
     | (cert, _) \<Rightarrow> Err (HalfConfigured
         (if cert \<noteq> None then ''PARDA_TLS_CERT_PATH'' else ''PARDA_TLS_KEY_PATH'')))"

text \<open>What is logged of the transport, and at which level.\<close>

datatype log_level = LogInfo | LogWarn

datatype log_line =
    PlaintextWarning
  | ConfiguredCertificate string
  | SelfSignedWarning "string list"
  | ListeningLine

definition line_level :: "log_line \<Rightarrow> log_level" where
  "line_level line = (case line of PlaintextWarning \<Rightarrow> LogWarn | SelfSignedWarning _ \<Rightarrow> LogWarn | _ \<Rightarrow> LogInfo)"

definition log_posture :: "tls_settings \<Rightarrow> log_line" where
  "log_posture s = (case s of
     TlsDisabled \<Rightarrow> PlaintextWarning
   | FromFiles cert key \<Rightarrow> ConfiguredCertificate cert
   | SelfSigned names \<Rightarrow> SelfSignedWarning names)"

section \<open>Serving\<close>

record 'c tls_lib =
  from_pem_file :: "string \<Rightarrow> string \<Rightarrow> ('c, string) result"
  from_pem :: "bytes \<Rightarrow> bytes \<Rightarrow> ('c, string) result"
  generate_self_signed :: "string list \<Rightarrow> (string \<times> string, string) result"

definition dev_certificate :: "'c tls_lib \<Rightarrow> string list \<Rightarrow> (string \<times> string, tls_error) result" where
  "dev_certificate T names = map_err CertificateGeneration (generate_self_signed T names)"

definition build_config :: "'c tls_lib \<Rightarrow> tls_settings \<Rightarrow> ('c option, tls_error) result" where
  "build_config T s =
    (case s of
       TlsDisabled \<Rightarrow> Ok None
     | FromFiles cert key \<Rightarrow>
         and_then (map_err CertificateLoad (from_pem_file T cert key)) (\<lambda>config. Ok (Some config))
     | SelfSigned names \<Rightarrow>
         and_then (dev_certificate T names) (\<lambda>(cert_pem, key_pem).
         and_then (map_err CertificateLoad (from_pem T (utf8 cert_pem) (utf8 key_pem))) (\<lambda>config.
         Ok (Some config))))"

text \<open>What a server listens with, and whether it is reachable at all.\<close>

datatype 'c listening = ListenTls 'c | ListenPlain

text \<open>
  \<open>serve\<close> logs the posture, builds the configuration and listens.  The TLS library binds late,
  so there the line is logged before the bind; otherwise after it.
\<close>

definition serve_with ::
  "'c tls_lib \<Rightarrow> (unit, string) result \<Rightarrow> string \<Rightarrow> tls_settings
    \<Rightarrow> log_line list \<times> ('c listening, tls_error) result" where
  "serve_with T bind addr s =
    (let log = [log_posture s] in
     case build_config T s of
       Err e \<Rightarrow> (log, Err e)
     | Ok (Some c) \<Rightarrow> (log @ [ListeningLine], and_then (map_err Serve bind) (\<lambda>_. Ok (ListenTls c)))
     | Ok None \<Rightarrow>
         (case map_err (\<lambda>e. Serve (''failed to bind '' @ addr @ '': '' @ e)) bind of
            Err e \<Rightarrow> (log, Err e)
          | Ok _ \<Rightarrow> (log @ [ListeningLine], Ok ListenPlain)))"

text \<open>The start of every server binary: resolve the settings, then serve with them.\<close>

definition start_server ::
  "'c tls_lib \<Rightarrow> (unit, string) result \<Rightarrow> string \<Rightarrow> environment
    \<Rightarrow> log_line list \<times> ('c listening, tls_error) result" where
  "start_server T bind addr env =
    (case tls_from_env env of Err e \<Rightarrow> ([], Err e) | Ok s \<Rightarrow> serve_with T bind addr s)"

section \<open>Lemmas\<close>

text \<open>What the environment selects.\<close>

lemma tls_from_env_off: "env ''PARDA_TLS_ENABLED'' \<noteq> Some ''1'' \<Longrightarrow> tls_from_env env = Ok TlsDisabled"
  by (auto simp: tls_from_env_def split: option.split)

lemma tls_from_env_on:
  "env ''PARDA_TLS_ENABLED'' = Some ''1'' \<Longrightarrow> tls_from_env env =
    (case env ''PARDA_TLS_CERT_PATH'' of
       Some cert \<Rightarrow> (case env ''PARDA_TLS_KEY_PATH'' of
           Some key \<Rightarrow> Ok (FromFiles cert key)
         | None \<Rightarrow> Err (HalfConfigured ''PARDA_TLS_CERT_PATH''))
     | None \<Rightarrow> (case env ''PARDA_TLS_KEY_PATH'' of
           Some key \<Rightarrow> Err (HalfConfigured ''PARDA_TLS_KEY_PATH'')
         | None \<Rightarrow> Ok (SelfSigned (subject_names env))))"
  by (simp add: tls_from_env_def split: option.split)

text \<open>What is served with each kind of settings.\<close>

definition certificate_of :: "'c tls_lib \<Rightarrow> tls_settings \<Rightarrow> ('c, tls_error) result" where
  "certificate_of T s = (case s of
     FromFiles cert key \<Rightarrow> map_err CertificateLoad (from_pem_file T cert key)
   | SelfSigned names \<Rightarrow> (case generate_self_signed T names of
         Err e \<Rightarrow> Err (CertificateGeneration e)
       | Ok (cert, key) \<Rightarrow> map_err CertificateLoad (from_pem T (utf8 cert) (utf8 key)))
   | TlsDisabled \<Rightarrow> Err (CertificateLoad []))"

lemma serve_with_on:
  "s \<noteq> TlsDisabled \<Longrightarrow> serve_with T bind addr s =
    (case certificate_of T s of
       Err e \<Rightarrow> ([log_posture s], Err e)
     | Ok c \<Rightarrow> ([log_posture s, ListeningLine], and_then (map_err Serve bind) (\<lambda>_. Ok (ListenTls c))))"
  by (cases s) (simp_all add: serve_with_def build_config_def certificate_of_def dev_certificate_def
      split: result.split prod.split)

section \<open>Properties\<close>

text \<open>
  C40: TLS never falls back.  With \<open>PARDA_TLS_ENABLED=1\<close> a server listens with TLS, on the
  certificate loaded from the two configured paths or, only when neither is set, on the one
  generated at this start for the configured names, or it does not listen at all: a path without
  its counterpart, a certificate that does not load and one that cannot be generated are each
  the error of the start.  Plaintext is served exactly when TLS was not enabled.  Before a server
  serves plaintext or with a generated certificate it has logged the warning for that, and it
  logs none before serving with a configured certificate.
\<close>

theorem tls_never_falls_back:
  assumes run: "start_server T bind addr env = (log, r)"
  shows "(\<forall>l. r = Ok l \<longrightarrow> bind = Ok () \<and> (l = ListenPlain \<longleftrightarrow> env ''PARDA_TLS_ENABLED'' \<noteq> Some ''1''))
    \<and> (env ''PARDA_TLS_ENABLED'' \<noteq> Some ''1'' \<longrightarrow> PlaintextWarning \<in> set log)
    \<and> (env ''PARDA_TLS_ENABLED'' = Some ''1'' \<longrightarrow>
        (case (env ''PARDA_TLS_CERT_PATH'', env ''PARDA_TLS_KEY_PATH'') of
           (Some cert, Some key) \<Rightarrow> (\<forall>line \<in> set log. line_level line = LogInfo)
             \<and> (case from_pem_file T cert key of
                  Ok c \<Rightarrow> r = and_then (map_err Serve bind) (\<lambda>_. Ok (ListenTls c))
                | Err e \<Rightarrow> r = Err (CertificateLoad e))
         | (None, None) \<Rightarrow> SelfSignedWarning (subject_names env) \<in> set log
             \<and> (case generate_self_signed T (subject_names env) of
                  Err e \<Rightarrow> r = Err (CertificateGeneration e)
                | Ok (cert, key) \<Rightarrow>
                    (case from_pem T (utf8 cert) (utf8 key) of
                       Ok c \<Rightarrow> r = and_then (map_err Serve bind) (\<lambda>_. Ok (ListenTls c))
                     | Err e \<Rightarrow> r = Err (CertificateLoad e)))
         | (Some _, None) \<Rightarrow> r = Err (HalfConfigured ''PARDA_TLS_CERT_PATH'')
         | (None, Some _) \<Rightarrow> r = Err (HalfConfigured ''PARDA_TLS_KEY_PATH'')))"
proof (cases "env ''PARDA_TLS_ENABLED'' = Some ''1''")
  case False
  then have "(log, r) = serve_with T bind addr TlsDisabled"
    using run by (simp add: start_server_def tls_from_env_off)
  with False show ?thesis
    by (cases bind) (auto simp: serve_with_def build_config_def log_posture_def)
next
  case True
  note run' = run [unfolded start_server_def tls_from_env_on [where env = env, OF True]]
  have listens: "bind = Ok () \<and> l \<noteq> ListenPlain" if "and_then (map_err Serve bind) (\<lambda>_. Ok (ListenTls c)) = Ok l" for l and c :: 'a
    using that by (cases bind) auto
  show ?thesis
    using True run' listens
    by (cases "env ''PARDA_TLS_CERT_PATH''"; cases "env ''PARDA_TLS_KEY_PATH''")
      (auto simp: serve_with_on certificate_of_def log_posture_def line_level_def split: result.splits prod.splits)
qed

definition toy_tls_lib :: "string tls_lib" where
  "toy_tls_lib = \<lparr>from_pem_file = (\<lambda>c k. Ok (c @ k)), from_pem = (\<lambda>c k. Err ''bad''),
    generate_self_signed = (\<lambda>names. if names = [] then Err ''no names'' else Ok (concat names, []))\<rparr>"

text \<open>Configured paths are served; a certificate that cannot be generated stops the start.\<close>

theorem tls_never_falls_back_witness:
  "snd (start_server toy_tls_lib (Ok ()) ''127.0.0.1:8080''
      [''PARDA_TLS_ENABLED'' \<mapsto> ''1'', ''PARDA_TLS_CERT_PATH'' \<mapsto> ''c'', ''PARDA_TLS_KEY_PATH'' \<mapsto> ''k''])
      = Ok (ListenTls ''ck'')
    \<and> snd (start_server toy_tls_lib (Ok ()) ''127.0.0.1:8080''
      [''PARDA_TLS_ENABLED'' \<mapsto> ''1'', ''PARDA_TLS_SAN'' \<mapsto> []]) = Err (CertificateGeneration ''no names'')"
proof -
  have "subject_names [''PARDA_TLS_ENABLED'' \<mapsto> ''1'', ''PARDA_TLS_SAN'' \<mapsto> []] = []"
    by (simp add: subject_names_def trim_def)
  then show ?thesis
    using tls_never_falls_back [of toy_tls_lib "Ok ()" "''127.0.0.1:8080''"
        "[''PARDA_TLS_ENABLED'' \<mapsto> ''1'', ''PARDA_TLS_CERT_PATH'' \<mapsto> ''c'', ''PARDA_TLS_KEY_PATH'' \<mapsto> ''k'']", OF surjective_pairing]
      tls_never_falls_back [of toy_tls_lib "Ok ()" "''127.0.0.1:8080''"
        "[''PARDA_TLS_ENABLED'' \<mapsto> ''1'', ''PARDA_TLS_SAN'' \<mapsto> []]", OF surjective_pairing]
    by (simp add: toy_tls_lib_def)
qed

end
