(* ===== verification/Cli.thy ===== *)
theory Cli
  imports Session Std_Text
begin

text \<open>
  The command line client: the conversation partner that publishes its prekey bundle, polls and
  answers (\<open>cli/src/peer.rs\<close>), the in-memory stand-in for the relay (\<open>cli/src/stub_relay.rs\<close>)
  and the choice of command in \<open>cli/src/main.rs\<close>.  JSON values are a datatype; base64, key
  decoding and the network are parameters.
\<close>

section \<open>JSON\<close>

datatype json =
    JNull
  | JBool bool
  | JNumber u64
  | JString string
  | JArray "json list"
  | JObject "(string \<times> json) list"

fun json_get :: "string \<Rightarrow> json \<Rightarrow> json option" where
  "json_get k (JObject m) = map_of m k"
| "json_get k _ = None"

fun as_str :: "json \<Rightarrow> string option" where
  "as_str (JString s) = Some s"
| "as_str _ = None"

fun as_u64 :: "json \<Rightarrow> u64 option" where
  "as_u64 (JNumber n) = Some n"
| "as_u64 _ = None"

fun as_array :: "json \<Rightarrow> json list option" where
  "as_array (JArray xs) = Some xs"
| "as_array _ = None"

section \<open>Lossy text\<close>

text \<open>
  \<open>String::from_utf8_lossy\<close>: every maximal ill-formed part becomes one U+FFFD, the three bytes
  \<open>EF BF BD\<close>.
\<close>

definition replacement :: bytes where
  "replacement = [239, 191, 189]"

text \<open>The first maximal part of a text that is not empty: whether it is well formed, and its length.\<close>

fun next_in :: "nat \<Rightarrow> nat \<Rightarrow> bytes \<Rightarrow> bool" where
  "next_in lo hi [] = False"
| "next_in lo hi (b # _) = in_range lo hi b"

fun first_part :: "bytes \<Rightarrow> bool \<times> nat" where
  "first_part [] = (True, 0)"
| "first_part (a # r) =
    (if in_range 0 127 a then (True, 1)
     else if in_range 194 223 a then
       (if next_in 128 191 r then (True, 2) else (False, 1))
     else if in_range 224 239 a then
       (if \<not> next_in (if a = 224 then 160 else 128) (if a = 237 then 159 else 191) r then (False, 1)
        else if \<not> next_in 128 191 (tl r) then (False, 2)
        else (True, 3))
     else if in_range 240 244 a then
       (if \<not> next_in (if a = 240 then 144 else 128) (if a = 244 then 143 else 191) r then (False, 1)
        else if \<not> next_in 128 191 (tl r) then (False, 2)
        else if \<not> next_in 128 191 (tl (tl r)) then (False, 3)
        else (True, 4))
     else (False, 1))"

lemma first_part_pos: "bs \<noteq> [] \<Longrightarrow> 0 < snd (first_part bs)"
  by (cases bs) auto

function lossy :: "bytes \<Rightarrow> bytes" where
  "lossy bs =
    (if bs = [] then []
     else let (ok, n) = first_part bs in (if ok then take n bs else replacement) @ lossy (drop n bs))"
  by pat_completeness auto
termination
proof (relation "measure length")
  fix bs :: bytes and ok n x
  assume "bs \<noteq> []" "x = first_part bs" "(ok, n) = x"
  then have "0 < n" "bs \<noteq> []"
    using first_part_pos [of bs] by (metis snd_conv)+
  then show "(drop n bs, bs) \<in> measure length" by simp
qed simp

declare lossy.simps [simp del]

section \<open>Publishing a prekey bundle\<close>

record cli_lib =
  encode64 :: "bytes \<Rightarrow> string"
  decode64 :: "string \<Rightarrow> (bytes, string) result"
  decode_identity_key :: "bytes \<Rightarrow> (bytes, string) result"
  decode_public_key :: "bytes \<Rightarrow> (bytes, string) result"
  make_bundle :: "prekey_bundle \<Rightarrow> prekey_bundle signal"
  show_signal_error :: "signal_error \<Rightarrow> string"

definition d64 :: "cli_lib \<Rightarrow> string \<Rightarrow> (bytes, string) result" where
  "d64 C s = map_err (\<lambda>e. ''bad base64: '' @ e) (decode64 C s)"

text \<open>The accessors of a bundle that was just built do not fail; building it panics on an error.\<close>

definition bundle_to_json :: "cli_lib \<Rightarrow> local_identity \<Rightarrow> (json, string) result" where
  "bundle_to_json C identity =
    and_then (map_err (\<lambda>_. ''build bundle'') (build_prekey_bundle (make_bundle C) identity)) (\<lambda>bundle.
    Ok (JObject
      [(''registration_id'', JNumber (ucast (pb_registration_id bundle))),
       (''device_id'', JNumber 1),
       (''identity_key'', JString (encode64 C (pb_identity_key bundle))),
       (''signed_prekey_id'', JNumber (ucast (pb_signed_prekey_id bundle))),
       (''signed_prekey_public'', JString (encode64 C (pb_signed_prekey_public bundle))),
       (''signed_prekey_signature'', JString (encode64 C (pb_signature bundle))),
       (''one_time_prekey_id'', (case pb_prekey bundle of Some (i, _) \<Rightarrow> JNumber (ucast i) | None \<Rightarrow> JNull)),
       (''one_time_prekey_public'',
          (case pb_prekey bundle of Some (_, k) \<Rightarrow> JString (encode64 C k) | None \<Rightarrow> JNull))]))"

definition get_str :: "json \<Rightarrow> string \<Rightarrow> (string, string) result" where
  "get_str v k = ok_or (Option.bind (json_get k v) as_str) (''missing field '' @ k)"

definition get_u32 :: "json \<Rightarrow> string \<Rightarrow> (u32, string) result" where
  "get_u32 v k = ok_or (map_option ucast (Option.bind (json_get k v) as_u64)) (''missing field '' @ k)"

definition get_bytes :: "cli_lib \<Rightarrow> json \<Rightarrow> string \<Rightarrow> (bytes, string) result" where
  "get_bytes C v k = and_then (get_str v k) (d64 C)"

definition bundle_from_json :: "cli_lib \<Rightarrow> json \<Rightarrow> (prekey_bundle, string) result" where
  "bundle_from_json C v =
    and_then (and_then (get_bytes C v ''identity_key'') (decode_identity_key C)) (\<lambda>identity_key.
    and_then (and_then (get_bytes C v ''signed_prekey_public'') (decode_public_key C)) (\<lambda>signed_public.
    and_then
      (case (Option.bind (json_get ''one_time_prekey_id'' v) as_u64,
             Option.bind (json_get ''one_time_prekey_public'' v) as_str) of
         (Some i, Some pk) \<Rightarrow>
           map_ok (\<lambda>k. Some (ucast i, k)) (and_then (d64 C pk) (decode_public_key C))
       | _ \<Rightarrow> Ok None) (\<lambda>one_time.
    and_then (get_u32 v ''registration_id'') (\<lambda>registration_id.
    and_then (get_u32 v ''signed_prekey_id'') (\<lambda>signed_prekey_id.
    and_then (get_bytes C v ''signed_prekey_signature'') (\<lambda>signature.
    map_err (show_signal_error C) (make_bundle C
      \<lparr>pb_registration_id = registration_id, pb_device_id = 1, pb_prekey = one_time,
       pb_signed_prekey_id = signed_prekey_id, pb_signed_prekey_public = signed_public,
       pb_signature = signature, pb_identity_key = identity_key\<rparr>)))))))"

section \<open>The conversation partner\<close>

record 'n peer_http =
  peer_post :: "string \<Rightarrow> message_envelope \<Rightarrow> 'n \<Rightarrow> (nat, string) result \<times> 'n"
  peer_get :: "string \<Rightarrow> 'n \<Rightarrow> (json, string) result \<times> 'n"
  envelope_of_json :: "json \<Rightarrow> (message_envelope, string) result"

definition is_success :: "nat \<Rightarrow> bool" where
  "is_success code \<longleftrightarrow> 200 \<le> code \<and> code < 300"

definition send_reply ::
  "'n peer_http \<Rightarrow> libsignal \<Rightarrow> (parda_error \<Rightarrow> string) \<Rightarrow> u64 \<Rightarrow> string \<Rightarrow> string \<Rightarrow> string
    \<Rightarrow> session_manager \<Rightarrow> 'n \<Rightarrow> (unit, string) result \<times> session_manager \<times> 'n" where
  "send_reply H ls show now relay_url recipient body sm n =
    (case encrypt ls now sm (Address recipient 1) (utf8 body) of
       (Err e, sm') \<Rightarrow> (Err (show e), sm', n)
     | (Ok envelope, sm') \<Rightarrow>
         let (r, n') = peer_post H (relay_url @ ''/v1/messages/'' @ recipient) envelope n in
         (and_then r (\<lambda>code. if is_success code then Ok () else Err (''HTTP '' @ dec code)), sm', n'))"

text \<open>
  One message: decrypted, printed, and echoed when that is on and the sender is named.  The
  printed lines are collected; errors are reported and the loop goes on.
\<close>

definition handle_message ::
  "'n peer_http \<Rightarrow> libsignal \<Rightarrow> (parda_error \<Rightarrow> string) \<Rightarrow> u64 \<Rightarrow> string \<Rightarrow> bool \<Rightarrow> json
    \<Rightarrow> session_manager \<times> 'n \<times> string list \<Rightarrow> session_manager \<times> 'n \<times> string list" where
  "handle_message H ls show now relay_url echo raw s =
    (case s of (sm, n, printed) \<Rightarrow>
     case envelope_of_json H raw of
       Err e \<Rightarrow> (sm, n, printed @ [''skipping malformed envelope: '' @ e])
     | Ok envelope \<Rightarrow>
         let sender = sender_id envelope in
         case decrypt ls sm envelope of
           (Err e, sm') \<Rightarrow> (sm', n, printed @ [''['' @ sender @ ''] decrypt failed: '' @ show e])
         | (Ok pt, sm') \<Rightarrow>
             let text = of_utf8 (lossy pt); printed = printed @ [''['' @ sender @ ''] '' @ text] in
             if echo \<and> sender \<noteq> [] then
               (case send_reply H ls show now relay_url sender (''echo: '' @ text) sm' n of
                  (Err e, sm'', n') \<Rightarrow> (sm'', n', printed @ [''  reply failed: '' @ e])
                | (Ok _, sm'', n') \<Rightarrow> (sm'', n', printed @ [''  replied'']))
             else (sm', n, printed))"

definition poll_once ::
  "'n peer_http \<Rightarrow> libsignal \<Rightarrow> (parda_error \<Rightarrow> string) \<Rightarrow> u64 \<Rightarrow> string \<Rightarrow> string \<Rightarrow> bool
    \<Rightarrow> session_manager \<times> 'n \<times> string list \<Rightarrow> session_manager \<times> 'n \<times> string list" where
  "poll_once H ls show now relay_url user_id echo s =
    (case s of (sm, n, printed) \<Rightarrow>
     let (r, n') = peer_get H (relay_url @ ''/v1/messages/'' @ user_id) n in
     case r of
       Err _ \<Rightarrow> (sm, n', printed)
     | Ok body \<Rightarrow>
         (case Option.bind (json_get ''messages'' body) as_array of
            None \<Rightarrow> (sm, n', printed)
          | Some messages \<Rightarrow> fold (handle_message H ls show now relay_url echo) messages (sm, n', printed)))"

section \<open>The stand-in for the relay\<close>

record stub_state =
  stub_bundles :: "string \<Rightarrow> json option"
  stub_messages :: "string \<Rightarrow> json list option"

definition stub_upload_bundle :: "string \<Rightarrow> json \<Rightarrow> stub_state \<Rightarrow> (nat \<times> json) \<times> stub_state" where
  "stub_upload_bundle user body s =
    ((200, JObject [(''ok'', JBool True)]), s\<lparr>stub_bundles := (stub_bundles s)(user \<mapsto> body)\<rparr>)"

definition stub_get_bundle :: "string \<Rightarrow> stub_state \<Rightarrow> nat \<times> json" where
  "stub_get_bundle user s =
    (case stub_bundles s user of
       Some b \<Rightarrow> (200, b)
     | None \<Rightarrow> (404, JObject [(''error'', JString ''no bundle'')]))"

definition stub_submit_message :: "string \<Rightarrow> json \<Rightarrow> stub_state \<Rightarrow> (nat \<times> json) \<times> stub_state" where
  "stub_submit_message recipient envelope s =
    ((201, JObject [(''ok'', JBool True), (''message_id'', JString ''demo'')]),
     s\<lparr>stub_messages := (stub_messages s)(recipient \<mapsto>
       (case stub_messages s recipient of Some q \<Rightarrow> q | None \<Rightarrow> []) @ [envelope])\<rparr>)"

definition stub_fetch_messages :: "string \<Rightarrow> stub_state \<Rightarrow> json \<times> stub_state" where
  "stub_fetch_messages user s =
    (JObject [(''messages'', JArray (case stub_messages s user of Some q \<Rightarrow> q | None \<Rightarrow> []))],
     s\<lparr>stub_messages := (stub_messages s)(user := None)\<rparr>)"

section \<open>The command line\<close>

datatype cli_command =
    Demo "string option" "u64 option" bool
  | Peer string string bool

datatype cli_action =
    RunDemo "string option" "u64 option" bool
  | RunPeer string string bool
  | ExitWith nat

definition dispatch :: "cli_command \<Rightarrow> cli_action" where
  "dispatch c = (case c of
     Demo url expire_secs read_once \<Rightarrow>
       if expire_secs \<noteq> None \<and> read_once then ExitWith 2 else RunDemo url expire_secs read_once
   | Peer url user echo \<Rightarrow> RunPeer url user echo)"

section \<open>Lemmas\<close>

text \<open>Well-formed text is kept; every other text becomes well formed.\<close>

lemma next_in_Cons: "next_in lo hi r \<longleftrightarrow> (\<exists>b r'. r = b # r' \<and> in_range lo hi b)"
  by (cases r) auto

lemma valid_utf8_classes:
  "in_range 0 127 a \<Longrightarrow> valid_utf8 (a # r) = valid_utf8 r"
  "in_range 194 223 a \<Longrightarrow> valid_utf8 (a # r) = (next_in 128 191 r \<and> valid_utf8 (tl r))"
  "in_range 224 239 a \<Longrightarrow> valid_utf8 (a # r)
    = (next_in (if a = 224 then 160 else 128) (if a = 237 then 159 else 191) r
      \<and> next_in 128 191 (tl r) \<and> valid_utf8 (tl (tl r)))"
  "in_range 240 244 a \<Longrightarrow> valid_utf8 (a # r)
    = (next_in (if a = 240 then 144 else 128) (if a = 244 then 143 else 191) r
      \<and> next_in 128 191 (tl r) \<and> next_in 128 191 (tl (tl r)) \<and> valid_utf8 (tl (tl (tl r))))"
  "\<not> in_range 0 127 a \<Longrightarrow> \<not> in_range 194 223 a \<Longrightarrow> \<not> in_range 224 239 a \<Longrightarrow> \<not> in_range 240 244 a
    \<Longrightarrow> \<not> valid_utf8 (a # r)"
proof -
  have disjoint: "in_range lo hi a \<Longrightarrow> hi < lo' \<or> hi' < lo \<Longrightarrow> \<not> in_range lo' hi' a" for lo hi lo' hi'
    by (auto simp: in_range_def)
  show "in_range 0 127 a \<Longrightarrow> valid_utf8 (a # r) = valid_utf8 r"
    by simp
  show "in_range 194 223 a \<Longrightarrow> valid_utf8 (a # r) = (next_in 128 191 r \<and> valid_utf8 (tl r))"
    using disjoint [of 194 223 0 127] by (cases r) simp_all
  show "in_range 224 239 a \<Longrightarrow> valid_utf8 (a # r)
    = (next_in (if a = 224 then 160 else 128) (if a = 237 then 159 else 191) r
      \<and> next_in 128 191 (tl r) \<and> valid_utf8 (tl (tl r)))"
    using disjoint [of 224 239 0 127] disjoint [of 224 239 194 223]
    by (cases r; cases "tl r") (simp_all del: if_split)
  show "in_range 240 244 a \<Longrightarrow> valid_utf8 (a # r)
    = (next_in (if a = 240 then 144 else 128) (if a = 244 then 143 else 191) r
      \<and> next_in 128 191 (tl r) \<and> next_in 128 191 (tl (tl r)) \<and> valid_utf8 (tl (tl (tl r))))"
    using disjoint [of 240 244 0 127] disjoint [of 240 244 194 223] disjoint [of 240 244 224 239]
    by (cases r; cases "tl r"; cases "tl (tl r)") (simp_all del: if_split)
qed simp

lemma first_part_classes:
  "in_range 0 127 a \<Longrightarrow> first_part (a # r) = (True, 1)"
  "in_range 194 223 a \<Longrightarrow> first_part (a # r) = (True, n) \<longleftrightarrow> n = 2 \<and> next_in 128 191 r"
  "in_range 224 239 a \<Longrightarrow> first_part (a # r) = (True, n) \<longleftrightarrow> n = 3
    \<and> next_in (if a = 224 then 160 else 128) (if a = 237 then 159 else 191) r \<and> next_in 128 191 (tl r)"
  "in_range 240 244 a \<Longrightarrow> first_part (a # r) = (True, n) \<longleftrightarrow> n = 4
    \<and> next_in (if a = 240 then 144 else 128) (if a = 244 then 143 else 191) r
    \<and> next_in 128 191 (tl r) \<and> next_in 128 191 (tl (tl r))"
  "\<not> in_range 0 127 a \<Longrightarrow> \<not> in_range 194 223 a \<Longrightarrow> \<not> in_range 224 239 a \<Longrightarrow> \<not> in_range 240 244 a
    \<Longrightarrow> first_part (a # r) \<noteq> (True, n)"
proof -
  have disjoint: "in_range lo hi a \<Longrightarrow> hi < lo' \<or> hi' < lo \<Longrightarrow> \<not> in_range lo' hi' a" for lo hi lo' hi'
    by (auto simp: in_range_def)
  show "in_range 0 127 a \<Longrightarrow> first_part (a # r) = (True, 1)"
    by simp
  show "in_range 194 223 a \<Longrightarrow> first_part (a # r) = (True, n) \<longleftrightarrow> n = 2 \<and> next_in 128 191 r"
    using disjoint [of 194 223 0 127] by auto
  show "in_range 224 239 a \<Longrightarrow> first_part (a # r) = (True, n) \<longleftrightarrow> n = 3
    \<and> next_in (if a = 224 then 160 else 128) (if a = 237 then 159 else 191) r \<and> next_in 128 191 (tl r)"
    using disjoint [of 224 239 0 127] disjoint [of 224 239 194 223] by auto
  show "in_range 240 244 a \<Longrightarrow> first_part (a # r) = (True, n) \<longleftrightarrow> n = 4
    \<and> next_in (if a = 240 then 144 else 128) (if a = 244 then 143 else 191) r
    \<and> next_in 128 191 (tl r) \<and> next_in 128 191 (tl (tl r))"
    using disjoint [of 240 244 0 127] disjoint [of 240 244 194 223] disjoint [of 240 244 224 239] by auto
qed simp

lemma byte_class:
  obtains "in_range 0 127 a" | "in_range 194 223 a" | "in_range 224 239 a" | "in_range 240 244 a"
  | "\<not> in_range 0 127 a" "\<not> in_range 194 223 a" "\<not> in_range 224 239 a" "\<not> in_range 240 244 a"
  by blast

lemma first_part_ok:
  assumes "first_part bs = (True, n)"
  shows "valid_utf8 (take n bs @ cs) = valid_utf8 cs"
proof (cases bs)
  case (Cons a r)
  show ?thesis
  proof (cases rule: byte_class [of a])
    case 1
    then show ?thesis using assms by (auto simp: Cons)
  next
    case 2
    then show ?thesis
      using assms by (auto simp: Cons first_part_classes valid_utf8_classes next_in_Cons
          simp del: first_part.simps valid_utf8.simps)
  next
    case 3
    then show ?thesis
      using assms by (auto simp: Cons first_part_classes valid_utf8_classes next_in_Cons
          simp del: first_part.simps valid_utf8.simps if_split)
  next
    case 4
    then show ?thesis
      using assms by (auto simp: Cons first_part_classes valid_utf8_classes next_in_Cons
          simp del: first_part.simps valid_utf8.simps if_split)
  next
    case 5
    then show ?thesis
      using assms first_part_classes(5) [OF 5] unfolding Cons by blast
  qed
qed (use assms in simp)

lemma first_part_valid:
  assumes "valid_utf8 bs" "bs \<noteq> []"
  shows "\<exists>n. first_part bs = (True, n) \<and> valid_utf8 (drop n bs)"
proof -
  obtain a r where r: "bs = a # r"
    using assms(2) by (cases bs) auto
  have d: "drop 1 (a # r) = r" "drop 2 (a # r) = tl r" "drop 3 (a # r) = tl (tl r)" "drop 4 (a # r) = tl (tl (tl r))"
    by (simp_all add: numeral_2_eq_2 numeral_3_eq_3 eval_nat_numeral drop_Suc)
  have v: "valid_utf8 (a # r)"
    using assms(1) r by (simp only:)
  show ?thesis
    unfolding r
  proof (cases rule: byte_class [of a])
    case 1
    then show "\<exists>n. first_part (a # r) = (True, n) \<and> valid_utf8 (drop n (a # r))"
      using v d(1) by (intro exI [of _ 1]) (simp only: first_part_classes valid_utf8_classes)
  next
    case 2
    then show "\<exists>n. first_part (a # r) = (True, n) \<and> valid_utf8 (drop n (a # r))"
      using v d(2) by (intro exI [of _ 2]) (simp only: first_part_classes valid_utf8_classes)
  next
    case 3
    then show "\<exists>n. first_part (a # r) = (True, n) \<and> valid_utf8 (drop n (a # r))"
      using v d(3) by (intro exI [of _ 3]) (simp only: first_part_classes valid_utf8_classes)
  next
    case 4
    then show "\<exists>n. first_part (a # r) = (True, n) \<and> valid_utf8 (drop n (a # r))"
      using v d(4) by (intro exI [of _ 4]) (simp only: first_part_classes valid_utf8_classes)
  next
    case 5
    then show "\<exists>n. first_part (a # r) = (True, n) \<and> valid_utf8 (drop n (a # r))"
      using v valid_utf8_classes(5) by blast
  qed
qed

lemma lossy_valid: "valid_utf8 bs \<Longrightarrow> lossy bs = bs"
proof (induction bs rule: lossy.induct)
  case (1 bs)
  show ?case
  proof (cases "bs = []")
    case False
    then obtain n where n: "first_part bs = (True, n)" "valid_utf8 (drop n bs)"
      using first_part_valid [OF "1.prems"] by blast
    then show ?thesis
      using "1.IH" [OF False refl n(1) [symmetric]] False by (simp add: lossy.simps [of bs])
  qed (simp add: lossy.simps)
qed

lemma valid_lossy: "valid_utf8 (lossy bs)"
proof (induction bs rule: lossy.induct)
  case (1 bs)
  obtain ok n where n: "first_part bs = (ok, n)" by (cases "first_part bs")
  show ?case
  proof (cases "bs = []")
    case False
    then have "valid_utf8 (lossy (drop n bs))"
      by (rule "1" [OF _ refl n [symmetric]])
    then show ?thesis
      using False first_part_ok [of bs n] n
      by (cases ok) (simp_all add: lossy.simps [of bs] replacement_def in_range_def)
  qed (simp add: lossy.simps)
qed

lemma ucast_u32_u64 [simp]: "(ucast (ucast x :: u64) :: u32) = x" for x :: u32
  by (simp add: ucast_up_ucast_id is_up)

section \<open>Properties\<close>

text \<open>
  A published prekey bundle reads back as the bundle that was built: base64, the field names
  of the JSON, the widening of identifiers to 64 bits and the absence of a one-time prekey all
  survive the way there and back, for keys that the key decoders accept.
\<close>

theorem published_bundle_reads_back:
  assumes "bundle_to_json C li = Ok v" "build_prekey_bundle (make_bundle C) li = Ok b" "make_bundle C b = Ok b"
    and "pb_device_id b = 1" "\<And>bs. decode64 C (encode64 C bs) = Ok bs"
    and "decode_identity_key C (pb_identity_key b) = Ok (pb_identity_key b)"
    and "\<And>k. k \<in> {pb_signed_prekey_public b} \<union> snd ` set_option (pb_prekey b) \<Longrightarrow> decode_public_key C k = Ok k"
  shows "bundle_from_json C v = Ok b"
proof -
  have v: "v = JObject
      [(''registration_id'', JNumber (ucast (pb_registration_id b))),
       (''device_id'', JNumber 1),
       (''identity_key'', JString (encode64 C (pb_identity_key b))),
       (''signed_prekey_id'', JNumber (ucast (pb_signed_prekey_id b))),
       (''signed_prekey_public'', JString (encode64 C (pb_signed_prekey_public b))),
       (''signed_prekey_signature'', JString (encode64 C (pb_signature b))),
       (''one_time_prekey_id'', (case pb_prekey b of Some (i, _) \<Rightarrow> JNumber (ucast i) | None \<Rightarrow> JNull)),
       (''one_time_prekey_public'',
          (case pb_prekey b of Some (_, k) \<Rightarrow> JString (encode64 C k) | None \<Rightarrow> JNull))]"
    using assms(1,2) by (simp add: bundle_to_json_def)
  have d: "d64 C (encode64 C bs) = Ok bs" for bs
    by (simp add: d64_def assms(5))
  have prekey: "decode_public_key C k = Ok k" if "pb_prekey b = Some (i, k)" for i k
    using that assms(7) by simp
  have signed: "decode_public_key C (pb_signed_prekey_public b) = Ok (pb_signed_prekey_public b)"
    using assms(7) by simp
  obtain i k where "pb_prekey b = None \<or> pb_prekey b = Some (i, k)"
    by (cases "pb_prekey b") auto
  then have "(case (Option.bind (json_get ''one_time_prekey_id'' v) as_u64,
             Option.bind (json_get ''one_time_prekey_public'' v) as_str) of
         (Some i, Some pk) \<Rightarrow>
           map_ok (\<lambda>k. Some (ucast i, k)) (and_then (d64 C pk) (decode_public_key C))
       | _ \<Rightarrow> Ok None) = Ok (pb_prekey b)"
    using prekey by (auto simp: v d)
  moreover have "make_bundle C \<lparr>pb_registration_id = pb_registration_id b, pb_device_id = 1, pb_prekey = pb_prekey b,
       pb_signed_prekey_id = pb_signed_prekey_id b, pb_signed_prekey_public = pb_signed_prekey_public b,
       pb_signature = pb_signature b, pb_identity_key = pb_identity_key b\<rparr> = Ok b"
    using assms(3,4) by (metis prekey_bundle.surjective old.unit.exhaust)
  ultimately show ?thesis
    by (simp add: bundle_from_json_def) (simp add: v get_bytes_def get_str_def get_u32_def d signed assms(6))
qed

text \<open>A client whose keys need no decoding; base64 is replaced by text of the same bytes.\<close>

definition toy_cli :: cli_lib where
  "toy_cli = \<lparr>encode64 = of_utf8, decode64 = (\<lambda>s. Ok (utf8 s)), decode_identity_key = Ok,
    decode_public_key = Ok, make_bundle = Ok, show_signal_error = (\<lambda>_. [])\<rparr>"

definition toy_identity :: local_identity where
  "toy_identity = \<lparr>li_registration_id = 7, li_identity_key_pair = ([1], [2]),
    li_signed_prekey = \<lparr>spk_id = 1, spk_timestamp = 0, spk_pair = ([3], [4]), spk_signature = [5]\<rparr>,
    li_one_time_prekeys = [\<lparr>pk_id = 9, pk_pair = ([6], [7])\<rparr>]\<rparr>"

theorem published_bundle_reads_back_witness:
  "\<exists>v b. bundle_to_json toy_cli toy_identity = Ok v \<and> bundle_from_json toy_cli v = Ok b
    \<and> pb_prekey b = Some (9, [6])"
proof -
  obtain b where b: "build_prekey_bundle (make_bundle toy_cli) toy_identity = Ok b"
    "pb_prekey b = Some (9, [6])" "pb_device_id b = 1"
    by (simp add: build_prekey_bundle_def toy_cli_def toy_identity_def)
  obtain v where v: "bundle_to_json toy_cli toy_identity = Ok v"
    using b(1) by (simp add: bundle_to_json_def)
  have "bundle_from_json toy_cli v = Ok b"
    by (rule published_bundle_reads_back [OF v b(1) _ b(3)]) (simp_all add: toy_cli_def)
  then show ?thesis
    using v b(2) by blast
qed

end
