(* ===== verification/Relay_Spec.thy ===== *)
theory Relay_Spec
  imports Relay_Server "HOL-Library.Countable"
begin

text \<open>
  What the relay server promises its clients, as an abstract machine of mailboxes and staged
  pulls, and the proof that the handlers over the SQL tables (theory \<open>Relay_Server\<close>) implement
  it: every sequence of requests gets the responses of the abstract machine.
\<close>

section \<open>The abstract machine\<close>

text \<open>A mailbox is kept in the order in which it is handed out; a stage knows when it was made.\<close>

record mailboxes =
  boxes :: "string \<Rightarrow> stored_envelope list"
  staged :: "string \<Rightarrow> (stored_envelope list \<times> int) option"

definition no_mail :: mailboxes where
  "no_mail = \<lparr>boxes = (\<lambda>_. []), staged = (\<lambda>_. None)\<rparr>"

definition claimed_time :: "stored_envelope \<Rightarrow> int" where
  "claimed_time e = as_i64 (timestamp_ms (se_envelope e))"

datatype mail_request =
    Submit string message_envelope
  | Fetch string
  | Delete string string
  | Stage int string string
  | Pull string

fun spec_step :: "mail_request \<Rightarrow> mailboxes \<Rightarrow> relay_response \<times> mailboxes" where
  "spec_step (Submit i e) q =
    (let u = recipient_id e; m = \<lparr>se_id = i, se_envelope = e\<rparr> in
     (Response 201 (SubmittedBody True i),
      q\<lparr>boxes := (boxes q)(u := sort_key claimed_time (boxes q u @ [m]))\<rparr>))"
| "spec_step (Fetch u) q =
    (Response 200 (MessagesBody (boxes q u)), q\<lparr>boxes := (boxes q)(u := [])\<rparr>)"
| "spec_step (Delete u i) q =
    (if i \<in> se_id ` set (boxes q u) then Response 200 (ApiOk True None)
     else Response 404 (ApiOk True (Some ''message not found'')),
     q\<lparr>boxes := (boxes q)(u := filter (\<lambda>m. se_id m \<noteq> i) (boxes q u))\<rparr>)"
| "spec_step (Stage wall t u) q =
    (Response 202 (ApiOk True None),
     \<lparr>boxes = (boxes q)(u := []),
      staged = (\<lambda>x. if x = t then Some (boxes q u, as_i64 (unix_millis wall))
        else case staged q x of
          Some (es, at) \<Rightarrow> if at < as_i64 (saturating_sub (unix_millis wall) PULL_STAGE_TTL_MS) then None else Some (es, at)
        | None \<Rightarrow> None)\<rparr>)"
| "spec_step (Pull t) q =
    (Response 200 (MessagesBody (case staged q t of Some (es, _) \<Rightarrow> es | None \<Rightarrow> [])),
     q\<lparr>staged := (staged q)(t := None)\<rparr>)"

fun spec_run :: "mail_request list \<Rightarrow> mailboxes \<Rightarrow> relay_response list" where
  "spec_run [] q = []"
| "spec_run (r # rs) q = (let (a, q') = spec_step r q in a # spec_run rs q')"

section \<open>The relay on the same requests\<close>

fun relay_exec :: "server_lib \<Rightarrow> mail_request \<Rightarrow> server_store \<Rightarrow> handled" where
  "relay_exec L (Submit i e) s = submit_message L i (recipient_id e) e s"
| "relay_exec L (Fetch u) s = fetch_messages L u s"
| "relay_exec L (Delete u i) s = handle_delete_message u i s"
| "relay_exec L (Stage wall t u) s =
    handle_stage_pull L wall \<lparr>pull_recipient_id = u, rendezvous_token = t\<rparr> s"
| "relay_exec L (Pull t) s = handle_fetch_pull L t s"

fun relay_run :: "server_lib \<Rightarrow> mail_request list \<Rightarrow> server_store \<Rightarrow> relay_response or_panic list" where
  "relay_run L [] s = []"
| "relay_run L (r # rs) s = (let (a, s') = relay_exec L r s in a # relay_run L rs s')"

fun submitted_ids :: "mail_request list \<Rightarrow> string list" where
  "submitted_ids [] = []"
| "submitted_ids (Submit i e # rs) = i # submitted_ids rs"
| "submitted_ids (_ # rs) = submitted_ids rs"

fun clock_ok :: "mail_request \<Rightarrow> bool" where
  "clock_ok (Stage wall t u) = (0 \<le> wall)"
| "clock_ok _ = True"

text \<open>The JSON code always serialises, which it does for these records, and reads back what it wrote.\<close>

definition total_json :: "server_lib \<Rightarrow> bool" where
  "total_json L \<longleftrightarrow> (\<forall>e. is_ok (stored_to_string L e)) \<and> (\<forall>es. is_ok (stored_list_to_string L es))"

section \<open>Stable sorting\<close>

lemma filter_key_sort: "filter (\<lambda>x. k z = k x) (sort_key k xs) = filter (\<lambda>x. k z = k x) xs"
  using sort_key_stable [of k "k z" xs] by (simp add: eq_commute [of "k z"])

lemma sort_key_append_sorted: "sort_key k (sort_key k xs @ ys) = sort_key k (xs @ ys)"
  by (rule properties_for_sort_key) (simp_all add: filter_key_sort)

lemma map_sort_key:
  assumes "\<And>x. x \<in> set xs \<Longrightarrow> k x = g (f x)"
  shows "map f (sort_key k xs) = sort_key g (map f xs)"
proof (rule properties_for_sort_key [symmetric])
  show "filter (\<lambda>y. g z = g y) (map f (sort_key k xs)) = filter (\<lambda>y. g z = g y) (map f xs)"
    if z: "z \<in> set (map f (sort_key k xs))" for z
  proof -
    obtain x where x: "x \<in> set xs" "z = f x"
      using z by auto
    have key: "filter (\<lambda>y. g z = g (f y)) ys = filter (\<lambda>y. k x = k y) ys" if "set ys \<subseteq> set xs" for ys
      using that x assms by (intro filter_cong) auto
    show ?thesis
      by (simp add: filter_map o_def key filter_key_sort)
  qed
  have "map g (map f (sort_key k xs)) = map k (sort_key k xs)"
    using assms by simp
  then show "sorted (map g (map f (sort_key k xs)))"
    by (simp only: sorted_sort_key)
qed simp

section \<open>The simulation\<close>

text \<open>
  \<open>mails\<close> are the queued envelopes with their recipients in the order of their arrival, and the
  tables are their rows.
\<close>

definition encoded :: "(string, string) result \<Rightarrow> string" where
  "encoded r = (case r of Ok j \<Rightarrow> j | Err _ \<Rightarrow> [])"

definition mail_row :: "server_lib \<Rightarrow> string \<times> stored_envelope \<Rightarrow> queue_row" where
  "mail_row L m = \<lparr>q_id = se_id (snd m), q_recipient_id = fst m,
    q_envelope_json = encoded (stored_to_string L (snd m)),
    q_created_at_ms = claimed_time (snd m)\<rparr>"

definition stage_row :: "server_lib \<Rightarrow> string \<times> stored_envelope list \<times> int \<Rightarrow> string \<times> string \<times> int" where
  "stage_row L x = (case x of (t, es, at) \<Rightarrow>
    (t, encoded (stored_list_to_string L es), at))"

definition mailbox_of :: "(string \<times> stored_envelope) list \<Rightarrow> string \<Rightarrow> stored_envelope list" where
  "mailbox_of mails u = sort_key claimed_time (map snd (filter (\<lambda>m. fst m = u) mails))"

definition simulates ::
  "server_lib \<Rightarrow> string set \<Rightarrow> server_store \<Rightarrow> mailboxes \<Rightarrow> bool" where
  "simulates L used s q \<longleftrightarrow> \<not> rs_poisoned s \<and> (\<exists>mails stages.
      db_messages (rs_db s) = Some (map (mail_row L) mails)
    \<and> db_stages (rs_db s) = Some (map (stage_row L) stages)
    \<and> distinct (map (se_id \<circ> snd) mails) \<and> (se_id \<circ> snd) ` set mails \<subseteq> used
    \<and> distinct_keys stages
    \<and> boxes q = mailbox_of mails \<and> staged q = map_of stages)"

lemma rows_for_mails: "rows_for u (map (mail_row L) mails)
    = map (mail_row L) (sort_key (claimed_time \<circ> snd) (filter (\<lambda>m. fst m = u) mails))"
proof -
  have "map (mail_row L) (sort_key (claimed_time \<circ> snd) xs) = sort_key q_created_at_ms (map (mail_row L) xs)" for xs
    by (rule map_sort_key) (simp add: mail_row_def)
  then show ?thesis
    by (simp add: rows_for_def filter_map o_def) (simp add: mail_row_def)
qed

lemma mailbox_of_sorted: "mailbox_of mails u = map snd (sort_key (claimed_time \<circ> snd) (filter (\<lambda>m. fst m = u) mails))"
  unfolding mailbox_of_def by (rule map_sort_key [symmetric]) simp

lemma decode_rows:
  assumes "server_json_law L" "total_json L"
  shows "collect_ok (map (\<lambda>r. expect msg (stored_from_str L (q_envelope_json r))) (map (mail_row L) ms)) = Ok (map snd ms)"
proof (induction ms)
  case (Cons m ms)
  obtain j where "stored_to_string L (snd m) = Ok j"
    using assms(2) by (auto simp: total_json_def is_ok_iff)
  moreover from this have "stored_from_str L j = Ok (snd m)"
    using assms(1) unfolding server_json_law_def by blast
  ultimately show ?case
    using Cons.IH by (simp add: mail_row_def expect_def encoded_def)
qed simp

lemma drain_simulates:
  assumes "server_json_law L" "total_json L" "simulates L used s q"
  obtains s' where "drain L u s = (Ok (boxes q u), s')" "simulates L used s' (q\<lparr>boxes := (boxes q)(u := [])\<rparr>)"
proof -
  obtain mails stages where m: "\<not> rs_poisoned s" "db_messages (rs_db s) = Some (map (mail_row L) mails)"
    "db_stages (rs_db s) = Some (map (stage_row L) stages)" "distinct (map (se_id \<circ> snd) mails)"
    "(se_id \<circ> snd) ` set mails \<subseteq> used" "distinct_keys stages" "boxes q = mailbox_of mails" "staged q = map_of stages"
    using assms(3) unfolding simulates_def by blast
  let ?rest = "filter (\<lambda>m. fst m \<noteq> u) mails"
  let ?s = "s\<lparr>rs_db := (rs_db s)\<lparr>db_messages := Some (map (mail_row L) ?rest)\<rparr>\<rparr>"
  have "filter (\<lambda>r. q_recipient_id r \<noteq> u) (map (mail_row L) mails) = map (mail_row L) ?rest"
    by (simp add: filter_map o_def mail_row_def)
  then have d: "drain L u s = (Ok (boxes q u), ?s)"
    using m(1,2) by (simp add: drain_def locked_def rows_for_mails decode_rows [OF assms(1,2)] m(7) mailbox_of_sorted
        del: map_map)
  have "mailbox_of ?rest = (mailbox_of mails)(u := [])"
  proof
    fix v
    have "filter (\<lambda>m. fst m = v) ?rest = (if v = u then [] else filter (\<lambda>m. fst m = v) mails)"
      by (auto intro: filter_cong)
    then show "mailbox_of ?rest v = ((mailbox_of mails)(u := [])) v"
      by (simp add: mailbox_of_def)
  qed
  then have "simulates L used ?s (q\<lparr>boxes := (boxes q)(u := [])\<rparr>)"
    using m unfolding simulates_def
    by (intro conjI exI [of _ ?rest] exI [of _ stages]) (auto simp: distinct_map_filter)
  with d show ?thesis
    by (rule that)
qed

lemma mailbox_of_snoc:
  "mailbox_of (mails @ [(u, m)]) = (mailbox_of mails)(u := sort_key claimed_time (mailbox_of mails u @ [m]))"
  by (rule ext) (simp add: mailbox_of_def sort_key_append_sorted)

lemma submit_simulates:
  assumes "total_json L" "simulates L used s q" "i \<notin> used"
  obtains s' where "relay_exec L (Submit i e) s = (Ok (fst (spec_step (Submit i e) q)), s')"
    "simulates L (insert i used) s' (snd (spec_step (Submit i e) q))"
proof -
  obtain mails stages where m: "\<not> rs_poisoned s" "db_messages (rs_db s) = Some (map (mail_row L) mails)"
    "db_stages (rs_db s) = Some (map (stage_row L) stages)" "distinct (map (se_id \<circ> snd) mails)"
    "(se_id \<circ> snd) ` set mails \<subseteq> used" "distinct_keys stages" "boxes q = mailbox_of mails" "staged q = map_of stages"
    using assms(2) unfolding simulates_def by blast
  let ?m = "\<lparr>se_id = i, se_envelope = e\<rparr>" and ?u = "recipient_id e"
  let ?mails = "mails @ [(?u, ?m)]"
  let ?s = "s\<lparr>rs_db := (rs_db s)\<lparr>db_messages := Some (map (mail_row L) ?mails)\<rparr>\<rparr>"
  have ids: "q_id ` set (map (mail_row L) mails) = (se_id \<circ> snd) ` set mails"
    by (simp add: image_image mail_row_def)
  have fresh: "i \<notin> (se_id \<circ> snd) ` set mails"
    using m(5) assms(3) by blast
  obtain j where j: "stored_to_string L ?m = Ok j"
    using assms(1) by (auto simp: total_json_def is_ok_iff)
  have e: "enqueue L ?u ?m s = (Ok (), ?s)"
    using m(1,2) fresh unfolding ids [symmetric]
    by (simp add: enqueue_def expect_def j locked_def) (simp add: mail_row_def encoded_def j claimed_time_def)
  have "simulates L (insert i used) ?s (snd (spec_step (Submit i e) q))"
    unfolding simulates_def
  proof (intro conjI exI [of _ ?mails] exI [of _ stages])
    show "boxes (snd (spec_step (Submit i e) q)) = mailbox_of ?mails"
      by (simp add: Let_def mailbox_of_snoc m(7))
  qed (use m fresh in \<open>auto simp: Let_def\<close>)
  then show ?thesis
    by (intro that [of ?s]) (simp_all add: submit_message_def e respond_def Let_def)
qed

lemma delete_simulates:
  assumes "simulates L used s q"
  obtains s' where "relay_exec L (Delete u i) s = (Ok (fst (spec_step (Delete u i) q)), s')"
    "simulates L used s' (snd (spec_step (Delete u i) q))"
proof -
  obtain mails stages where m: "\<not> rs_poisoned s" "db_messages (rs_db s) = Some (map (mail_row L) mails)"
    "db_stages (rs_db s) = Some (map (stage_row L) stages)" "distinct (map (se_id \<circ> snd) mails)"
    "(se_id \<circ> snd) ` set mails \<subseteq> used" "distinct_keys stages" "boxes q = mailbox_of mails" "staged q = map_of stages"
    using assms unfolding simulates_def by blast
  let ?rest = "filter (\<lambda>m. \<not> (se_id (snd m) = i \<and> fst m = u)) mails"
  let ?s = "s\<lparr>rs_db := (rs_db s)\<lparr>db_messages := Some (map (mail_row L) ?rest)\<rparr>\<rparr>"
  have "filter (\<lambda>r. \<not> (q_id r = i \<and> q_recipient_id r = u)) (map (mail_row L) mails) = map (mail_row L) ?rest"
    by (simp add: filter_map o_def mail_row_def)
  moreover have hit: "(\<exists>r \<in> set (map (mail_row L) mails). q_id r = i \<and> q_recipient_id r = u)
      \<longleftrightarrow> i \<in> se_id ` set (boxes q u)"
    by (force simp: m(7) mailbox_of_def mail_row_def)
  ultimately have d: "delete_message u i s = (Ok (i \<in> se_id ` set (boxes q u)), ?s)"
    using m(1,2) by (simp add: delete_message_def locked_def Let_def)
  have "mailbox_of ?rest = (mailbox_of mails)(u := filter (\<lambda>m. se_id m \<noteq> i) (mailbox_of mails u))"
  proof
    fix v
    have "filter (\<lambda>m. fst m = v) ?rest = (if v = u then filter (\<lambda>m. se_id (snd m) \<noteq> i) (filter (\<lambda>m. fst m = u) mails)
        else filter (\<lambda>m. fst m = v) mails)"
      by (auto intro: filter_cong)
    then show "mailbox_of ?rest v
        = ((mailbox_of mails)(u := filter (\<lambda>m. se_id m \<noteq> i) (mailbox_of mails u))) v"
      by (simp add: mailbox_of_def filter_sort filter_map o_def)
  qed
  then have "simulates L used ?s (snd (spec_step (Delete u i) q))"
    using m unfolding simulates_def
    by (intro conjI exI [of _ ?rest] exI [of _ stages]) (auto simp: distinct_map_filter)
  then show ?thesis
    by (intro that [of ?s]) (simp_all add: handle_delete_message_def d respond_def)
qed

lemma stage_rows:
  "map_of (map (stage_row L) stages) t = map_option (\<lambda>(es, at). (encoded (stored_list_to_string L es), at)) (map_of stages t)"
  by (induction stages) (auto simp: stage_row_def)

lemma stage_row_keys: "keys (map (stage_row L) stages) = keys stages"
  by (induction stages) (auto simp: stage_row_def)

lemma update_stage_rows: "AList.update t (encoded (stored_list_to_string L es), at) (map (stage_row L) stages)
    = map (stage_row L) (AList.update t (es, at) stages)"
  by (induction stages) (auto simp: stage_row_def)

lemma delete_stage_rows: "AList.delete t (map (stage_row L) stages) = map (stage_row L) (AList.delete t stages)"
  by (induction stages) (auto simp: stage_row_def)

lemma stage_simulates:
  assumes "server_json_law L" "total_json L" "simulates L used s q" "0 \<le> wall"
  obtains s' where "relay_exec L (Stage wall t u) s = (Ok (fst (spec_step (Stage wall t u) q)), s')"
    "simulates L used s' (snd (spec_step (Stage wall t u) q))"
proof -
  obtain s1 where d: "drain L u s = (Ok (boxes q u), s1)" "simulates L used s1 (q\<lparr>boxes := (boxes q)(u := [])\<rparr>)"
    using drain_simulates [OF assms(1-3)] .
  obtain mails stages where m: "\<not> rs_poisoned s1" "db_messages (rs_db s1) = Some (map (mail_row L) mails)"
    "db_stages (rs_db s1) = Some (map (stage_row L) stages)" "distinct (map (se_id \<circ> snd) mails)"
    "(se_id \<circ> snd) ` set mails \<subseteq> used" "distinct_keys stages"
    "(boxes q)(u := []) = mailbox_of mails" "staged q = map_of stages"
    using d(2) unfolding simulates_def by auto
  let ?now = "unix_millis wall"
  let ?stale = "\<lambda>(at :: int). at < as_i64 (saturating_sub ?now PULL_STAGE_TTL_MS)"
  let ?kept = "filter (\<lambda>(t, es, at). \<not> ?stale at) stages"
  let ?stages = "AList.update t (boxes q u, as_i64 ?now) ?kept"
  let ?s = "s1\<lparr>rs_db := (rs_db s1)\<lparr>db_stages := Some (map (stage_row L) ?stages)\<rparr>\<rparr>"
  obtain j where j: "stored_list_to_string L (boxes q u) = Ok j"
    using assms(2) by (auto simp: total_json_def is_ok_iff)
  have kept: "filter (\<lambda>(t, j, at). \<not> ?stale at) (map (stage_row L) stages) = map (stage_row L) ?kept"
    by (simp add: filter_map o_def stage_row_def case_prod_unfold)
  have st: "stage_drained L wall t (boxes q u) s1 = (Ok (), ?s)"
    using m(1,3) assms(4) update_stage_rows [of t L "boxes q u" "as_i64 ?now" ?kept]
    by (simp add: stage_drained_def expect_def j relay_now_millis_def locked_def Let_def kept encoded_def)
  have "map_of ?stages x = staged (snd (spec_step (Stage wall t u) q)) x" for x
    using m(6) by (auto simp: map_of_filter_keys m(8) split: option.split)
  then have "staged (snd (spec_step (Stage wall t u) q)) = map_of ?stages"
    by (rule ext [symmetric])
  then have "simulates L used ?s (snd (spec_step (Stage wall t u) q))"
    using m unfolding simulates_def
    by (intro conjI exI [of _ mails] exI [of _ ?stages]) (auto simp: distinct_update)
  then show ?thesis
    by (intro that [of ?s]) (simp_all add: handle_stage_pull_def stage_pull_def d(1) st respond_def)
qed

lemma pull_simulates:
  assumes "server_json_law L" "total_json L" "simulates L used s q"
  obtains s' where "relay_exec L (Pull t) s = (Ok (fst (spec_step (Pull t) q)), s')"
    "simulates L used s' (snd (spec_step (Pull t) q))"
proof -
  obtain mails stages where m: "\<not> rs_poisoned s" "db_messages (rs_db s) = Some (map (mail_row L) mails)"
    "db_stages (rs_db s) = Some (map (stage_row L) stages)" "distinct (map (se_id \<circ> snd) mails)"
    "(se_id \<circ> snd) ` set mails \<subseteq> used" "distinct_keys stages" "boxes q = mailbox_of mails" "staged q = map_of stages"
    using assms(3) unfolding simulates_def by blast
  let ?s = "s\<lparr>rs_db := (rs_db s)\<lparr>db_stages := Some (map (stage_row L) (AList.delete t stages))\<rparr>\<rparr>"
  have "stored_list_from_str L (encoded (stored_list_to_string L es)) = Ok es" for es
  proof -
    obtain j where "stored_list_to_string L es = Ok j"
      using assms(2) by (auto simp: total_json_def is_ok_iff)
    then show ?thesis
      using assms(1) unfolding server_json_law_def by (simp add: encoded_def)
  qed
  then have f: "fetch_pull L t s = (Ok (map_option fst (staged q t)), ?s)"
    using m(1,3)
    by (simp add: fetch_pull_def locked_def Let_def stage_rows delete_stage_rows m(8) expect_def split: option.split)
  have "simulates L used ?s (snd (spec_step (Pull t) q))"
    using m unfolding simulates_def
    by (intro conjI exI [of _ mails] exI [of _ "AList.delete t stages"]) (auto simp: distinct_delete)
  then show ?thesis
    by (intro that [of ?s]) (auto simp: handle_fetch_pull_def f respond_def split: option.split)
qed

lemma relay_simulates:
  assumes "server_json_law L" "total_json L" "simulates L used s q" "clock_ok r" "set (submitted_ids [r]) \<inter> used = {}"
  obtains s' where "relay_exec L r s = (Ok (fst (spec_step r q)), s')"
    "simulates L (set (submitted_ids [r]) \<union> used) s' (snd (spec_step r q))"
proof (cases r)
  case (Submit i e)
  then have "i \<notin> used"
    using assms(5) by simp
  then obtain s' where "relay_exec L (Submit i e) s = (Ok (fst (spec_step (Submit i e) q)), s')"
    "simulates L (insert i used) s' (snd (spec_step (Submit i e) q))"
    using submit_simulates [OF assms(2,3)] by blast
  then show ?thesis
    by (intro that [of s']) (simp_all add: Submit del: spec_step.simps relay_exec.simps)
next
  case (Fetch u)
  obtain s' where d: "drain L u s = (Ok (boxes q u), s')" "simulates L used s' (q\<lparr>boxes := (boxes q)(u := [])\<rparr>)"
    using drain_simulates [OF assms(1-3)] .
  show ?thesis
    by (rule that [of s']) (simp_all add: Fetch fetch_messages_def respond_def d)
next
  case (Delete u i)
  obtain s' where "relay_exec L r s = (Ok (fst (spec_step r q)), s')" "simulates L used s' (snd (spec_step r q))"
    unfolding Delete using delete_simulates [OF assms(3)] .
  then show ?thesis
    by (intro that [of s']) (simp_all add: Delete del: spec_step.simps relay_exec.simps)
next
  case (Stage wall t u)
  have "0 \<le> wall"
    using assms(4) by (simp add: Stage)
  then obtain s' where "relay_exec L r s = (Ok (fst (spec_step r q)), s')" "simulates L used s' (snd (spec_step r q))"
    unfolding Stage using stage_simulates [OF assms(1-3)] by blast
  then show ?thesis
    by (intro that [of s']) (simp_all add: Stage del: spec_step.simps relay_exec.simps)
next
  case (Pull t)
  obtain s' where "relay_exec L r s = (Ok (fst (spec_step r q)), s')" "simulates L used s' (snd (spec_step r q))"
    unfolding Pull using pull_simulates [OF assms(1-3)] .
  then show ?thesis
    by (intro that [of s']) (simp_all add: Pull del: spec_step.simps relay_exec.simps)
qed

lemma submitted_ids_Cons: "submitted_ids (r # rs) = submitted_ids [r] @ submitted_ids rs"
  by (cases r) auto

lemma run_simulates:
  assumes "server_json_law L" "total_json L" "simulates L used s q" "list_all clock_ok rs"
    and "distinct (submitted_ids rs)" "set (submitted_ids rs) \<inter> used = {}"
  shows "relay_run L rs s = map Ok (spec_run rs q)"
  using assms(3-)
proof (induction rs arbitrary: used s q)
  case (Cons r rs)
  have now: "clock_ok r" "set (submitted_ids [r]) \<inter> used = {}"
    using Cons.prems by (auto simp: submitted_ids_Cons [of r rs])
  obtain s' where s': "relay_exec L r s = (Ok (fst (spec_step r q)), s')"
    "simulates L (set (submitted_ids [r]) \<union> used) s' (snd (spec_step r q))"
    using relay_simulates [OF assms(1,2) Cons.prems(1) now] .
  have "relay_run L rs s' = map Ok (spec_run rs (snd (spec_step r q)))"
    using Cons.prems by (intro Cons.IH [OF s'(2)]) (auto simp: submitted_ids_Cons [of r rs])
  then show ?case
    by (simp add: s'(1) case_prod_unfold Let_def)
qed simp

lemma new_relay_simulates:
  "relay_from_connection L root server new_relay_file key = Ok s \<Longrightarrow> simulates L {} s no_mail"
  unfolding simulates_def
  by (intro conjI exI [of _ "[]"])
    (auto simp: relay_from_connection_def relay_run_migrations_def new_relay_file_def created_def Let_def
      CURRENT_SCHEMA_VERSION_def no_mail_def mailbox_of_def and_then_Ok_iff)

section \<open>A total codec\<close>

text \<open>Texts that stand for any envelope, as the number of its fields' tuple.\<close>

definition envelope_fields :: "stored_envelope \<Rightarrow> _" where
  "envelope_fields e = (se_id e, sender_id (se_envelope e), recipient_id (se_envelope e),
     map unat (ciphertext (se_envelope e)), debug_envelope_type (env_type (se_envelope e)),
     unat (timestamp_ms (se_envelope e)), unat (version (se_envelope e)), sealed_sender (se_envelope e),
     map_option (map unat) (routing_hint (se_envelope e)), map_option unat (self_destruct_at (se_envelope e)),
     read_triggered_destruct (se_envelope e), map_option (map unat) (dead_drop_address (se_envelope e)))"

definition envelope_text :: "stored_envelope \<Rightarrow> string" where
  "envelope_text e = replicate (to_nat (envelope_fields e)) CHR ''x''"

definition envelopes_text :: "stored_envelope list \<Rightarrow> string" where
  "envelopes_text es = replicate (to_nat (map envelope_fields es)) CHR ''x''"

lemma map_unat_inject: "map unat xs = map unat ys \<longleftrightarrow> xs = (ys :: bytes)"
  by (rule inj_map_eq_map) (simp add: inj_on_def word_unat_eq_iff)

lemma option_map_unat_inject: "map_option (map unat) x = map_option (map unat) y \<longleftrightarrow> x = (y :: bytes option)"
  by (cases x; cases y) (simp_all add: map_unat_inject)

lemma option_unat_inject: "map_option unat x = map_option unat y \<longleftrightarrow> x = (y :: u64 option)"
  by (cases x; cases y) (simp_all add: word_unat_eq_iff)

lemma debug_envelope_type_inject: "debug_envelope_type a = debug_envelope_type b \<longleftrightarrow> a = b"
  by (cases a; cases b) simp_all

lemma inj_envelope_fields: "inj envelope_fields"
proof (rule injI)
  fix a b
  assume "envelope_fields a = envelope_fields b"
  then have "se_id a = se_id b" "se_envelope a = se_envelope b"
    unfolding envelope_fields_def prod.inject map_unat_inject option_map_unat_inject option_unat_inject
      debug_envelope_type_inject word_unat_eq_iff [symmetric]
    by (simp, elim conjE, intro message_envelope.equality) simp_all
  then show "a = b"
    by (intro stored_envelope.equality) simp_all
qed

lemma inj_envelope_text: "inj envelope_text"
  by (rule injI) (simp add: envelope_text_def inj_eq [OF inj_envelope_fields])

lemma inj_envelopes_text: "inj envelopes_text"
  by (rule injI) (simp add: envelopes_text_def inj_eq [OF inj_mapI [OF inj_envelope_fields]])

definition total_server :: server_lib where
  "total_server = toy_server\<lparr>stored_to_string := (\<lambda>e. Ok (envelope_text e)),
     stored_from_str := (\<lambda>s. Ok (inv envelope_text s)),
     stored_list_to_string := (\<lambda>es. Ok (envelopes_text es)),
     stored_list_from_str := (\<lambda>s. Ok (inv envelopes_text s))\<rparr>"

lemma total_server_laws: "server_json_law total_server" "total_json total_server"
  by (simp_all add: server_json_law_def total_json_def total_server_def toy_server_def
      inv_f_f [OF inj_envelope_text] inv_f_f [OF inj_envelopes_text])

lemma total_store_opened:
  "relay_from_connection total_server ([1], [2]) ([3], [4]) new_relay_file ''k'' = Ok toy_store"
  using toy_store_opened
  by (simp add: relay_from_connection_def total_server_def new_relay_file_def relay_run_migrations_def
      created_def expect_def CURRENT_SCHEMA_VERSION_def toy_server_def)

section \<open>Properties\<close>

text \<open>
  The relay refines its abstract mailboxes.  A relay opened on a new database answers every
  sequence of submits, fetches, deletes, staged pulls and pulls, in any order and for any
  users, exactly as the abstract machine does: a mailbox holds what was submitted to it and
  not yet handed out or deleted, sorted by claimed time and by arrival within it, a fetch or a
  staging empties it, and a stage is handed out once.  Message identifiers are drawn afresh.
\<close>

theorem relay_refines_mailboxes:
  assumes "server_json_law L" "total_json L" "relay_from_connection L root server new_relay_file key = Ok s"
    and "distinct (submitted_ids rs)" "list_all clock_ok rs"
  shows "relay_run L rs s = map Ok (spec_run rs no_mail)"
  using run_simulates [OF assms(1,2) new_relay_simulates [OF assms(3)] assms(5,4)] by simp

text \<open>Two mails queued out of order are staged sorted, pulled once, and gone from the mailbox.\<close>

theorem relay_refines_mailboxes_witness:
  "relay_run total_server [Submit ''1'' mail, Submit ''2'' (mail\<lparr>timestamp_ms := 3\<rparr>), Stage 0 ''t'' ''bob'',
       Pull ''t'', Pull ''t'', Fetch ''bob''] toy_store
   = map Ok [Response 201 (SubmittedBody True ''1''), Response 201 (SubmittedBody True ''2''),
       Response 202 (ApiOk True None),
       Response 200 (MessagesBody [\<lparr>se_id = ''2'', se_envelope = mail\<lparr>timestamp_ms := 3\<rparr>\<rparr>, stored_mail]),
       Response 200 (MessagesBody []), Response 200 (MessagesBody [])]"
  by (subst relay_refines_mailboxes [OF total_server_laws total_store_opened])
    (simp_all add: no_mail_def claimed_time_def as_i64_def mail_def stored_mail_def Let_def)

end
