(* ===== verification/Mix_Network.thy ===== *)
theory Mix_Network
  imports Mixnode Relay_Spec
begin

text \<open>
  The mix nodes and the relay put together: clients send and receive through
  \<open>protocol/src/transport.rs\<close>, the packets travel from node to node as the tasks of
  \<open>mixnode/src/mixing.rs\<close>, and the last node posts to the relay of \<open>server/src/routes.rs\<close>.  The
  requests of the HTTP client are the handlers of the node or the relay they are addressed to.
\<close>

section \<open>The network\<close>

text \<open>
  What all parts share: the Sphinx format, the relay's codecs and address, the encodings of the
  two payloads, how a path segment is decoded, and the wall clock at a monotonic instant.
\<close>

record net_env =
  ne_sphinx :: sphinx_lib
  ne_server :: server_lib
  ne_signal_text :: "signal_error \<Rightarrow> string"
  ne_relay_url :: string
  ne_segment :: "string \<Rightarrow> string option"
  ne_envelope_to_json :: "message_envelope \<Rightarrow> (bytes, string) result"
  ne_envelope_from_json :: "bytes \<Rightarrow> (message_envelope, string) result"
  ne_pull_to_json :: "pull_request \<Rightarrow> (bytes, string) result"
  ne_pull_from_json :: "bytes \<Rightarrow> (pull_request, string) result"
  ne_wall :: "duration \<Rightarrow> int"

text \<open>
  The tasks are those every node has spawned and not yet run, each with its node.
  \<open>mw_ids\<close> are the identifiers the relay draws, \<open>mw_accepted\<close> the envelopes it answered with 201.
\<close>

record mix_world =
  mw_now :: duration
  mw_nodes :: "(string \<times> node_state) list"
  mw_tasks :: "(string \<times> node_task) list"
  mw_relay :: server_store
  mw_ids :: "nat \<Rightarrow> string"
  mw_drawn :: nat
  mw_accepted :: "stored_envelope list"

section \<open>Requests\<close>

text \<open>A handler that panics closes the connection; a client reads the status and, if it wants, the messages.\<close>

definition relay_reply :: "relay_response or_panic \<Rightarrow> (http_response, string) result" where
  "relay_reply r = (case r of
     Err _ \<Rightarrow> Err ''connection closed''
   | Ok (Response code body) \<Rightarrow>
       Ok \<lparr>status = code, messages_json =
         (case body of MessagesBody ms \<Rightarrow> Ok (map se_envelope ms) | _ \<Rightarrow> Err ''missing field messages'')\<rparr>)"

definition unrouted :: "(http_response, string) result" where
  "unrouted = Ok \<lparr>status = 404, messages_json = Err ''EOF''\<rparr>"

definition with_relay ::
  "(server_store \<Rightarrow> handled) \<Rightarrow> mix_world \<Rightarrow> (http_response, string) result \<times> mix_world" where
  "with_relay f w = (let (r, s) = f (mw_relay w) in (relay_reply r, w\<lparr>mw_relay := s\<rparr>))"

definition path_segment :: "net_env \<Rightarrow> string \<Rightarrow> string \<Rightarrow> string option" where
  "path_segment N route url = Option.bind (strip_prefix (ne_relay_url N @ route) url) (ne_segment N)"

definition net_post_body :: "net_env \<Rightarrow> string \<Rightarrow> bytes \<Rightarrow> mix_world \<Rightarrow> (http_response, string) result \<times> mix_world" where
  "net_post_body N url body w =
    (case find (\<lambda>(a, _). packet_url a = url) (mw_nodes w) of
       None \<Rightarrow> (Err ''connection refused'', w)
     | Some (a, st) \<Rightarrow>
         let (resp, ts) = receive_packet (ne_sphinx N) (ne_signal_text N) (mw_now w) body st [] in
         (Ok \<lparr>status = node_status resp, messages_json = Err ''expected value''\<rparr>,
          w\<lparr>mw_tasks := mw_tasks w @ map (Pair a) ts\<rparr>))"

definition net_submit :: "net_env \<Rightarrow> string \<Rightarrow> message_envelope \<Rightarrow> mix_world \<Rightarrow> (http_response, string) result \<times> mix_world" where
  "net_submit N u e w =
    (let i = mw_ids w (mw_drawn w);
         (r, w') = with_relay (submit_message (ne_server N) i u e) (w\<lparr>mw_drawn := mw_drawn w + 1\<rparr>)
     in (r, case r of
         Ok resp \<Rightarrow> if status resp = 201 then w'\<lparr>mw_accepted := mw_accepted w' @ [\<lparr>se_id = i, se_envelope = e\<rparr>]\<rparr> else w'
       | Err _ \<Rightarrow> w'))"

definition net_post_json :: "net_env \<Rightarrow> string \<Rightarrow> message_envelope \<Rightarrow> mix_world \<Rightarrow> (http_response, string) result \<times> mix_world" where
  "net_post_json N url e w =
    (case path_segment N ''/v1/messages/'' url of
       None \<Rightarrow> (unrouted, w)
     | Some u \<Rightarrow> net_submit N u e w)"

definition net_post_pull :: "net_env \<Rightarrow> string \<Rightarrow> pull_request \<Rightarrow> mix_world \<Rightarrow> (http_response, string) result \<times> mix_world" where
  "net_post_pull N url request w =
    (if url = ne_relay_url N @ ''/v1/pulls''
     then with_relay (handle_stage_pull (ne_server N) (ne_wall N (mw_now w)) request) w
     else (unrouted, w))"

definition net_get :: "net_env \<Rightarrow> string \<Rightarrow> mix_world \<Rightarrow> (http_response, string) result \<times> mix_world" where
  "net_get N url w =
    (case path_segment N ''/v1/messages/'' url of
       Some u \<Rightarrow> with_relay (fetch_messages (ne_server N) u) w
     | None \<Rightarrow>
         (case path_segment N ''/v1/pulls/'' url of
            Some t \<Rightarrow> with_relay (handle_fetch_pull (ne_server N) t) w
          | None \<Rightarrow> (unrouted, w)))"

definition net_error_for_status :: "http_response \<Rightarrow> (http_response, string) result" where
  "net_error_for_status r =
    (if 400 \<le> status r then Err (''HTTP status '' @ dec (status r)) else Ok r)"

section \<open>Nodes and time\<close>

text \<open>The client of the nodes, which never waits between requests.\<close>

definition node_client :: "net_env \<Rightarrow> mix_world node_http" where
  "node_client N = \<lparr>post_json = net_post_json N, post_body = net_post_body N, http_get = net_get N,
     error_for_status = net_error_for_status, envelope_to_json = ne_envelope_to_json N,
     pull_to_json = ne_pull_to_json N, wait = (\<lambda>d w. w), post_pull_json = net_post_pull N,
     envelope_from_json = ne_envelope_from_json N, pull_from_json = ne_pull_from_json N\<rparr>"

text \<open>A task runs at its node once it is due; a node that is gone loses it.\<close>

definition run_node_task :: "net_env \<Rightarrow> string \<times> node_task \<Rightarrow> mix_world \<Rightarrow> mix_world" where
  "run_node_task N x w =
    (let w' = w\<lparr>mw_tasks := remove1 x (mw_tasks w)\<rparr> in
     case map_of (mw_nodes w) (fst x) of
       Some st \<Rightarrow> run_task (node_client N) st (action (snd x)) w'
     | None \<Rightarrow> w')"

text \<open>The passing of time up to an instant: the tasks due by then, the earliest first.\<close>

fun earliest :: "duration \<Rightarrow> (string \<times> node_task) list \<Rightarrow> (string \<times> node_task) option" where
  "earliest t [] = None"
| "earliest t (x # xs) =
    (case earliest t xs of
       Some y \<Rightarrow> if due (snd x) \<le> due (snd y) then Some x else Some y
     | None \<Rightarrow> if due (snd x) \<le> t then Some x else None)"

fun run_until :: "net_env \<Rightarrow> nat \<Rightarrow> duration \<Rightarrow> mix_world \<Rightarrow> mix_world" where
  "run_until N 0 t w = w\<lparr>mw_now := max t (mw_now w)\<rparr>"
| "run_until N (Suc k) t w =
    (case earliest t (mw_tasks w) of
       None \<Rightarrow> w\<lparr>mw_now := max t (mw_now w)\<rparr>
     | Some x \<Rightarrow> run_until N k t (run_node_task N x (w\<lparr>mw_now := max (due (snd x)) (mw_now w)\<rparr>)))"

text \<open>The client of the messaging app; \<open>fuel\<close> bounds the tasks that run while it waits.\<close>

definition app_client :: "net_env \<Rightarrow> nat \<Rightarrow> mix_world http" where
  "app_client N fuel = \<lparr>post_json = net_post_json N, post_body = net_post_body N, http_get = net_get N,
     error_for_status = net_error_for_status, envelope_to_json = ne_envelope_to_json N,
     pull_to_json = ne_pull_to_json N, wait = (\<lambda>d w. run_until N fuel (mw_now w + d) w)\<rparr>"

text \<open>
  Everything that can happen, in any order: time passes, a due task runs, and anyone makes any
  request to a node or to the relay.
\<close>

inductive mix_step :: "net_env \<Rightarrow> mix_world \<Rightarrow> mix_world \<Rightarrow> bool" for N where
  time_passes: "mix_step N w (w\<lparr>mw_now := mw_now w + d\<rparr>)"
| task_runs: "x \<in> set (mw_tasks w) \<Longrightarrow> due (snd x) \<le> mw_now w \<Longrightarrow> mix_step N w (run_node_task N x w)"
| packet_posted: "mix_step N w (snd (net_post_body N url body w))"
| message_posted: "mix_step N w (snd (net_post_json N url e w))"
| pull_posted: "mix_step N w (snd (net_post_pull N url request w))"
| something_fetched: "mix_step N w (snd (net_get N url w))"
| message_deleted: "mix_step N w (snd (with_relay (handle_delete_message u i) w))"

section \<open>Lemmas\<close>

lemma packet_url_inject [simp]: "packet_url a = packet_url b \<longleftrightarrow> a = b"
  by (simp add: packet_url_def)

lemma find_node [simp]: "find (\<lambda>(a, _). a = h) nodes = map_option (Pair h) (map_of nodes h)"
  by (induction nodes) auto

lemma path_segment_append [simp]: "path_segment N route (ne_relay_url N @ route @ u) = ne_segment N u"
  by (simp add: path_segment_def flip: append_assoc)

text \<open>The nodes know the relay, and the relay's tables are those of its mailboxes.\<close>

definition relay_ok :: "net_env \<Rightarrow> mix_world \<Rightarrow> bool" where
  "relay_ok N w \<longleftrightarrow> (\<exists>q. simulates (ne_server N) (mw_ids w ` {..<mw_drawn w}) (mw_relay w) q)"

definition net_ok :: "net_env \<Rightarrow> mix_world \<Rightarrow> bool" where
  "net_ok N w \<longleftrightarrow> server_json_law (ne_server N) \<and> total_json (ne_server N) \<and> (\<forall>t. 0 \<le> ne_wall N t)
    \<and> inj (mw_ids w) \<and> (\<forall>(a, st) \<in> set (mw_nodes w). ns_relay_base_url st = ne_relay_url N)
    \<and> relay_ok N w"

lemma simulates_mono: "simulates L used s q \<Longrightarrow> used \<subseteq> used' \<Longrightarrow> simulates L used' s q"
  unfolding simulates_def by blast

text \<open>A request at the relay is one of those of the abstract mailboxes, or changes nothing.\<close>

lemma with_relay_request:
  assumes "net_ok N w" "f (mw_relay w) = relay_exec (ne_server N) r (mw_relay w)" "clock_ok r" "submitted_ids [r] = []"
  shows "net_ok N (snd (with_relay f w))"
proof -
  obtain q where "simulates (ne_server N) (mw_ids w ` {..<mw_drawn w}) (mw_relay w) q"
    using assms(1) by (auto simp: net_ok_def relay_ok_def)
  then obtain s' where "relay_exec (ne_server N) r (mw_relay w) = (Ok (fst (spec_step r q)), s')"
    "simulates (ne_server N) (set (submitted_ids [r]) \<union> mw_ids w ` {..<mw_drawn w}) s' (snd (spec_step r q))"
    using relay_simulates [of "ne_server N" "mw_ids w ` {..<mw_drawn w}" "mw_relay w" q r] assms
    unfolding net_ok_def by auto
  then show ?thesis
    using assms(1,2,4) by (auto simp: with_relay_def net_ok_def relay_ok_def)
qed

lemma net_submit_accepts:
  assumes "net_ok N w"
  shows "net_ok N (snd (net_submit N (recipient_id e) e w))"
    "mw_accepted (snd (net_submit N (recipient_id e) e w)) = mw_accepted w @ [\<lparr>se_id = mw_ids w (mw_drawn w), se_envelope = e\<rparr>]"
    "fst (net_submit N (recipient_id e) e w) = Ok \<lparr>status = 201, messages_json = Err ''missing field messages''\<rparr>"
proof -
  let ?i = "mw_ids w (mw_drawn w)"
  obtain q where q: "simulates (ne_server N) (mw_ids w ` {..<mw_drawn w}) (mw_relay w) q"
    using assms by (auto simp: net_ok_def relay_ok_def)
  have "?i \<notin> mw_ids w ` {..<mw_drawn w}"
    using assms by (auto simp: net_ok_def inj_eq)
  then obtain s' where s': "relay_exec (ne_server N) (Submit ?i e) (mw_relay w) = (Ok (Response 201 (SubmittedBody True ?i)), s')"
    "simulates (ne_server N) (insert ?i (mw_ids w ` {..<mw_drawn w})) s' (snd (spec_step (Submit ?i e) q))"
    using submit_simulates [of "ne_server N" _ "mw_relay w" q ?i e] q assms
    unfolding net_ok_def by (auto simp: Let_def)
  then have r: "net_submit N (recipient_id e) e w = (Ok \<lparr>status = 201, messages_json = Err ''missing field messages''\<rparr>,
      w\<lparr>mw_drawn := mw_drawn w + 1, mw_relay := s', mw_accepted := mw_accepted w @ [\<lparr>se_id = ?i, se_envelope = e\<rparr>]\<rparr>)"
    by (simp add: net_submit_def with_relay_def relay_reply_def)
  have "mw_ids w ` {..<mw_drawn w + 1} = insert ?i (mw_ids w ` {..<mw_drawn w})"
    by (simp add: lessThan_Suc)
  then show "net_ok N (snd (net_submit N (recipient_id e) e w))"
    using s'(2) assms by (auto simp: r net_ok_def relay_ok_def)
  show "mw_accepted (snd (net_submit N (recipient_id e) e w)) = mw_accepted w @ [\<lparr>se_id = ?i, se_envelope = e\<rparr>]"
    "fst (net_submit N (recipient_id e) e w) = Ok \<lparr>status = 201, messages_json = Err ''missing field messages''\<rparr>"
    by (simp_all add: r)
qed

lemma net_submit_ok:
  assumes "net_ok N w"
  shows "net_ok N (snd (net_submit N u e w))"
proof (cases "recipient_id e = u")
  case True
  then show ?thesis
    using net_submit_accepts(1) [OF assms, of e] by simp
next
  case False
  then have "snd (net_submit N u e w) = w\<lparr>mw_drawn := mw_drawn w + 1\<rparr>"
    by (simp add: net_submit_def with_relay_def submit_message_def relay_reply_def)
  moreover have "simulates L (mw_ids w ` {..<mw_drawn w + 1}) s q" if "simulates L (mw_ids w ` {..<mw_drawn w}) s q" for L s q
    using simulates_mono [OF that] by (auto simp: lessThan_Suc)
  ultimately show ?thesis
    using assms by (auto simp: net_ok_def relay_ok_def)
qed

text \<open>No request loses a task or an accepted envelope, and the relay stays in order.\<close>

definition grows :: "net_env \<Rightarrow> mix_world \<Rightarrow> mix_world \<Rightarrow> bool" where
  "grows N w w' \<longleftrightarrow> net_ok N w' \<and> mw_nodes w' = mw_nodes w
    \<and> set (mw_tasks w) \<subseteq> set (mw_tasks w') \<and> set (mw_accepted w) \<subseteq> set (mw_accepted w')"

lemma grows_refl: "net_ok N w \<Longrightarrow> grows N w w"
  by (simp add: grows_def)

lemma with_relay_same [simp]: "mw_nodes (snd (with_relay f w)) = mw_nodes w" "mw_tasks (snd (with_relay f w)) = mw_tasks w"
  "mw_accepted (snd (with_relay f w)) = mw_accepted w" "mw_now (snd (with_relay f w)) = mw_now w"
  by (simp_all add: with_relay_def case_prod_unfold Let_def)

lemma net_submit_same: "mw_nodes (snd (net_submit N u e w)) = mw_nodes w" "mw_tasks (snd (net_submit N u e w)) = mw_tasks w"
  "mw_now (snd (net_submit N u e w)) = mw_now w" "set (mw_accepted w) \<subseteq> set (mw_accepted (snd (net_submit N u e w)))"
  by (auto simp: net_submit_def with_relay_def case_prod_unfold Let_def split: result.split)

lemma grows_with_relay:
  assumes "net_ok N w" "f (mw_relay w) = relay_exec (ne_server N) r (mw_relay w)" "clock_ok r" "submitted_ids [r] = []"
  shows "grows N w (snd (with_relay f w))"
  using with_relay_request [of N w f r] assms by (simp add: grows_def)

lemma grows_post_json: "net_ok N w \<Longrightarrow> grows N w (snd (net_post_json N url e w))"
  by (auto simp: net_post_json_def grows_refl grows_def net_submit_ok net_submit_same split: option.split)

lemma grows_post_pull: "net_ok N w \<Longrightarrow> grows N w (snd (net_post_pull N url request w))"
proof -
  assume ok: "net_ok N w"
  have "grows N w (snd (with_relay (handle_stage_pull (ne_server N) (ne_wall N (mw_now w)) request) w))"
    using ok by (cases request) (intro grows_with_relay [of _ _ _
          "Stage (ne_wall N (mw_now w)) (rendezvous_token request) (pull_recipient_id request)"], simp_all add: net_ok_def)
  then show ?thesis
    using ok by (simp add: net_post_pull_def grows_refl)
qed

lemma grows_get: "net_ok N w \<Longrightarrow> grows N w (snd (net_get N url w))"
  using grows_with_relay [of N w "fetch_messages (ne_server N) u" "Fetch u" for u]
    grows_with_relay [of N w "handle_fetch_pull (ne_server N) t" "Pull t" for t]
  by (auto simp: net_get_def grows_refl split: option.split)

lemma grows_delete: "net_ok N w \<Longrightarrow> grows N w (snd (with_relay (handle_delete_message u i) w))"
  by (rule grows_with_relay [of _ _ _ "Delete u i"]) simp_all

lemma net_ok_tasks [simp]: "net_ok N (w\<lparr>mw_tasks := ts\<rparr>) = net_ok N w" "net_ok N (w\<lparr>mw_now := t\<rparr>) = net_ok N w"
  by (simp_all add: net_ok_def relay_ok_def)

lemma grows_post_body: "net_ok N w \<Longrightarrow> grows N w (snd (net_post_body N url body w))"
  by (auto simp: net_post_body_def grows_def case_prod_unfold Let_def split: option.split)

lemma grows_run_task: "net_ok N w \<Longrightarrow> grows N w (run_task (node_client N) st oc w)"
  by (auto simp: run_task_def forward_packet_def deliver_def node_stage_pull_def node_client_def
      grows_post_body grows_post_json grows_post_pull grows_refl split: unwrap_outcome.split result.split)

text \<open>
  A task is on its way to an outcome when running it hands the packet to the next node, and so
  on, until the last node's task is that outcome.
\<close>

fun on_way :: "sphinx_lib \<Rightarrow> (string \<Rightarrow> bytes option) \<Rightarrow> nat \<Rightarrow> unwrap_outcome \<Rightarrow> unwrap_outcome \<Rightarrow> bool" where
  "on_way S sec 0 oc final \<longleftrightarrow> oc = final"
| "on_way S sec (Suc n) oc final \<longleftrightarrow> (\<exists>h d b s oc'. oc = Forward h d b \<and> sec h = Some s
    \<and> process_packet S b s = Ok oc' \<and> on_way S sec n oc' final)"

lemma travel_on_way:
  assumes "travel S sec k host bs = Some (hosts, out)"
  shows "hosts \<noteq> [] \<and> (\<exists>s oc. sec host = Some s \<and> process_packet S bs s = Ok oc \<and> on_way S sec (length hosts - 1) oc out)"
  using assms
proof (induction S sec k host bs arbitrary: hosts rule: travel.induct)
  case (2 S sec n host bs)
  then obtain s oc where s: "sec host = Some s" "process_packet S bs s = Ok oc"
    by (auto split: option.splits result.splits)
  show ?case
  proof (cases oc)
    case (Forward h d b)
    with 2(2) s obtain hs where hs: "travel S sec n h b = Some (hs, out)" "hosts = host # hs"
      by auto
    have "hs \<noteq> [] \<and> (\<exists>s oc. sec h = Some s \<and> process_packet S b s = Ok oc \<and> on_way S sec (length hs - 1) oc out)"
      using 2(1) [OF s(1) s(2)] hs(1) Forward by simp
    then show ?thesis
      using s hs(2) Forward by (cases hs) auto
  qed (use 2(2) s in auto)
qed simp

definition node_secrets :: "mix_world \<Rightarrow> string \<Rightarrow> bytes option" where
  "node_secrets w h = map_option ns_secret_key (map_of (mw_nodes w) h)"

lemma node_secrets_update [simp]: "node_secrets (w\<lparr>mw_tasks := ts\<rparr>) = node_secrets w"
  "node_secrets (w\<lparr>mw_now := t\<rparr>) = node_secrets w"
  by (simp_all add: fun_eq_iff node_secrets_def)

text \<open>The envelope has a task on its way to the relay, or the relay has accepted it.\<close>

definition in_transit :: "net_env \<Rightarrow> bytes \<Rightarrow> mix_world \<Rightarrow> bool" where
  "in_transit N bs w \<longleftrightarrow> (\<exists>x \<in> set (mw_tasks w). map_of (mw_nodes w) (fst x) \<noteq> None
    \<and> (\<exists>n. on_way (ne_sphinx N) (node_secrets w) n (action (snd x)) (Deliver bs)))"

definition delivered :: "message_envelope \<Rightarrow> mix_world \<Rightarrow> bool" where
  "delivered e w \<longleftrightarrow> e \<in> se_envelope ` set (mw_accepted w)"

lemma in_transit_grows: "grows N w w' \<Longrightarrow> in_transit N bs w \<Longrightarrow> in_transit N bs w'"
proof -
  assume g: "grows N w w'" and t: "in_transit N bs w"
  have "node_secrets w' = node_secrets w" "mw_nodes w' = mw_nodes w" "set (mw_tasks w) \<subseteq> set (mw_tasks w')"
    using g by (auto simp: grows_def node_secrets_def)
  then show "in_transit N bs w'"
    using t unfolding in_transit_def by auto
qed

lemma delivered_grows: "grows N w w' \<Longrightarrow> delivered e w \<Longrightarrow> delivered e w'"
  by (auto simp: grows_def delivered_def)

lemma net_post_packet:
  assumes "map_of (mw_nodes w) h = Some st" "process_packet (ne_sphinx N) b (ns_secret_key st) = Ok oc"
  shows "net_post_body N (packet_url h) b w = (Ok \<lparr>status = 202, messages_json = Err ''expected value''\<rparr>,
    w\<lparr>mw_tasks := mw_tasks w @ map (Pair h) (schedule (mw_now w) oc [])\<rparr>)"
  using assms by (simp add: net_post_body_def receive_packet_def)

text \<open>One more hop, or the delivery.\<close>

lemma task_moves_on:
  assumes "net_ok N w" "map_of (mw_nodes w) (fst x) = Some st" "x \<in> set (mw_tasks w)"
    and "on_way (ne_sphinx N) (node_secrets w) n (action (snd x)) (Deliver bs)"
    and "ne_envelope_from_json N bs = Ok e" "ne_segment N (recipient_id e) = Some (recipient_id e)"
  shows "if n = 0
    then mw_tasks (run_node_task N x w) = remove1 x (mw_tasks w) \<and> delivered e (run_node_task N x w)
    else \<exists>h oc. run_node_task N x w = w\<lparr>mw_tasks := remove1 x (mw_tasks w) @ map (Pair h) (schedule (mw_now w) oc [])\<rparr>
      \<and> map_of (mw_nodes w) h \<noteq> None \<and> on_way (ne_sphinx N) (node_secrets w) (n - 1) oc (Deliver bs)"
proof (cases n)
  case 0
  let ?w = "w\<lparr>mw_tasks := remove1 x (mw_tasks w)\<rparr>"
  have ok: "net_ok N ?w"
    using assms(1) by simp
  have url: "ns_relay_base_url st = ne_relay_url N"
    using assms(1,2) map_of_SomeD by (fastforce simp: net_ok_def)
  have "run_node_task N x w = snd (net_submit N (recipient_id e) e ?w)"
    using 0 assms(2,4-6)
    by (simp add: run_node_task_def run_task_def deliver_def node_client_def net_post_json_def url path_segment_append
        del: append.simps append_Cons)
  then show ?thesis
    using 0 net_submit_accepts(2) [OF ok, of e] net_submit_same(2) [of N "recipient_id e" e ?w]
    by (simp add: delivered_def)
next
  case (Suc m)
  then obtain h d b s oc where *: "action (snd x) = Forward h d b" "node_secrets w h = Some s"
    "process_packet (ne_sphinx N) b s = Ok oc" "on_way (ne_sphinx N) (node_secrets w) m oc (Deliver bs)"
    using assms(4) by auto
  then obtain st' where st': "map_of (mw_nodes w) h = Some st'" "s = ns_secret_key st'"
    by (auto simp: node_secrets_def)
  let ?w = "w\<lparr>mw_tasks := remove1 x (mw_tasks w)\<rparr>"
  have "run_node_task N x w = snd (net_post_body N (packet_url h) b ?w)"
    using assms(2) *(1) by (simp add: run_node_task_def run_task_def forward_packet_def node_client_def packet_url_def)
  also have "\<dots> = ?w\<lparr>mw_tasks := mw_tasks ?w @ map (Pair h) (schedule (mw_now ?w) oc [])\<rparr>"
    using net_post_packet [of ?w h st' N b oc] st' *(3) by simp
  finally show ?thesis
    using Suc st'(1) *(4) by auto
qed

text \<open>The nodes of a topology run with the keys it lists, under addresses that are valid text.\<close>

definition topology_ok :: "net_env \<Rightarrow> mix_node list \<Rightarrow> mix_world \<Rightarrow> bool" where
  "topology_ok N nodes w \<longleftrightarrow> (\<forall>d \<in> set nodes. valid_utf8 (utf8 (node_address d))
    \<and> (\<exists>s. node_secrets w (node_address d) = Some s \<and> node_public_key d = x25519_public (ne_sphinx N) s))"

text \<open>A packet that was posted is a task of its first node, on its way to what its tag says.\<close>

lemma packet_enters:
  assumes "sphinx_law (ne_sphinx N)" "topology_ok N path w"
    and "build_packet_to (ne_sphinx N) delays payload path avg sz tag = Ok packet" "outcome_for tag payload = Some out"
  obtains oc where "map_of (mw_nodes w) (node_address (hd path)) \<noteq> None"
    "on_way (ne_sphinx N) (node_secrets w) (length path - 1) oc out"
    "net_post_body N (packet_url (node_address (hd path))) packet w = (Ok \<lparr>status = 202, messages_json = Err ''expected value''\<rparr>,
      w\<lparr>mw_tasks := mw_tasks w @ map (Pair (node_address (hd path))) (schedule (mw_now w) oc [])\<rparr>)"
    "\<exists>s. node_secrets w (node_address (hd path)) = Some s \<and> process_packet (ne_sphinx N) packet s = Ok oc"
proof -
  have "travel (ne_sphinx N) (node_secrets w) (length path) (node_address (hd path)) packet = Some (map node_address path, out)"
    using packet_travels [OF assms(1,3), of "node_secrets w" out] assms(2,4) unfolding topology_ok_def by blast
  then obtain s oc where s: "node_secrets w (node_address (hd path)) = Some s"
    "process_packet (ne_sphinx N) packet s = Ok oc" "on_way (ne_sphinx N) (node_secrets w) (length path - 1) oc out"
    using travel_on_way by fastforce
  then obtain st where "map_of (mw_nodes w) (node_address (hd path)) = Some st" "s = ns_secret_key st"
    by (auto simp: node_secrets_def)
  with s show ?thesis
    by (intro that [of oc]) (auto intro: net_post_packet)
qed

lemma topology_ok_subset: "topology_ok N nodes w \<Longrightarrow> set path \<subseteq> set nodes \<Longrightarrow> topology_ok N path w"
  by (auto simp: topology_ok_def)

lemma choose_path_subset:
  assumes "choose_path pick nodes n = Ok path" "\<And>xs k. set (pick xs k) \<subseteq> set xs"
  shows "set path \<subseteq> set nodes"
  using assms by (auto simp: choose_path_def split: if_splits)

lemma app_client_fields [simp]: "envelope_to_json (app_client N k) = ne_envelope_to_json N"
  "pull_to_json (app_client N k) = ne_pull_to_json N" "post_body (app_client N k) = net_post_body N"
  "http_get (app_client N k) = net_get N" "error_for_status (app_client N k) = net_error_for_status"
  "wait (app_client N k) d w = run_until N k (mw_now w + d) w"
  by (simp_all add: app_client_def)

lemma accepted_202 [simp]: "net_error_for_status \<lparr>status = 202, messages_json = m\<rparr> = Ok \<lparr>status = 202, messages_json = m\<rparr>"
  by (simp add: net_error_for_status_def)

lemma mix_send_succeeds:
  assumes "sphinx_law (ne_sphinx N)" "topology_ok N (topology t) w" "\<And>xs k. set (pick_path R xs k) \<subseteq> set xs"
    and "choose_path (pick_path R) (topology t) (path_length t) = Ok path" "ne_envelope_to_json N e = Ok bs"
    and "build_packet (ne_sphinx N) (draw_delays R) bs path (avg_delay t) (payload_size t) = Ok packet"
  shows "\<exists>w'. mix_send (app_client N k) (ne_sphinx N) R t e w = (Ok (), w')"
proof -
  have tp: "topology_ok N path w"
    using topology_ok_subset [OF assms(2) choose_path_subset [OF assms(4,3)]] .
  have "outcome_for RELAY_DESTINATION_TAG bs = Some (Deliver bs)"
    by simp
  then obtain w' where "net_post_body N (packet_url (node_address (hd path))) packet w
      = (Ok \<lparr>status = 202, messages_json = Err ''expected value''\<rparr>, w')"
    using packet_enters [OF assms(1) tp assms(6) [unfolded build_packet_def]] by blast
  then show ?thesis
    by (simp add: mix_send_def assms(4-6) post_first_hop_def)
qed

lemma mix_send_enters:
  assumes "sphinx_law (ne_sphinx N)" "topology_ok N (topology t) w" "\<And>xs k. set (pick_path R xs k) \<subseteq> set xs"
    and "mix_send (app_client N k) (ne_sphinx N) R t e w = (Ok (), w')"
  obtains bs h oc n where "ne_envelope_to_json N e = Ok bs" "map_of (mw_nodes w) h \<noteq> None"
    "on_way (ne_sphinx N) (node_secrets w) n oc (Deliver bs)"
    "w' = w\<lparr>mw_tasks := mw_tasks w @ map (Pair h) (schedule (mw_now w) oc [])\<rparr>"
proof -
  obtain path bs packet where *: "choose_path (pick_path R) (topology t) (path_length t) = Ok path"
    "ne_envelope_to_json N e = Ok bs"
    "build_packet_to (ne_sphinx N) (draw_delays R) bs path (avg_delay t) (payload_size t) RELAY_DESTINATION_TAG = Ok packet"
    using assms(4) by (auto simp: mix_send_def build_packet_def and_then_Ok_iff split: result.splits)
  have tp: "topology_ok N path w"
    using topology_ok_subset [OF assms(2) choose_path_subset [OF *(1) assms(3)]] .
  have "outcome_for RELAY_DESTINATION_TAG bs = Some (Deliver bs)"
    by simp
  then obtain oc where oc: "map_of (mw_nodes w) (node_address (hd path)) \<noteq> None"
    "on_way (ne_sphinx N) (node_secrets w) (length path - 1) oc (Deliver bs)"
    "net_post_body N (packet_url (node_address (hd path))) packet w = (Ok \<lparr>status = 202, messages_json = Err ''expected value''\<rparr>,
      w\<lparr>mw_tasks := mw_tasks w @ map (Pair (node_address (hd path))) (schedule (mw_now w) oc [])\<rparr>)"
    using packet_enters [OF assms(1) tp *(3)] by blast
  have "w' = w\<lparr>mw_tasks := mw_tasks w @ map (Pair (node_address (hd path))) (schedule (mw_now w) oc [])\<rparr>"
    using assms(4) by (simp add: mix_send_def * build_packet_def post_first_hop_def oc(3))
  then show ?thesis
    by (rule that [OF *(2) oc(1,2)])
qed

text \<open>Whatever happens, the envelope stays in transit until the relay has accepted it.\<close>

lemma remove1_stays: "x \<in> set xs \<Longrightarrow> x \<noteq> y \<Longrightarrow> x \<in> set (remove1 y xs)"
  by (induction xs) auto

lemma grows_run_node_task:
  assumes "net_ok N w"
  shows "grows N (w\<lparr>mw_tasks := remove1 x (mw_tasks w)\<rparr>) (run_node_task N x w)"
  using assms by (auto simp: run_node_task_def Let_def grows_run_task grows_refl split: option.split)

lemma transit_step:
  assumes "mix_step N w w'" "net_ok N w" "in_transit N bs w \<or> delivered e w"
    and "ne_envelope_from_json N bs = Ok e" "ne_segment N (recipient_id e) = Some (recipient_id e)"
  shows "net_ok N w' \<and> (in_transit N bs w' \<or> delivered e w')"
proof -
  have grown: "net_ok N w2 \<and> (in_transit N bs w2 \<or> delivered e w2)"
    if "grows N w1 w2" "in_transit N bs w1 \<or> delivered e w1" for w1 w2
    using that in_transit_grows delivered_grows by (auto simp: grows_def)
  from assms(1) show ?thesis
  proof (cases rule: mix_step.cases)
    case (time_passes d)
    then show ?thesis
      using assms(2,3) by (simp add: in_transit_def delivered_def node_secrets_def)
  next
    case (task_runs x)
    let ?w = "w\<lparr>mw_tasks := remove1 x (mw_tasks w)\<rparr>"
    note g = grows_run_node_task [OF assms(2), of x]
    show ?thesis
    proof (cases "in_transit N bs ?w \<or> delivered e w")
      case True
      then show ?thesis
        unfolding task_runs(1) by (intro grown [OF g]) (simp add: delivered_def)
    next
      case False
      then obtain y n where y: "y \<in> set (mw_tasks w)" "map_of (mw_nodes w) (fst y) \<noteq> None"
        "on_way (ne_sphinx N) (node_secrets w) n (action (snd y)) (Deliver bs)"
        using assms(3) by (auto simp: in_transit_def)
      have "y = x"
      proof (rule ccontr)
        assume "y \<noteq> x"
        then have "in_transit N bs ?w"
          using y remove1_stays [OF y(1)] unfolding in_transit_def by auto
        with False show False by blast
      qed
      then obtain st where "map_of (mw_nodes w) (fst x) = Some st"
        using y(2) by auto
      note moved = task_moves_on [OF assms(2) this _ _ assms(4,5)]
      have "in_transit N bs w' \<or> delivered e w'"
        using moved [of n] y unfolding \<open>y = x\<close> task_runs(1)
        by (cases n) (auto simp: in_transit_def node_secrets_def schedule_def)
      then show ?thesis
        using g unfolding task_runs(1) by (simp add: grows_def)
    qed
  next
    case (packet_posted url body)
    then show ?thesis using grown [OF grows_post_body [OF assms(2)] assms(3)] by simp
  next
    case (message_posted url e')
    then show ?thesis using grown [OF grows_post_json [OF assms(2)] assms(3)] by simp
  next
    case (pull_posted url request)
    then show ?thesis using grown [OF grows_post_pull [OF assms(2)] assms(3)] by simp
  next
    case (something_fetched url)
    then show ?thesis using grown [OF grows_get [OF assms(2)] assms(3)] by simp
  next
    case (message_deleted u i)
    then show ?thesis using grown [OF grows_delete [OF assms(2)] assms(3)] by simp
  qed
qed

lemma transit_run:
  assumes "(mix_step N)\<^sup>*\<^sup>* w w'" "net_ok N w" "in_transit N bs w \<or> delivered e w"
    and "ne_envelope_from_json N bs = Ok e" "ne_segment N (recipient_id e) = Some (recipient_id e)"
  shows "net_ok N w' \<and> (in_transit N bs w' \<or> delivered e w')"
  using assms by (induction rule: rtranclp_induct) (auto dest: transit_step)

section \<open>The time a packet takes\<close>

text \<open>The delays the nodes of its path put before handing it on, as the packet tells them.\<close>

fun trip_time :: "sphinx_lib \<Rightarrow> (string \<Rightarrow> bytes option) \<Rightarrow> nat \<Rightarrow> string \<Rightarrow> bytes \<Rightarrow> duration" where
  "trip_time S sec 0 host bs = 0"
| "trip_time S sec (Suc n) host bs =
    (case sec host of
       None \<Rightarrow> 0
     | Some s \<Rightarrow>
         (case process_packet S bs s of
            Ok (Forward h d b) \<Rightarrow> d + trip_time S sec n h b
          | _ \<Rightarrow> 0))"

text \<open>The same for a task that was just scheduled.\<close>

fun task_time :: "sphinx_lib \<Rightarrow> (string \<Rightarrow> bytes option) \<Rightarrow> nat \<Rightarrow> unwrap_outcome \<Rightarrow> duration" where
  "task_time S sec n (Forward h d b) = d + trip_time S sec n h b"
| "task_time S sec n _ = 0"

lemma trip_task_time:
  "sec host = Some s \<Longrightarrow> process_packet S bs s = Ok oc \<Longrightarrow> trip_time S sec (Suc n) host bs = task_time S sec n oc"
  by (cases oc) simp_all

definition last_hop :: "unwrap_outcome \<Rightarrow> bool" where
  "last_hop oc \<longleftrightarrow> (\<nexists>h d b. oc = Forward h d b)"

text \<open>
  In a network with no other task the packet makes its way within that time; what its last node
  does then is \<open>final\<close>.
\<close>

definition first_due :: "duration \<Rightarrow> unwrap_outcome \<Rightarrow> duration" where
  "first_due t0 oc = (case oc of Forward _ d _ \<Rightarrow> t0 + d | _ \<Rightarrow> t0)"

lemma schedule_alone: "schedule t0 oc [] = [\<lparr>due = first_due t0 oc, action = oc\<rparr>]"
  by (simp add: schedule_def first_due_def)

lemma last_hop_time: "last_hop oc \<Longrightarrow> task_time S sec n oc = 0 \<and> first_due t0 oc = t0"
  by (cases oc) (simp_all add: last_hop_def first_due_def)

text \<open>A world whose only task was scheduled at \<open>t0\<close> and is \<open>n\<close> hops away from its final outcome.\<close>

definition lone_packet :: "net_env \<Rightarrow> mix_world \<Rightarrow> nat \<Rightarrow> string \<Rightarrow> duration \<Rightarrow> unwrap_outcome \<Rightarrow> unwrap_outcome \<Rightarrow> bool" where
  "lone_packet N w n h t0 oc final \<longleftrightarrow> mw_tasks w = [(h, \<lparr>due = first_due t0 oc, action = oc\<rparr>)]
    \<and> map_of (mw_nodes w) h \<noteq> None \<and> mw_now w \<le> first_due t0 oc
    \<and> on_way (ne_sphinx N) (node_secrets w) n oc final \<and> last_hop final"

lemma lone_packet_hop:
  assumes "lone_packet N w (Suc n) h t0 oc final"
  obtains g oc' where "lone_packet N (w\<lparr>mw_now := first_due t0 oc, mw_tasks := [(g, \<lparr>due = first_due (first_due t0 oc) oc', action = oc'\<rparr>)]\<rparr>)
      n g (first_due t0 oc) oc' final"
    "run_node_task N (h, \<lparr>due = first_due t0 oc, action = oc\<rparr>) (w\<lparr>mw_now := first_due t0 oc\<rparr>)
      = w\<lparr>mw_now := first_due t0 oc, mw_tasks := [(g, \<lparr>due = first_due (first_due t0 oc) oc', action = oc'\<rparr>)]\<rparr>"
    "t0 + task_time (ne_sphinx N) (node_secrets w) (Suc n) oc
      = first_due t0 oc + task_time (ne_sphinx N) (node_secrets w) n oc'"
proof -
  obtain g d b s oc' st where *: "oc = Forward g d b" "node_secrets w g = Some s"
    "process_packet (ne_sphinx N) b s = Ok oc'" "on_way (ne_sphinx N) (node_secrets w) n oc' final"
    "map_of (mw_nodes w) h = Some st"
    using assms by (auto simp: lone_packet_def)
  then obtain st' where st': "map_of (mw_nodes w) g = Some st'" "s = ns_secret_key st'"
    by (auto simp: node_secrets_def)
  let ?t = "first_due t0 oc"
  let ?w = "w\<lparr>mw_now := ?t, mw_tasks := []\<rparr>"
  let ?w' = "w\<lparr>mw_now := ?t, mw_tasks := [(g, \<lparr>due = first_due ?t oc', action = oc'\<rparr>)]\<rparr>"
  have post: "net_post_body N (packet_url g) b ?w = (Ok \<lparr>status = 202, messages_json = Err ''expected value''\<rparr>, ?w')"
    using net_post_packet [of ?w g st' N b oc'] st' *(3) by (simp add: schedule_alone)
  have "?t \<le> first_due ?t oc'"
    by (cases oc') (simp_all add: first_due_def)
  then have "lone_packet N ?w' n g ?t oc' final"
    using assms * st' by (simp add: lone_packet_def)
  moreover have "run_node_task N (h, \<lparr>due = ?t, action = oc\<rparr>) (w\<lparr>mw_now := ?t\<rparr>) = ?w'"
    using *(1,5) post assms
    by (simp add: lone_packet_def run_node_task_def run_task_def forward_packet_def node_client_def packet_url_def)
  moreover have "t0 + task_time (ne_sphinx N) (node_secrets w) (Suc n) oc
      = ?t + task_time (ne_sphinx N) (node_secrets w) n oc'"
    unfolding *(1) task_time.simps trip_task_time [where sec = "node_secrets w", OF *(2,3)]
    by (simp add: first_due_def)
  ultimately show ?thesis
    by (rule that)
qed

lemma packet_arrives:
  assumes "lone_packet N w n h t0 oc final" "t0 + task_time (ne_sphinx N) (node_secrets w) n oc \<le> t"
  shows "\<exists>st g. run_until N (Suc n + k) t w = run_until N k t (run_task (node_client N) st final
        (w\<lparr>mw_now := t0 + task_time (ne_sphinx N) (node_secrets w) n oc, mw_tasks := []\<rparr>))
    \<and> map_of (mw_nodes w) g = Some st"
  using assms
proof (induction n arbitrary: w h oc t0)
  case 0
  then obtain st where "map_of (mw_nodes w) h = Some st" "oc = final"
    by (auto simp: lone_packet_def)
  then show ?case
    using 0 last_hop_time by (auto simp: lone_packet_def run_node_task_def max_absorb1)
next
  case (Suc n)
  then obtain g oc' where next_hop: "lone_packet N (w\<lparr>mw_now := first_due t0 oc, mw_tasks := [(g, \<lparr>due = first_due (first_due t0 oc) oc', action = oc'\<rparr>)]\<rparr>)
      n g (first_due t0 oc) oc' final"
    "run_node_task N (h, \<lparr>due = first_due t0 oc, action = oc\<rparr>) (w\<lparr>mw_now := first_due t0 oc\<rparr>)
      = w\<lparr>mw_now := first_due t0 oc, mw_tasks := [(g, \<lparr>due = first_due (first_due t0 oc) oc', action = oc'\<rparr>)]\<rparr>"
    "t0 + task_time (ne_sphinx N) (node_secrets w) (Suc n) oc
      = first_due t0 oc + task_time (ne_sphinx N) (node_secrets w) n oc'"
    by (blast elim: lone_packet_hop)
  have "run_until N (Suc (Suc n) + k) t w = run_until N (Suc n + k) t
      (w\<lparr>mw_now := first_due t0 oc, mw_tasks := [(g, \<lparr>due = first_due (first_due t0 oc) oc', action = oc'\<rparr>)]\<rparr>)"
    using Suc.prems next_hop(2,3) by (simp add: lone_packet_def max_absorb1)
  then show ?case
    using Suc.IH [OF next_hop(1)] Suc.prems(2) next_hop(3) by simp
qed

lemma packet_underway:
  assumes "lone_packet N w n h t0 oc final" "t < t0 + task_time (ne_sphinx N) (node_secrets w) n oc"
    and "mw_now w \<le> t" "n < k"
  shows "\<exists>n' h' t0' oc'. n' \<le> n \<and> lone_packet N (run_until N k t w) n' h' t0' oc' final
    \<and> run_until N k t w = w\<lparr>mw_now := t, mw_tasks := mw_tasks (run_until N k t w)\<rparr>
    \<and> t0' + task_time (ne_sphinx N) (node_secrets w) n' oc' = t0 + task_time (ne_sphinx N) (node_secrets w) n oc"
  using assms
proof (induction n arbitrary: w h oc t0 k)
  case 0
  then have "run_until N k t w = w\<lparr>mw_now := t\<rparr>" "lone_packet N (w\<lparr>mw_now := t\<rparr>) 0 h t0 oc final"
    using last_hop_time [of oc] by (cases k; auto simp: lone_packet_def max_absorb1)+
  then show ?case
    by auto
next
  case (Suc n)
  then obtain j where k: "k = Suc j" "n < j"
    by (cases k) auto
  show ?case
  proof (cases "first_due t0 oc \<le> t")
    case False
    then have "run_until N k t w = w\<lparr>mw_now := t\<rparr>" "lone_packet N (w\<lparr>mw_now := t\<rparr>) (Suc n) h t0 oc final"
      using Suc.prems(1,3) by (simp_all add: k lone_packet_def max_absorb1)
    then show ?thesis
      by (intro exI [of _ "Suc n"] exI [of _ h] exI [of _ t0] exI [of _ oc]) simp
  next
    case True
    obtain g oc' where next_hop: "lone_packet N (w\<lparr>mw_now := first_due t0 oc, mw_tasks := [(g, \<lparr>due = first_due (first_due t0 oc) oc', action = oc'\<rparr>)]\<rparr>)
        n g (first_due t0 oc) oc' final"
      "run_node_task N (h, \<lparr>due = first_due t0 oc, action = oc\<rparr>) (w\<lparr>mw_now := first_due t0 oc\<rparr>)
        = w\<lparr>mw_now := first_due t0 oc, mw_tasks := [(g, \<lparr>due = first_due (first_due t0 oc) oc', action = oc'\<rparr>)]\<rparr>"
      "t0 + task_time (ne_sphinx N) (node_secrets w) (Suc n) oc
        = first_due t0 oc + task_time (ne_sphinx N) (node_secrets w) n oc'"
      using Suc.prems(1) by (blast elim: lone_packet_hop)
    let ?w = "w\<lparr>mw_now := first_due t0 oc, mw_tasks := [(g, \<lparr>due = first_due (first_due t0 oc) oc', action = oc'\<rparr>)]\<rparr>"
    have run: "run_until N k t w = run_until N j t ?w"
      using Suc.prems(1) True next_hop(2) by (simp add: k lone_packet_def max_absorb1)
    obtain n' h' t0' oc'' where IH: "n' \<le> n" "lone_packet N (run_until N j t ?w) n' h' t0' oc'' final"
      "run_until N j t ?w = ?w\<lparr>mw_now := t, mw_tasks := mw_tasks (run_until N j t ?w)\<rparr>"
      "t0' + task_time (ne_sphinx N) (node_secrets w) n' oc'' = first_due t0 oc + task_time (ne_sphinx N) (node_secrets w) n oc'"
      using Suc.IH [OF next_hop(1), of j] Suc.prems(2) next_hop(3) True k by auto
    have "run_until N j t ?w = w\<lparr>mw_now := t, mw_tasks := mw_tasks (run_until N j t ?w)\<rparr>"
      by (subst IH(3)) simp
    then show ?thesis
      using IH(1,2,4) next_hop(3) unfolding run by (intro exI [of _ n'] exI [of _ h'] exI [of _ t0'] exI [of _ oc'']) auto
  qed
qed

text \<open>A client that pulls: its request enters the network, time passes, and it asks for its stage.\<close>

lemma mix_receive_enters:
  assumes "sphinx_law (ne_sphinx N)" "topology_ok N (topology t) w" "\<And>xs k. set (pick_path R xs k) \<subseteq> set xs"
    and "mw_tasks w = []" "choose_path (pick_path R) (topology t) (path_length t) = Ok path"
    and "ne_pull_to_json N (new_pull_request (hex_of R) (token_bytes R) recipient) = Ok bs"
    and "build_packet_to (ne_sphinx N) (draw_delays R) bs path (avg_delay t) (payload_size t) PULL_DESTINATION_TAG = Ok packet"
    and "mix_receive (app_client N k) (ne_sphinx N) R t recipient w = (r, w')"
  obtains h oc n got where "Suc n = length path"
    "lone_packet N (w\<lparr>mw_tasks := [(h, \<lparr>due = first_due (mw_now w) oc, action = oc\<rparr>)]\<rparr>) n h (mw_now w) oc (PullRequest bs)"
    "task_time (ne_sphinx N) (node_secrets w) n oc
      = trip_time (ne_sphinx N) (node_secrets w) (length path) (node_address (hd path)) packet"
    "net_get N (mix_relay_base_url t @ ''/v1/pulls/'' @ hex_of R (token_bytes R))
      (run_until N k (mw_now w + from_millis (retrieval_delay_ms R))
        (w\<lparr>mw_tasks := [(h, \<lparr>due = first_due (mw_now w) oc, action = oc\<rparr>)]\<rparr>)) = (got, w')"
    "r = fetched_messages (app_client N k) got"
proof -
  have tp: "topology_ok N path w"
    using topology_ok_subset [OF assms(2) choose_path_subset [OF assms(5,3)]] .
  have "outcome_for PULL_DESTINATION_TAG bs = Some (PullRequest bs)"
    by (simp add: tags_distinct)
  then obtain oc where oc: "map_of (mw_nodes w) (node_address (hd path)) \<noteq> None"
    "on_way (ne_sphinx N) (node_secrets w) (length path - 1) oc (PullRequest bs)"
    "net_post_body N (packet_url (node_address (hd path))) packet w = (Ok \<lparr>status = 202, messages_json = Err ''expected value''\<rparr>,
      w\<lparr>mw_tasks := mw_tasks w @ map (Pair (node_address (hd path))) (schedule (mw_now w) oc [])\<rparr>)"
    "\<exists>s. node_secrets w (node_address (hd path)) = Some s \<and> process_packet (ne_sphinx N) packet s = Ok oc"
    using packet_enters [OF assms(1) tp assms(7)] by blast
  let ?h = "node_address (hd path)"
  let ?w = "w\<lparr>mw_tasks := [(?h, \<lparr>due = first_due (mw_now w) oc, action = oc\<rparr>)]\<rparr>"
  have len: "Suc (length path - 1) = length path"
    using assms(7) by (auto simp: build_packet_to_def MIN_PATH_LENGTH_def split: if_splits)
  have "mw_now w \<le> first_due (mw_now w) oc"
    by (cases oc) (simp_all add: first_due_def)
  then have lone: "lone_packet N ?w (length path - 1) ?h (mw_now w) oc (PullRequest bs)"
    using oc(1,2) by (simp add: lone_packet_def last_hop_def)
  have time: "task_time (ne_sphinx N) (node_secrets w) (length path - 1) oc
      = trip_time (ne_sphinx N) (node_secrets w) (length path) ?h packet"
    using oc(4) trip_task_time [of "node_secrets w" ?h _ "ne_sphinx N" packet oc "length path - 1"]
    unfolding len by metis
  obtain got w1 where got: "net_get N (mix_relay_base_url t @ ''/v1/pulls/'' @ hex_of R (token_bytes R))
      (run_until N k (mw_now w + from_millis (retrieval_delay_ms R)) ?w) = (got, w1)"
    by (metis prod.exhaust)
  have token: "rendezvous_token (new_pull_request (hex_of R) (token_bytes R) recipient) = hex_of R (token_bytes R)"
    by (simp add: new_pull_request_def)
  have "(r, w') = (fetched_messages (app_client N k) got, w1)"
    using assms(4,8) got
    by (simp add: mix_receive_def assms(5,6,7) post_first_hop_def oc(3) schedule_alone token Let_def)
  then show ?thesis
    using that [OF len lone time] got by simp
qed

lemma net_get_pull:
  assumes "net_ok N w" "simulates (ne_server N) (mw_ids w ` {..<mw_drawn w}) (mw_relay w) q"
    and "ne_segment N token = Some token"
  shows "\<exists>s'. net_get N (ne_relay_url N @ ''/v1/pulls/'' @ token) w
      = (Ok \<lparr>status = 200, messages_json = Ok (map se_envelope (case staged q token of Some (es, _) \<Rightarrow> es | None \<Rightarrow> []))\<rparr>,
         w\<lparr>mw_relay := s'\<rparr>)
    \<and> simulates (ne_server N) (mw_ids w ` {..<mw_drawn w}) s' (q\<lparr>staged := (staged q)(token := None)\<rparr>)"
proof -
  obtain s' where s': "relay_exec (ne_server N) (Pull token) (mw_relay w) = (Ok (fst (spec_step (Pull token) q)), s')"
    "simulates (ne_server N) (mw_ids w ` {..<mw_drawn w}) s' (snd (spec_step (Pull token) q))"
    using pull_simulates [of "ne_server N" _ "mw_relay w" q token] assms(1,2) unfolding net_ok_def by blast
  have "path_segment N ''/v1/messages/'' (ne_relay_url N @ ''/v1/pulls/'' @ token) = None"
    by (simp add: path_segment_def strip_prefix_def)
  then have "net_get N (ne_relay_url N @ ''/v1/pulls/'' @ token) w = with_relay (handle_fetch_pull (ne_server N) token) w"
    using assms(3) by (simp add: net_get_def del: append.simps append_Cons)
  then show ?thesis
    using s' by (intro exI [of _ s']) (simp add: with_relay_def relay_reply_def)
qed

lemma last_node_stages:
  assumes "net_ok N w" "simulates (ne_server N) (mw_ids w ` {..<mw_drawn w}) (mw_relay w) q"
    and "map_of (mw_nodes w) g = Some st" "ne_pull_from_json N bs = Ok request"
  shows "\<exists>s'. run_task (node_client N) st (PullRequest bs) w = w\<lparr>mw_relay := s'\<rparr>
    \<and> simulates (ne_server N) (mw_ids w ` {..<mw_drawn w}) s'
        (snd (spec_step (Stage (ne_wall N (mw_now w)) (rendezvous_token request) (pull_recipient_id request)) q))"
proof -
  let ?r = "Stage (ne_wall N (mw_now w)) (rendezvous_token request) (pull_recipient_id request)"
  obtain s' where s': "relay_exec (ne_server N) ?r (mw_relay w) = (Ok (fst (spec_step ?r q)), s')"
    "simulates (ne_server N) (mw_ids w ` {..<mw_drawn w}) s' (snd (spec_step ?r q))"
    using stage_simulates [of "ne_server N" _ "mw_relay w" q "ne_wall N (mw_now w)"] assms(1,2) unfolding net_ok_def by blast
  have "ns_relay_base_url st = ne_relay_url N"
    using assms(1,3) map_of_SomeD by (fastforce simp: net_ok_def)
  then have "run_task (node_client N) st (PullRequest bs) w
      = snd (with_relay (handle_stage_pull (ne_server N) (ne_wall N (mw_now w)) request) w)"
    using assms(4) by (simp add: run_task_def node_stage_pull_def node_client_def net_post_pull_def)
  then show ?thesis
    using s' by (cases request) (auto simp: with_relay_def)
qed

text \<open>What runs by itself is one of the things that can happen, so a quiet network delivers.\<close>

lemma earliest_due: "earliest t xs = Some x \<Longrightarrow> x \<in> set xs \<and> due (snd x) \<le> t"
  by (induction xs arbitrary: x) (auto split: option.splits if_splits)

lemma time_until: "mix_step N w (w\<lparr>mw_now := max t (mw_now w)\<rparr>)"
  using time_passes [of N w "t - mw_now w"] by (cases "mw_now w \<le> t") (simp_all add: max_def)

lemma run_until_steps: "(mix_step N)\<^sup>*\<^sup>* w (run_until N k t w)"
proof (induction N k t w rule: run_until.induct)
  case (1 N t w)
  then show ?case
    using time_until by auto
next
  case (2 N k t w)
  show ?case
  proof (cases "earliest t (mw_tasks w)")
    case None
    then show ?thesis
      using time_until by auto
  next
    case (Some x)
    let ?w = "w\<lparr>mw_now := max (due (snd x)) (mw_now w)\<rparr>"
    have "mix_step N ?w (run_node_task N x ?w)"
      using earliest_due [OF Some] by (intro task_runs) simp_all
    then have "(mix_step N)\<^sup>*\<^sup>* w (run_node_task N x ?w)"
      using time_until [of N w "due (snd x)"] by (meson converse_rtranclp_into_rtranclp r_into_rtranclp)
    then show ?thesis
      using 2 [OF Some] Some by (auto intro: rtranclp_trans)
  qed
qed

lemma run_task_deliver_tasks: "mw_tasks (run_task (node_client N) st (Deliver bs) w) = mw_tasks w"
  by (simp add: run_task_def deliver_def node_client_def net_post_json_def net_submit_same split: result.split option.split)

lemma quiet_network_drains:
  assumes "mw_tasks w1 = map (Pair h) (schedule (mw_now w1) oc [])" "map_of (mw_nodes w1) h \<noteq> None"
    and "on_way (ne_sphinx N) (node_secrets w1) n oc (Deliver bs)"
  shows "\<exists>w2. (mix_step N)\<^sup>*\<^sup>* w1 w2 \<and> mw_tasks w2 = []"
proof -
  let ?t = "mw_now w1 + task_time (ne_sphinx N) (node_secrets w1) n oc"
  have "mw_now w1 \<le> first_due (mw_now w1) oc"
    by (cases oc) (simp_all add: first_due_def)
  then have "lone_packet N w1 n h (mw_now w1) oc (Deliver bs)"
    using assms by (simp add: lone_packet_def schedule_alone last_hop_def)
  then obtain st where "run_until N (Suc n + 0) ?t w1 = run_until N 0 ?t (run_task (node_client N) st (Deliver bs)
      (w1\<lparr>mw_now := ?t, mw_tasks := []\<rparr>))"
    using packet_arrives [of N w1 n h "mw_now w1" oc "Deliver bs" ?t 0] by blast
  then have "mw_tasks (run_until N (Suc n + 0) ?t w1) = []"
    by (simp del: run_until.simps(2) add: run_task_deliver_tasks)
  then show ?thesis
    using run_until_steps by blast
qed

lemma fetched_200 [simp]:
  "fetched_messages (app_client N k) (Ok \<lparr>status = 200, messages_json = Ok es\<rparr>) = Ok es"
  by (simp add: fetched_messages_def net_error_for_status_def)

lemma run_until_quiet: "mw_tasks w = [] \<Longrightarrow> run_until N k t w = w\<lparr>mw_now := max t (mw_now w)\<rparr>"
  by (cases k) simp_all

lemma lone_packet_relay [simp]: "lone_packet N (w\<lparr>mw_relay := s\<rparr>) n h t0 oc final = lone_packet N w n h t0 oc final"
proof -
  have "node_secrets (w\<lparr>mw_relay := s\<rparr>) = node_secrets w"
    by (simp add: fun_eq_iff node_secrets_def)
  then show ?thesis
    by (simp add: lone_packet_def)
qed

text \<open>When a lone pull request arrives, the mailbox it names has moved to its stage.\<close>

lemma pull_request_arrives:
  assumes "lone_packet N w n h t0 oc (PullRequest bs)" "t0 + task_time (ne_sphinx N) (node_secrets w) n oc \<le> t" "n < k"
    and "net_ok N w" "simulates (ne_server N) (mw_ids w ` {..<mw_drawn w}) (mw_relay w) q"
    and "ne_pull_from_json N bs = Ok request" "mw_now w \<le> t"
  shows "\<exists>s' at. run_until N k t w = w\<lparr>mw_now := t, mw_tasks := [], mw_relay := s'\<rparr>
    \<and> simulates (ne_server N) (mw_ids w ` {..<mw_drawn w}) s'
        (snd (spec_step (Stage at (rendezvous_token request) (pull_recipient_id request)) q))"
proof -
  obtain j where k: "k = Suc n + j"
    using assms(3) less_iff_Suc_add by auto
  let ?w = "w\<lparr>mw_now := t0 + task_time (ne_sphinx N) (node_secrets w) n oc, mw_tasks := []\<rparr>"
  obtain st g where arrive: "run_until N k t w = run_until N j t (run_task (node_client N) st (PullRequest bs) ?w)"
    "map_of (mw_nodes w) g = Some st"
    unfolding k using packet_arrives [OF assms(1,2)] by blast
  have "net_ok N ?w" "simulates (ne_server N) (mw_ids ?w ` {..<mw_drawn ?w}) (mw_relay ?w) q"
    using assms(4,5) by simp_all
  from last_node_stages [OF this _ assms(6), of g st] arrive(2) obtain s' where s': "run_task (node_client N) st (PullRequest bs) ?w = ?w\<lparr>mw_relay := s'\<rparr>"
    "simulates (ne_server N) (mw_ids w ` {..<mw_drawn w}) s'
        (snd (spec_step (Stage (ne_wall N (mw_now ?w)) (rendezvous_token request) (pull_recipient_id request)) q))"
    by auto
  have "run_until N k t w = w\<lparr>mw_now := t, mw_tasks := [], mw_relay := s'\<rparr>"
    using assms(2) by (simp add: arrive(1) s'(1) run_until_quiet max_absorb1)
  with s'(2) show ?thesis
    by blast
qed

section \<open>Properties\<close>

text \<open>
  C7: The mix network loses no message.  Once sending over a topology of running nodes reported
  success, however time passes, tasks run and other clients send, pull, fetch and delete, the
  envelope is in transit at one of the nodes or the relay has accepted it for its recipient: in
  particular, whenever no node has a task left, the relay has accepted it.  And if no task was
  pending before, the tasks run dry in some run.
\<close>

theorem mix_network_loses_no_message:
  assumes "sphinx_law (ne_sphinx N)" "net_ok N w" "topology_ok N (topology t) w"
    and "\<And>xs n. set (pick_path R xs n) \<subseteq> set xs"
    and "\<And>bs. ne_envelope_to_json N e = Ok bs \<Longrightarrow> ne_envelope_from_json N bs = Ok e"
    and "ne_segment N (recipient_id e) = Some (recipient_id e)"
    and "mix_send (app_client N k) (ne_sphinx N) R t e w = (Ok (), w1)"
    and "(mix_step N)\<^sup>*\<^sup>* w1 w2"
  shows "(\<exists>bs. ne_envelope_to_json N e = Ok bs \<and> (in_transit N bs w2 \<or> delivered e w2))
    \<and> (mw_tasks w2 = [] \<longrightarrow> delivered e w2)
    \<and> (mw_tasks w = [] \<longrightarrow> (\<exists>w3. (mix_step N)\<^sup>*\<^sup>* w1 w3 \<and> mw_tasks w3 = [] \<and> delivered e w3))"
proof -
  obtain bs h oc n where *: "ne_envelope_to_json N e = Ok bs" "map_of (mw_nodes w) h \<noteq> None"
    "on_way (ne_sphinx N) (node_secrets w) n oc (Deliver bs)"
    "w1 = w\<lparr>mw_tasks := mw_tasks w @ map (Pair h) (schedule (mw_now w) oc [])\<rparr>"
    using mix_send_enters [OF assms(1,3,4,7)] .
  have "in_transit N bs w1"
    using *(2,3) by (auto simp: in_transit_def *(4) schedule_alone)
  moreover have "net_ok N w1"
    using assms(2) by (simp add: *(4))
  ultimately have transit: "in_transit N bs w' \<or> delivered e w'" if "(mix_step N)\<^sup>*\<^sup>* w1 w'" for w'
    using transit_run [OF that] assms(5,6) *(1) by blast
  have "delivered e w'" if "(mix_step N)\<^sup>*\<^sup>* w1 w'" "mw_tasks w' = []" for w'
    using transit [OF that(1)] that(2) by (auto simp: in_transit_def)
  moreover have "\<exists>w3. (mix_step N)\<^sup>*\<^sup>* w1 w3 \<and> mw_tasks w3 = []" if "mw_tasks w = []"
    using quiet_network_drains [of w1 h oc N n bs] *(2,3) that by (simp add: *(4))
  ultimately show ?thesis
    using transit [OF assms(8)] assms(8) *(1) by blast
qed

text \<open>
  Three nodes that delay every packet by \<open>d\<close>, and a relay with a total codec that holds one
  message for Bob.
\<close>

definition delayed_sphinx :: "duration \<Rightarrow> sphinx_lib" where
  "delayed_sphinx d = toy_sphinx\<lparr>sphinx_process := (\<lambda>b secret.
     case sphinx_process toy_sphinx b secret of
       Ok (ForwardHop p a _) \<Rightarrow> Ok (ForwardHop p a d)
     | r \<Rightarrow> r)\<rparr>"

lemma delayed_fields [simp]: "sphinx_parse (delayed_sphinx d) = Ok" "packet_bytes_of (delayed_sphinx d) = id"
  "recover_plaintext (delayed_sphinx d) = Ok" "x25519_public (delayed_sphinx d) = id"
  "sphinx_build (delayed_sphinx d) = sphinx_build toy_sphinx" "NODE_ADDRESS_LENGTH (delayed_sphinx d) = 32"
  "DESTINATION_ADDRESS_LENGTH (delayed_sphinx d) = 32"
  by (simp_all add: delayed_sphinx_def toy_sphinx_def)

lemma delayed_peels: "peels toy_sphinx bs secret hops dest payload \<Longrightarrow> peels (delayed_sphinx d) bs secret hops dest payload"
proof (induction hops arbitrary: bs secret)
  case Nil
  then show ?case
    by (auto simp: delayed_sphinx_def toy_sphinx_def)
next
  case (Cons hop hops)
  then show ?case
    by (cases hop) (force simp: delayed_sphinx_def toy_sphinx_def)
qed

lemma delayed_sphinx_law: "sphinx_law (delayed_sphinx d)"
  using toy_sphinx_law delayed_peels unfolding sphinx_law_def
  by (auto simp: toy_sphinx_def)

definition toy_net :: "duration \<Rightarrow> net_env" where
  "toy_net d = \<lparr>ne_sphinx = delayed_sphinx d, ne_server = total_server, ne_signal_text = (\<lambda>_. []),
     ne_relay_url = ''http://relay'', ne_segment = Some, ne_envelope_to_json = (\<lambda>_. Ok [1]),
     ne_envelope_from_json = (\<lambda>_. Ok plain_envelope), ne_pull_to_json = (\<lambda>_. Ok [2]),
     ne_pull_from_json = (\<lambda>_. Ok (new_pull_request of_utf8 [1] ''bob'')), ne_wall = (\<lambda>_. 0)\<rparr>"

definition toy_mix_world :: "server_store \<Rightarrow> nat \<Rightarrow> mix_world" where
  "toy_mix_world s n = \<lparr>mw_now = 0,
     mw_nodes = map (\<lambda>h. (h, \<lparr>ns_secret_key = utf8 h, ns_public_key = utf8 h, ns_relay_base_url = ''http://relay''\<rparr>))
       [''a:1'', ''b:2'', ''c:3''],
     mw_tasks = [], mw_relay = s, mw_ids = (\<lambda>n. replicate n CHR ''x''), mw_drawn = n, mw_accepted = []\<rparr>"

abbreviation toy_mix_transport :: mix_transport where
  "toy_mix_transport \<equiv> new_mix_transport toy_path ''http://relay''"

lemma toy_net_fields [simp]: "ne_sphinx (toy_net d) = delayed_sphinx d" "ne_server (toy_net d) = total_server"
  "ne_envelope_to_json (toy_net d) = (\<lambda>_. Ok [1])" "ne_envelope_from_json (toy_net d) = (\<lambda>_. Ok plain_envelope)"
  "ne_pull_to_json (toy_net d) = (\<lambda>_. Ok [2])" "ne_pull_from_json (toy_net d) = (\<lambda>_. Ok (new_pull_request of_utf8 [1] ''bob''))"
  "ne_segment (toy_net d) = Some" "ne_relay_url (toy_net d) = ''http://relay''"
  by (simp_all add: toy_net_def)

lemma inj_replicate: "inj (\<lambda>n. replicate n c)"
  by (rule injI) (drule arg_cong [where f = length], simp)

lemma toy_net_ok: "simulates total_server ((\<lambda>n. replicate n CHR ''x'') ` {..<n}) s q \<Longrightarrow> net_ok (toy_net d) (toy_mix_world s n)"
proof -
  assume q: "simulates total_server ((\<lambda>n. replicate n CHR ''x'') ` {..<n}) s q"
  show "net_ok (toy_net d) (toy_mix_world s n)"
    unfolding net_ok_def relay_ok_def toy_net_fields
  proof (intro conjI exI)
    show "simulates total_server (mw_ids (toy_mix_world s n) ` {..<mw_drawn (toy_mix_world s n)})
        (mw_relay (toy_mix_world s n)) q"
      using q by (simp add: toy_mix_world_def)
    show "inj (mw_ids (toy_mix_world s n))"
      using inj_replicate by (simp add: toy_mix_world_def)
    show "\<forall>(a, st) \<in> set (mw_nodes (toy_mix_world s n)). ns_relay_base_url st = ''http://relay''"
      by (simp add: toy_mix_world_def)
  qed (simp_all add: total_server_laws toy_net_def)
qed

lemma toy_topology: "topology_ok (toy_net d) toy_path (toy_mix_world s n)"
  unfolding topology_ok_def toy_net_fields delayed_fields
proof
  fix x
  assume x: "x \<in> set toy_path"
  then have "node_secrets (toy_mix_world s n) (node_address x) = Some (node_public_key x)"
    by (auto simp: toy_path_def node_secrets_def toy_mix_world_def)
  then show "valid_utf8 (utf8 (node_address x))
      \<and> (\<exists>k. node_secrets (toy_mix_world s n) (node_address x) = Some k \<and> node_public_key x = id k)"
    using toy_path_reachable [OF x] by simp
qed

lemma toy_pick: "set (pick_path toy_random xs k) \<subseteq> set xs"
  by (auto simp: toy_random_def dest: in_set_takeD)

lemma toy_choose: "choose_path (pick_path toy_random) (topology toy_mix_transport) (path_length toy_mix_transport) = Ok toy_path"
  by (simp add: choose_path_def toy_random_def new_mix_transport_def toy_path_def MIN_PATH_LENGTH_def)

lemma toy_builds:
  assumes "tag \<in> {RELAY_DESTINATION_TAG, PULL_DESTINATION_TAG}"
  obtains dest where "build_packet_to (delayed_sphinx d) (draw_delays toy_random) bs toy_path (avg_delay toy_mix_transport)
      (payload_size toy_mix_transport) tag
    = Ok (pack (map (\<lambda>h. (of_nat (length h) # utf8 h @ replicate (31 - length h) 0, utf8 h)) [''a:1'', ''b:2'', ''c:3''], dest, bs))"
  using assms
  by (auto simp: build_packet_to_def toy_path_def MIN_PATH_LENGTH_def encode_node_address_def encode_fixed_def
      tagged_destination_def toy_sphinx_def RELAY_DESTINATION_TAG_def PULL_DESTINATION_TAG_def toy_random_def)

lemma delayed_forward:
  assumes "process_packet (delayed_sphinx d) bs s = Ok (Forward h d' b)"
  shows "d' = d"
proof -
  obtain p where p: "sphinx_process (delayed_sphinx d) bs s = Ok p"
    using assms by (auto simp: process_packet_def and_then_Ok_iff)
  show ?thesis
  proof (cases p)
    case (ForwardHop nxt a dd)
    then have "dd = d"
      using p by (auto simp: delayed_sphinx_def split: result.splits processed.splits)
    then show ?thesis
      using assms p ForwardHop by (auto simp: process_packet_def and_then_Ok_iff)
  next
    case (FinalHop dest pl)
    then show ?thesis
      using assms p by (auto simp: process_packet_def Let_def and_then_Ok_iff map_ok_Ok_iff split: if_splits)
  qed
qed

lemma delayed_trip:
  assumes "travel (delayed_sphinx d) sec k host bs = Some (hosts, out)"
  shows "trip_time (delayed_sphinx d) sec k host bs = (length hosts - 1) * d"
  using assms
proof (induction "delayed_sphinx d" sec k host bs arbitrary: hosts rule: travel.induct)
  case (2 sec n host bs)
  then obtain s oc where s: "sec host = Some s" "process_packet (delayed_sphinx d) bs s = Ok oc"
    by (auto split: option.splits result.splits)
  show ?case
  proof (cases oc)
    case (Forward h d' b)
    with 2(2) s obtain hs where hs: "travel (delayed_sphinx d) sec n h b = Some (hs, out)" "hosts = host # hs"
      by auto
    have "d' = d"
      using delayed_forward s(2) Forward by blast
    moreover have "trip_time (delayed_sphinx d) sec n h b = (length hs - 1) * d"
      using 2(1) [OF s(1) s(2)] hs(1) Forward by simp
    moreover have "hs \<noteq> []"
      using travel_on_way [OF hs(1)] by simp
    ultimately show ?thesis
      using s Forward hs(2) by (cases hs) simp_all
  qed (use 2(2) s in auto)
qed simp

lemma toy_trip:
  assumes "build_packet_to (delayed_sphinx d) (draw_delays toy_random) bs toy_path (avg_delay toy_mix_transport)
      (payload_size toy_mix_transport) PULL_DESTINATION_TAG = Ok packet"
  shows "trip_time (delayed_sphinx d) (node_secrets (toy_mix_world s n)) (length toy_path)
    (node_address (hd toy_path)) packet = 2 * d"
proof -
  have "outcome_for PULL_DESTINATION_TAG bs = Some (PullRequest bs)"
    by (simp add: tags_distinct)
  then have "travel (delayed_sphinx d) (node_secrets (toy_mix_world s n)) (length toy_path) (node_address (hd toy_path)) packet
      = Some (map node_address toy_path, PullRequest bs)"
    using packet_travels [OF delayed_sphinx_law assms, of "node_secrets (toy_mix_world s n)"] toy_topology
    unfolding topology_ok_def toy_net_fields by blast
  from delayed_trip [OF this] show ?thesis
    by (simp add: toy_path_def)
qed

lemma toy_relay_with_mail:
  obtains s q where "simulates total_server ((\<lambda>n. replicate n CHR ''x'') ` {..<1}) s q"
    "boxes q ''bob'' = [\<lparr>se_id = [], se_envelope = mail\<rparr>]" "staged q = (\<lambda>_. None)"
proof -
  have ids: "(\<lambda>n. replicate n CHR ''x'') ` {..<1} = {[]}"
    by auto
  obtain s where "simulates total_server {[]} s (snd (spec_step (Submit [] mail) no_mail))"
    using submit_simulates [OF total_server_laws(2) new_relay_simulates [OF total_store_opened], of "[]" mail] by auto
  then show ?thesis
    by (intro that [of s "snd (spec_step (Submit [] mail) no_mail)"]) (simp_all only: ids, simp_all add: no_mail_def Let_def)
qed

theorem mix_network_loses_no_message_witness:
  "\<exists>w1 w2. mix_send (app_client (toy_net 7) 3) (delayed_sphinx 7) toy_random toy_mix_transport plain_envelope
        (toy_mix_world toy_store 0) = (Ok (), w1)
    \<and> (mix_step (toy_net 7))\<^sup>*\<^sup>* w1 w2 \<and> mw_tasks w2 = [] \<and> delivered plain_envelope w2"
proof -
  have ok: "net_ok (toy_net 7) (toy_mix_world toy_store 0)"
    using new_relay_simulates [OF total_store_opened] by (intro toy_net_ok) simp
  obtain packet where "build_packet (delayed_sphinx 7) (draw_delays toy_random) [1] toy_path (avg_delay toy_mix_transport)
      (payload_size toy_mix_transport) = Ok packet"
    unfolding build_packet_def using toy_builds by blast
  then obtain w1 where w1: "mix_send (app_client (toy_net 7) 3) (delayed_sphinx 7) toy_random toy_mix_transport plain_envelope
      (toy_mix_world toy_store 0) = (Ok (), w1)"
    using mix_send_succeeds [of "toy_net 7", OF _ _ toy_pick toy_choose] delayed_sphinx_law toy_topology
    by (fastforce simp: new_mix_transport_def)
  have "mw_tasks (toy_mix_world toy_store 0) = []"
    by (simp add: toy_mix_world_def)
  then show ?thesis
    using mix_network_loses_no_message [OF _ ok _ toy_pick _ _ _ rtranclp.rtrancl_refl, of toy_mix_transport plain_envelope 3 w1]
      w1 delayed_sphinx_law toy_topology by (auto simp: new_mix_transport_def)
qed

text \<open>
  C17: A pull over an otherwise quiet mix network that arrives before its client asks for the
  stage returns exactly the recipient's mailbox, in the relay's order, and leaves it empty.
\<close>

theorem mix_pull_returns_the_mailbox:
  assumes "sphinx_law (ne_sphinx N)" "net_ok N w" "topology_ok N (topology t) w"
    and "\<And>xs n. set (pick_path R xs n) \<subseteq> set xs" "mw_tasks w = []"
    and "simulates (ne_server N) (mw_ids w ` {..<mw_drawn w}) (mw_relay w) q"
    and "request = new_pull_request (hex_of R) (token_bytes R) recipient"
    and "ne_pull_to_json N request = Ok bs" "ne_pull_from_json N bs = Ok request"
    and "ne_segment N (rendezvous_token request) = Some (rendezvous_token request)"
    and "mix_relay_base_url t = ne_relay_url N"
    and "choose_path (pick_path R) (topology t) (path_length t) = Ok path"
    and "build_packet_to (ne_sphinx N) (draw_delays R) bs path (avg_delay t) (payload_size t) PULL_DESTINATION_TAG = Ok packet"
    and "trip_time (ne_sphinx N) (node_secrets w) (length path) (node_address (hd path)) packet
      \<le> from_millis (retrieval_delay_ms R)"
    and "length path \<le> k" "mix_receive (app_client N k) (ne_sphinx N) R t recipient w = (r, w')"
  shows "r = Ok (map se_envelope (boxes q recipient))
    \<and> (\<exists>q'. simulates (ne_server N) (mw_ids w ` {..<mw_drawn w}) (mw_relay w') q' \<and> boxes q' recipient = [])"
proof -
  have token: "hex_of R (token_bytes R) = rendezvous_token request" "pull_recipient_id request = recipient"
    by (simp_all add: assms(7) new_pull_request_def)
  obtain h oc n got where *: "Suc n = length path"
    "lone_packet N (w\<lparr>mw_tasks := [(h, \<lparr>due = first_due (mw_now w) oc, action = oc\<rparr>)]\<rparr>) n h (mw_now w) oc (PullRequest bs)"
    "task_time (ne_sphinx N) (node_secrets w) n oc
      = trip_time (ne_sphinx N) (node_secrets w) (length path) (node_address (hd path)) packet"
    "net_get N (mix_relay_base_url t @ ''/v1/pulls/'' @ hex_of R (token_bytes R))
      (run_until N k (mw_now w + from_millis (retrieval_delay_ms R))
        (w\<lparr>mw_tasks := [(h, \<lparr>due = first_due (mw_now w) oc, action = oc\<rparr>)]\<rparr>)) = (got, w')"
    "r = fetched_messages (app_client N k) got"
    using mix_receive_enters [OF assms(1,3,4,5,12) assms(8) [unfolded assms(7)] assms(13,16)] .
  let ?w = "w\<lparr>mw_tasks := [(h, \<lparr>due = first_due (mw_now w) oc, action = oc\<rparr>)]\<rparr>"
  let ?t = "mw_now w + from_millis (retrieval_delay_ms R)"
  obtain s' at where s': "run_until N k ?t ?w = ?w\<lparr>mw_now := ?t, mw_tasks := [], mw_relay := s'\<rparr>"
    "simulates (ne_server N) (mw_ids ?w ` {..<mw_drawn ?w}) s'
        (snd (spec_step (Stage at (rendezvous_token request) (pull_recipient_id request)) q))"
    using pull_request_arrives [OF *(2), of ?t k q request] *(1,3) assms(2,6,9,14,15) by auto
  let ?q = "snd (spec_step (Stage at (rendezvous_token request) (pull_recipient_id request)) q)"
  let ?w1 = "run_until N k ?t ?w"
  have "net_ok N ?w1" "simulates (ne_server N) (mw_ids ?w1 ` {..<mw_drawn ?w1}) (mw_relay ?w1) ?q"
    using assms(2) s'(2) unfolding s'(1) net_ok_def relay_ok_def by auto
  from net_get_pull [OF this assms(10)] obtain s'' where s'':
    "got = Ok \<lparr>status = 200, messages_json = Ok (map se_envelope (boxes q recipient))\<rparr>" "w' = ?w1\<lparr>mw_relay := s''\<rparr>"
    "simulates (ne_server N) (mw_ids ?w1 ` {..<mw_drawn ?w1}) s'' (?q\<lparr>staged := (staged ?q)(rendezvous_token request := None)\<rparr>)"
    using *(4) unfolding assms(11) token by auto
  have "mw_ids ?w1 ` {..<mw_drawn ?w1} = mw_ids w ` {..<mw_drawn w}" "boxes ?q recipient = []"
    unfolding s'(1) by (simp_all add: token)
  then show ?thesis
    using s''(3) by (simp add: *(5) s''(1,2)) (rule exI, rule conjI, assumption, simp)
qed

theorem mix_pull_returns_the_mailbox_witness:
  "\<exists>s w'. mix_receive (app_client (toy_net 7) 3) (delayed_sphinx 7) toy_random toy_mix_transport ''bob''
      (toy_mix_world s 1) = (Ok [mail], w')"
proof -
  obtain s q where q: "simulates total_server ((\<lambda>n. replicate n CHR ''x'') ` {..<1}) s q"
    "boxes q ''bob'' = [\<lparr>se_id = [], se_envelope = mail\<rparr>]" "staged q = (\<lambda>_. None)"
    using toy_relay_with_mail .
  obtain r w' where r: "mix_receive (app_client (toy_net 7) 3) (delayed_sphinx 7) toy_random toy_mix_transport ''bob''
      (toy_mix_world s 1) = (r, w')"
    by (metis prod.exhaust)
  obtain packet where packet: "build_packet_to (delayed_sphinx 7) (draw_delays toy_random) [2] toy_path
      (avg_delay toy_mix_transport) (payload_size toy_mix_transport) PULL_DESTINATION_TAG = Ok packet"
    using toy_builds by blast
  have "r = Ok (map se_envelope (boxes q ''bob''))"
    using mix_pull_returns_the_mailbox [of "toy_net 7" "toy_mix_world s 1" toy_mix_transport toy_random q
        "new_pull_request of_utf8 [1] ''bob''" "''bob''" "[2]" toy_path packet 3 r w']
      delayed_sphinx_law toy_net_ok [OF q(1)] toy_topology toy_pick toy_choose packet toy_trip [OF packet] q(1) r
    by (simp add: toy_mix_world_def toy_random_def new_mix_transport_def from_millis_def toy_path_def)
  then show ?thesis
    using r q(2) by auto
qed




end
