(* ===== verification/Daemons.thy ===== *)
theory Daemons
  imports Mixnode Tls Gateway Relay_Spec
begin

text \<open>
  The server binaries: how the relay (\<open>server/src/main.rs\<close>), the gateway
  (\<open>gateway/src/main.rs\<close>) and the mix node (\<open>mixnode/src/main.rs\<close>) start from the process
  environment, in the order of their checks, and the lives of a relay that is stopped and
  started again on the same database file.  Parsing a socket address and binding a port are
  the host's and are parameters; log texts are left out, the level of a posture is kept.
\<close>

section \<open>The host\<close>

text \<open>A socket address that parses is displayed in its canonical form; a panic is an error.\<close>

record 'c host =
  parse_addr :: "string \<Rightarrow> (string, string) result"
  bind_port :: "string \<Rightarrow> (unit, string) result"
  tls_of :: "'c tls_lib"

definition env_or :: "environment \<Rightarrow> string \<Rightarrow> string \<Rightarrow> string" where
  "env_or env var dflt = (case env var of Some v \<Rightarrow> v | None \<Rightarrow> dflt)"

definition listen_addr :: "'c host \<Rightarrow> environment \<Rightarrow> string \<Rightarrow> string \<Rightarrow> string or_panic" where
  "listen_addr H env var dflt =
    (let bind_addr = env_or env var dflt
     in map_err (\<lambda>e. var @ '' is not a valid socket address ('' @ bind_addr @ ''): '' @ e)
       (parse_addr H bind_addr))"

definition tls_or_panic :: "environment \<Rightarrow> tls_settings or_panic" where
  "tls_or_panic env = map_err (\<lambda>e. ''TLS configuration error: '' @ display_tls e) (tls_from_env env)"

definition serve_or_panic :: "'c host \<Rightarrow> string \<Rightarrow> string \<Rightarrow> tls_settings \<Rightarrow> 'c listening or_panic" where
  "serve_or_panic H msg addr settings = expect msg (snd (serve_with (tls_of H) (bind_port H addr) addr settings))"

section \<open>Relay\<close>

record 'c relay_daemon =
  rd_store :: server_store
  rd_addr :: string
  rd_listening :: "'c listening"

definition db_path :: "environment \<Rightarrow> string" where
  "db_path env = env_or env ''PARDA_DB_PATH'' ''parda-relay.sqlite3''"

text \<open>
  The store is opened, and its file migrated, before anything else is looked at: whatever fails
  afterwards, the certificate authority included, the file has been created.
\<close>

definition file_after_opening :: "environment \<Rightarrow> server_db \<Rightarrow> server_db" where
  "file_after_opening env file =
    (case env ''PARDA_DB_KEY'' of
       None \<Rightarrow> file
     | Some key \<Rightarrow>
         if db_key file \<noteq> None \<and> db_key file \<noteq> Some key then file
         else relay_run_migrations (file\<lparr>db_key := Some key\<rparr>))"

definition relay_main ::
  "server_lib \<Rightarrow> key_pair \<Rightarrow> key_pair \<Rightarrow> 'c host \<Rightarrow> environment \<Rightarrow> (string \<Rightarrow> server_db)
    \<Rightarrow> 'c relay_daemon or_panic \<times> (string \<Rightarrow> server_db)" where
  "relay_main L ca_key kp H env disk =
    (and_then (relay_store_new L ca_key kp disk env) (\<lambda>store.
     and_then (listen_addr H env ''PARDA_BIND'' ''127.0.0.1:8080'') (\<lambda>addr.
     and_then (tls_or_panic env) (\<lambda>tls.
     and_then (serve_or_panic H ''server error'' addr tls) (\<lambda>l.
     Ok \<lparr>rd_store = store, rd_addr = addr, rd_listening = l\<rparr>)))),
     disk(db_path env := file_after_opening env (disk (db_path env))))"

section \<open>Gateway\<close>

definition security_posture :: "api_security \<Rightarrow> log_level" where
  "security_posture s = (if auth_enabled s then LogInfo else LogWarn)"

record 'c gateway_daemon =
  gd_relay_base_url :: string
  gd_security :: api_security
  gd_postures :: "log_level list"
  gd_addr :: string
  gd_listening :: "'c listening"

definition gateway_main ::
  "(string \<Rightarrow> f64 option) \<Rightarrow> 'c host \<Rightarrow> environment \<Rightarrow> 'c gateway_daemon or_panic" where
  "gateway_main parse_f64 H env =
    and_then (ok_or (env ''PARDA_RELAY_URL'')
      (''PARDA_RELAY_URL is not set '' @ em_dash @ '' the base URL of the parda-relay this gateway fronts'')) (\<lambda>relay_url.
    let security = security_from_env parse_f64 env in
    and_then (tls_or_panic env) (\<lambda>tls.
    and_then (listen_addr H env ''PARDA_GATEWAY_BIND'' ''127.0.0.1:8090'') (\<lambda>addr.
    and_then (serve_or_panic H ''gateway server error'' addr tls) (\<lambda>l.
    Ok \<lparr>gd_relay_base_url = relay_url, gd_security = security,
        gd_postures = [security_posture security, line_level (log_posture tls)], gd_addr = addr, gd_listening = l\<rparr>))))"

section \<open>Mix node\<close>

text \<open>The two cover loops run, with the same peers and interval, when there are peers enough.\<close>

record 'c node_daemon =
  nd_state :: node_state
  nd_cover :: "(mix_node list \<times> duration) option"
  nd_addr :: string
  nd_listening :: "'c listening"

definition cover_interval :: "environment \<Rightarrow> duration" where
  "cover_interval env = from_millis
    (case Option.bind (env ''MIXNODE_COVER_AVG_INTERVAL_MS'') (parse_unsigned (2 ^ 64)) of
       Some n \<Rightarrow> of_nat n | None \<Rightarrow> 500)"

definition spawn_cover :: "mix_node list \<Rightarrow> duration \<Rightarrow> (mix_node list \<times> duration) option" where
  "spawn_cover peers avg = (if cover_enabled peers then Some (peers, avg) else None)"

definition mixnode_main ::
  "sphinx_lib \<Rightarrow> (string \<Rightarrow> bytes option) \<Rightarrow> 'c host \<Rightarrow> environment \<Rightarrow> bytes \<Rightarrow> file_system
    \<Rightarrow> 'c node_daemon or_panic \<times> file_system" where
  "mixnode_main S b64_decode H env fresh fs =
    (case env ''MIXNODE_RELAY_URL'' of
       None \<Rightarrow> (Err (''MIXNODE_RELAY_URL is not set '' @ em_dash @ '' this node needs the base URL of the parda-relay ''
         @ ''it delivers final-hop envelopes to.''), fs)
     | Some relay_url \<Rightarrow>
    (case load_or_generate env fresh fs of
       (Err m, fs') \<Rightarrow> (Err m, fs')
     | (Ok secret, fs') \<Rightarrow>
         (let state = new_node_state S secret relay_url;
              peers = parse_peers b64_decode (env_or env ''MIXNODE_PEERS'' []);
              cover = spawn_cover peers (cover_interval env)
          in and_then (listen_addr H env ''MIXNODE_BIND'' ''127.0.0.1:9001'') (\<lambda>addr.
             and_then (tls_or_panic env) (\<lambda>tls.
             and_then (serve_or_panic H ''mix node server error'' addr tls) (\<lambda>l.
             Ok \<lparr>nd_state = state, nd_cover = cover, nd_addr = addr, nd_listening = l\<rparr>))), fs')))"

text \<open>The node's router; \<open>body\<close> is what the extractor read of the request, or the status of its refusal.\<close>

datatype node_endpoint = NodeAtHealth | NodeAtPubkey | NodeAtPacket

definition node_route :: "http_method \<Rightarrow> string list \<Rightarrow> (node_endpoint, nat) result" where
  "node_route m path =
    (if path = [''health''] then ok_or (map_of [(GET, NodeAtHealth)] m) 405
     else if path = [''mix'', ''pubkey''] then ok_or (map_of [(GET, NodeAtPubkey)] m) 405
     else if path = [''mix'', ''packet''] then ok_or (map_of [(POST, NodeAtPacket)] m) 405
     else Err 404)"

definition node_app ::
  "sphinx_lib \<Rightarrow> (signal_error \<Rightarrow> string) \<Rightarrow> (bytes \<Rightarrow> string) \<Rightarrow> http_method \<Rightarrow> string list \<Rightarrow> (bytes, nat) result
    \<Rightarrow> duration \<Rightarrow> node_state \<Rightarrow> node_task list \<Rightarrow> (node_response, nat) result \<times> node_task list" where
  "node_app S sig b64 m path body now st tasks =
    (case node_route m path of
       Err code \<Rightarrow> (Err code, tasks)
     | Ok NodeAtHealth \<Rightarrow> (Ok NodeHealth, tasks)
     | Ok NodeAtPubkey \<Rightarrow> (Ok (node_pubkey b64 st), tasks)
     | Ok NodeAtPacket \<Rightarrow>
         (case body of
            Err code \<Rightarrow> (Err code, tasks)
          | Ok bs \<Rightarrow> (let (resp, tasks') = receive_packet S sig now bs st tasks in (Ok resp, tasks'))))"

section \<open>The lives of a relay\<close>

text \<open>
  A life is one start of the process, with the key pairs it draws and its environment, and the
  requests it serves if it starts; whatever ends it, the next one finds the database file.
\<close>

fun relay_final :: "server_lib \<Rightarrow> mail_request list \<Rightarrow> server_store \<Rightarrow> server_store" where
  "relay_final L [] s = s"
| "relay_final L (r # rs) s = relay_final L rs (snd (relay_exec L r s))"

record life =
  lf_root :: key_pair
  lf_server :: key_pair
  lf_env :: environment
  lf_requests :: "mail_request list"

fun relay_lives ::
  "server_lib \<Rightarrow> 'c host \<Rightarrow> life list \<Rightarrow> (string \<Rightarrow> server_db) \<Rightarrow> (mail_request \<times> relay_response or_panic) list" where
  "relay_lives L H [] disk = []"
| "relay_lives L H (f # fs) disk =
    (case relay_main L (lf_root f) (lf_server f) H (lf_env f) disk of
       (Err _, disk') \<Rightarrow> relay_lives L H fs disk'
     | (Ok d, disk') \<Rightarrow>
         zip (lf_requests f) (relay_run L (lf_requests f) (rd_store d))
         @ relay_lives L H fs (disk'(db_path (lf_env f) := rs_db (relay_final L (lf_requests f) (rd_store d)))))"

section \<open>Lemmas\<close>

lemma start_Ok:
  assumes "and_then (tls_or_panic env) (\<lambda>tls. and_then (serve_or_panic H msg addr tls) k) = Ok d"
  obtains tls l where "tls_from_env env = Ok tls" "snd (serve_with (tls_of H) (bind_port H addr) addr tls) = Ok l" "k l = Ok d"
  using assms by (auto simp: and_then_Ok_iff tls_or_panic_def serve_or_panic_def expect_def)

lemma final_simulates:
  assumes "server_json_law L" "total_json L" "simulates L used s q" "list_all clock_ok rs"
    and "distinct (submitted_ids rs)" "set (submitted_ids rs) \<inter> used = {}"
  obtains q' where "simulates L (set (submitted_ids rs) \<union> used) (relay_final L rs s) q'"
    "relay_run L rs s = map Ok (spec_run rs q)" "\<And>rs'. spec_run (rs @ rs') q = spec_run rs q @ spec_run rs' q'"
  using assms(3-)
proof (induction rs arbitrary: used s q thesis)
  case Nil
  then show ?case by simp
next
  case (Cons r rs)
  have now: "clock_ok r" "set (submitted_ids [r]) \<inter> used = {}"
    using Cons.prems by (auto simp: submitted_ids_Cons [of r rs])
  obtain s' where s': "relay_exec L r s = (Ok (fst (spec_step r q)), s')"
    "simulates L (set (submitted_ids [r]) \<union> used) s' (snd (spec_step r q))"
    using relay_simulates [OF assms(1,2) Cons.prems(2) now] .
  have rest: "list_all clock_ok rs" "distinct (submitted_ids rs)"
    "set (submitted_ids rs) \<inter> (set (submitted_ids [r]) \<union> used) = {}"
    using Cons.prems by (auto simp: submitted_ids_Cons [of r rs])
  obtain q' where q': "simulates L (set (submitted_ids rs) \<union> (set (submitted_ids [r]) \<union> used)) (relay_final L rs s') q'"
    "relay_run L rs s' = map Ok (spec_run rs (snd (spec_step r q)))"
    "\<And>rs'. spec_run (rs @ rs') (snd (spec_step r q)) = spec_run rs (snd (spec_step r q)) @ spec_run rs' q'"
    using Cons.IH [OF _ s'(2) rest] by blast
  have "set (submitted_ids (r # rs)) \<union> used = set (submitted_ids rs) \<union> (set (submitted_ids [r]) \<union> used)"
    by (auto simp: submitted_ids_Cons [of r rs])
  with q' s'(1) show ?case
    by (intro Cons.prems(1) [of q']) (simp_all add: case_prod_unfold Let_def)
qed

text \<open>Opening a relay's own file again finds its mailboxes, whatever key pairs are drawn.\<close>

lemma migrations_keep_rows:
  "db_messages d = Some ms \<Longrightarrow> db_messages (relay_run_migrations d) = Some ms"
  "db_stages d = Some ts \<Longrightarrow> db_stages (relay_run_migrations d) = Some ts"
  by (simp_all add: relay_run_migrations_def created_def Let_def)

lemma opened_store:
  assumes "relay_store_new L ca_key kp disk env = Ok s"
  shows "rs_db s = file_after_opening env (disk (db_path env))" "\<not> rs_poisoned s"
  using assms
  by (auto simp: relay_store_new_def relay_from_connection_def file_after_opening_def db_path_def env_or_def Let_def
      and_then_Ok_iff ok_or_Ok_iff split: if_splits option.splits)

text \<open>A file no relay has touched holds no mail, one that a relay has is in a relay's state.\<close>

definition holds_mail :: "server_lib \<Rightarrow> string set \<Rightarrow> server_db \<Rightarrow> mailboxes \<Rightarrow> bool" where
  "holds_mail L used file q \<longleftrightarrow> (file = new_relay_file \<and> q = no_mail)
    \<or> (\<forall>s. rs_db s = file \<and> \<not> rs_poisoned s \<longrightarrow> simulates L used s q)"

lemma simulates_db: "rs_db s = rs_db s' \<Longrightarrow> \<not> rs_poisoned s' \<Longrightarrow> simulates L used s q \<Longrightarrow> simulates L used s' q"
  by (simp add: simulates_def)

lemma holds_mail_opened:
  assumes "holds_mail L used file q" "db_key file = None \<or> db_key file = Some key"
    "rs_db s = relay_run_migrations (file\<lparr>db_key := Some key\<rparr>)" "\<not> rs_poisoned s"
  shows "simulates L used s q"
proof (cases "file = new_relay_file \<and> q = no_mail")
  case True
  then have "db_messages (rs_db s) = Some (map (mail_row L) [])" "db_stages (rs_db s) = Some (map (stage_row L) [])"
    using assms(3) by (simp_all add: relay_run_migrations_def new_relay_file_def created_def Let_def CURRENT_SCHEMA_VERSION_def)
  with True assms(4) show ?thesis
    unfolding simulates_def by (intro conjI exI [of _ "[]"]) (auto simp: no_mail_def mailbox_of_def)
next
  case False
  let ?s = "s\<lparr>rs_db := file\<rparr>"
  have sim: "simulates L used ?s q"
    using False assms(1,4) by (auto simp: holds_mail_def)
  then obtain mails stages where rows: "db_messages file = Some (map (mail_row L) mails)"
      "db_stages file = Some (map (stage_row L) stages)"
    and "distinct (map (se_id \<circ> snd) mails)" "(se_id \<circ> snd) ` set mails \<subseteq> used"
      "distinct_keys stages" "boxes q = mailbox_of mails" "staged q = map_of stages"
    unfolding simulates_def by auto
  then show ?thesis
    unfolding simulates_def using assms(3,4)
    by (intro conjI exI [of _ mails] exI [of _ stages]) (simp_all add: migrations_keep_rows)
qed

lemma holds_mail_main:
  assumes "holds_mail L used (disk (db_path env)) q"
  shows "holds_mail L used (snd (relay_main L ca_key kp H env disk) (db_path env)) q"
    "fst (relay_main L ca_key kp H env disk) = Ok d \<Longrightarrow> simulates L used (rd_store d) q"
proof -
  let ?file = "disk (db_path env)"
  show on_disk: "holds_mail L used (snd (relay_main L ca_key kp H env disk) (db_path env)) q"
  proof (cases "file_after_opening env ?file = ?file")
    case True
    then show ?thesis
      using assms by (simp add: relay_main_def)
  next
    case False
    then obtain key where "db_key ?file = None \<or> db_key ?file = Some key"
      "file_after_opening env ?file = relay_run_migrations (?file\<lparr>db_key := Some key\<rparr>)"
      by (auto simp: file_after_opening_def split: option.splits if_splits)
    then show ?thesis
      using holds_mail_opened [OF assms] by (auto simp: relay_main_def holds_mail_def)
  qed
  assume "fst (relay_main L ca_key kp H env disk) = Ok d"
  then have store: "relay_store_new L ca_key kp disk env = Ok (rd_store d)"
    by (auto simp: relay_main_def and_then_Ok_iff)
  then obtain key where "db_key ?file = None \<or> db_key ?file = Some key" "env ''PARDA_DB_KEY'' = Some key"
    by (auto simp: relay_store_new_def relay_from_connection_def db_path_def env_or_def Let_def and_then_Ok_iff
        split: if_splits option.splits)
  then show "simulates L used (rd_store d) q"
    using opened_store [OF store] by (intro holds_mail_opened [OF assms, of key]) (auto simp: file_after_opening_def)
qed

text \<open>The requests of the lives that started, in order.\<close>

lemma served_zip: "length (relay_run L rs s) = length rs"
  by (induction rs arbitrary: s) (simp_all add: case_prod_unfold Let_def)

lemma spec_run_length [simp]: "length (spec_run rs q) = length rs"
  by (induction rs arbitrary: q) (simp_all add: case_prod_unfold Let_def)

definition all_requests :: "life list \<Rightarrow> mail_request list" where
  "all_requests fs = concat (map lf_requests fs)"

lemma submitted_ids_append [simp]: "submitted_ids (rs @ rs') = submitted_ids rs @ submitted_ids rs'"
  by (induction rs rule: submitted_ids.induct) auto

lemma lives_simulate:
  assumes laws: "server_json_law L" "total_json L"
    and "holds_mail L used (disk p) q" "\<forall>f \<in> set fs. db_path (lf_env f) = p"
    and "list_all clock_ok (all_requests fs)" "distinct (submitted_ids (all_requests fs))"
    and "set (submitted_ids (all_requests fs)) \<inter> used = {}"
  shows "map snd (relay_lives L H fs disk) = map Ok (spec_run (map fst (relay_lives L H fs disk)) q)"
  using assms(3-)
proof (induction fs arbitrary: used disk q)
  case (Cons f fs)
  let ?m = "relay_main L (lf_root f) (lf_server f) H (lf_env f) disk"
  have p: "db_path (lf_env f) = p"
    using Cons.prems by simp
  have reqs: "all_requests (f # fs) = lf_requests f @ all_requests fs"
    by (simp add: all_requests_def)
  have on_disk: "holds_mail L used (snd ?m p) q"
    using holds_mail_main(1) [of L used disk "lf_env f"] Cons.prems(1) p by blast
  show ?case
  proof (cases "fst ?m")
    case (Err m)
    then have "relay_lives L H (f # fs) disk = relay_lives L H fs (snd ?m)"
      by (cases ?m) simp
    then show ?thesis
      using Cons.IH [of used "snd ?m" q] on_disk Cons.prems by (auto simp: reqs)
  next
    case (Ok d)
    have sim: "simulates L used (rd_store d) q"
      using holds_mail_main(2) [OF _ Ok] Cons.prems(1) p by simp
    obtain q' where q': "simulates L (set (submitted_ids (lf_requests f)) \<union> used) (relay_final L (lf_requests f) (rd_store d)) q'"
      "relay_run L (lf_requests f) (rd_store d) = map Ok (spec_run (lf_requests f) q)"
      "\<And>rs'. spec_run (lf_requests f @ rs') q = spec_run (lf_requests f) q @ spec_run rs' q'"
      using final_simulates [OF laws sim, of "lf_requests f"] Cons.prems by (auto simp: reqs)
    obtain disk' where disk': "disk' = (snd ?m)(p := rs_db (relay_final L (lf_requests f) (rd_store d)))"
      by blast
    have lives: "relay_lives L H (f # fs) disk
        = zip (lf_requests f) (relay_run L (lf_requests f) (rd_store d)) @ relay_lives L H fs disk'"
      using Ok p by (cases ?m) (simp add: disk')
    have "holds_mail L (set (submitted_ids (lf_requests f)) \<union> used) (disk' p) q'"
      using q'(1) by (auto simp: holds_mail_def disk' intro: simulates_db)
    then have "map snd (relay_lives L H fs disk') = map Ok (spec_run (map fst (relay_lives L H fs disk')) q')"
      using Cons.IH [of "set (submitted_ids (lf_requests f)) \<union> used" disk' q'] Cons.prems by (auto simp: reqs simp del: fun_upd_apply)
    then show ?thesis
      unfolding lives by (simp add: q'(2,3))
  qed
qed simp

text \<open>A configuration with which the relay starts, on a file that is new or has the same key.\<close>

definition starts_up :: "server_lib \<Rightarrow> 'c host \<Rightarrow> string \<Rightarrow> life \<Rightarrow> bool" where
  "starts_up L H key f \<longleftrightarrow> lf_env f ''PARDA_DB_KEY'' = Some key
    \<and> is_ok (from_trust_root (relay_certs L) (lf_root f) (lf_server f))
    \<and> is_ok (and_then (listen_addr H (lf_env f) ''PARDA_BIND'' ''127.0.0.1:8080'') (\<lambda>addr.
        and_then (tls_or_panic (lf_env f)) (serve_or_panic H ''server error'' addr)))"

lemma locked_key:
  "(\<And>d. db_key (snd (f d)) = db_key d) \<Longrightarrow> db_key (rs_db (snd (locked f s))) = db_key (rs_db s)"
  using prod.collapse [of "f (rs_db s)"]
  by (auto simp: locked_def split: prod.split result.split) (metis snd_conv)+

lemma operations_keep_key:
  "db_key (rs_db (snd (enqueue L u e s))) = db_key (rs_db s)"
  "db_key (rs_db (snd (drain L u s))) = db_key (rs_db s)"
  "db_key (rs_db (snd (fetch_pull L t s))) = db_key (rs_db s)"
  "db_key (rs_db (snd (delete_message u i s))) = db_key (rs_db s)"
  "db_key (rs_db (snd (stage_drained L wall t es s))) = db_key (rs_db s)"
  by (auto simp: enqueue_def drain_def fetch_pull_def delete_message_def stage_drained_def Let_def
      intro!: locked_key split: result.split option.split prod.split)

lemma run_keeps_key: "db_key (rs_db (relay_final L rs s)) = db_key (rs_db s)"
proof (induction rs arbitrary: s)
  case (Cons r rs)
  have "db_key (rs_db (snd (relay_exec L r s))) = db_key (rs_db s)"
  proof (cases r)
    case (Stage wall t u)
    then show ?thesis
      using operations_keep_key(2) [of L u s] operations_keep_key(5) [of L wall t _ "snd (drain L u s)"]
      by (auto simp: handle_stage_pull_def stage_pull_def respond_def split: prod.split result.split)
  qed (simp_all add: submit_message_def fetch_messages_def handle_delete_message_def handle_fetch_pull_def respond_def
      operations_keep_key)
  with Cons.IH show ?case by simp
qed simp

lemma starting_succeeds:
  assumes "starts_up L H key f" "db_key (disk (db_path (lf_env f))) \<in> {None, Some key}"
  obtains d where "fst (relay_main L (lf_root f) (lf_server f) H (lf_env f) disk) = Ok d"
    "db_key (rs_db (rd_store d)) = Some key"
proof -
  obtain ca addr tls l where ca: "lf_env f ''PARDA_DB_KEY'' = Some key"
      "from_trust_root (relay_certs L) (lf_root f) (lf_server f) = Ok ca"
    and serves: "listen_addr H (lf_env f) ''PARDA_BIND'' ''127.0.0.1:8080'' = Ok addr" "tls_or_panic (lf_env f) = Ok tls"
      "serve_or_panic H ''server error'' addr tls = Ok l"
    using assms(1) by (auto simp: starts_up_def is_ok_iff and_then_Ok_iff)
  obtain s where "s = \<lparr>rs_db = relay_run_migrations ((disk (db_path (lf_env f)))\<lparr>db_key := Some key\<rparr>), rs_poisoned = False, rs_ca = ca\<rparr>"
    by blast
  moreover from this have "relay_store_new L (lf_root f) (lf_server f) disk (lf_env f) = Ok s"
    using ca assms(2) by (auto simp: relay_store_new_def relay_from_connection_def expect_def db_path_def env_or_def split: option.splits)
  ultimately show ?thesis
    by (intro that [of "\<lparr>rd_store = s, rd_addr = addr, rd_listening = l\<rparr>"])
      (simp_all add: relay_main_def serves relay_run_migrations_def Let_def)
qed

lemma life_serves:
  assumes "starts_up L H key f" "db_path (lf_env f) = p" "db_key (disk p) \<in> {None, Some key}"
  obtains disk' where "map fst (relay_lives L H (f # fs) disk) = lf_requests f @ map fst (relay_lives L H fs disk')"
    "db_key (disk' p) = Some key"
proof -
  let ?m = "relay_main L (lf_root f) (lf_server f) H (lf_env f) disk"
  obtain d where d: "fst ?m = Ok d" "db_key (rs_db (rd_store d)) = Some key"
    using starting_succeeds [of L H key f disk] assms by auto
  show ?thesis
  proof (rule that)
    show "map fst (relay_lives L H (f # fs) disk) = lf_requests f
        @ map fst (relay_lives L H fs ((snd ?m)(p := rs_db (relay_final L (lf_requests f) (rd_store d)))))"
      using d(1) assms(2) by (cases ?m) (simp add: served_zip)
    show "db_key (((snd ?m)(p := rs_db (relay_final L (lf_requests f) (rd_store d)))) p) = Some key"
      by (simp add: run_keeps_key d(2))
  qed
qed

lemma lives_all_serve:
  assumes "db_key (disk p) \<in> {None, Some key}" "\<forall>f \<in> set fs. db_path (lf_env f) = p \<and> starts_up L H key f"
  shows "map fst (relay_lives L H fs disk) = all_requests fs"
  using assms
proof (induction fs arbitrary: disk)
  case (Cons f fs)
  then obtain disk' where "map fst (relay_lives L H (f # fs) disk) = lf_requests f @ map fst (relay_lives L H fs disk')"
    "db_key (disk' p) = Some key"
    using life_serves [of L H key f p disk fs] by auto
  with Cons show ?case
    by (auto simp: all_requests_def)
qed (simp add: all_requests_def)

text \<open>A start that fails serves nothing and keeps the key of the file.\<close>

lemma life_fails:
  assumes "fst (relay_main L (lf_root f) (lf_server f) H (lf_env f) disk) = Err m" "db_key (disk p) = Some key"
  obtains disk' where "relay_lives L H (f # fs) disk = relay_lives L H fs disk'" "db_key (disk' p) = Some key"
proof -
  let ?m = "relay_main L (lf_root f) (lf_server f) H (lf_env f) disk"
  have "db_key (snd ?m p) = Some key"
    using assms(2) by (auto simp: relay_main_def file_after_opening_def relay_run_migrations_def Let_def split: option.split)
  moreover have "relay_lives L H (f # fs) disk = relay_lives L H fs (snd ?m)"
    using assms(1) by (cases ?m) simp
  ultimately show ?thesis by (rule that [rotated])
qed

text \<open>A node does something later only for a packet that it accepted, and then one thing.\<close>

lemma node_app_tasks:
  assumes "node_app S sig b64 m path body now st tasks = (r, tasks')"
  shows "tasks' = tasks \<and> r \<noteq> Ok NodeAccepted
    \<or> (\<exists>bs oc. m = POST \<and> path = [''mix'', ''packet''] \<and> body = Ok bs \<and> r = Ok NodeAccepted
        \<and> process_packet S bs (ns_secret_key st) = Ok oc \<and> tasks' = schedule now oc tasks)"
  using assms
  by (auto simp: node_app_def node_route_def node_pubkey_def receive_packet_def
      split: if_splits result.splits option.splits node_endpoint.splits)

text \<open>The key of the relay's database may be empty: only an unset variable stops the start.\<close>

lemma empty_db_key_is_accepted:
  assumes "env ''PARDA_DB_KEY'' = Some []" "disk (db_path env) = new_relay_file"
    and "from_trust_root (relay_certs L) ca_key kp = Ok ca"
  shows "is_ok (relay_store_new L ca_key kp disk env)"
  using assms
  by (auto simp: relay_store_new_def relay_from_connection_def new_relay_file_def db_path_def env_or_def expect_def
      split: option.splits)

section \<open>Properties\<close>

text \<open>
  C8: Restarts of the relay are invisible to its clients.  Whatever the lives of a relay on one
  database file, with failed starts among them (a wrong key, an unparsable address, a half
  configured TLS) and with new certificate keys each time, the requests that were served get,
  over all lives, the answers of one uninterrupted run of the abstract mailboxes; and with a
  configuration that starts, every life serves.
\<close>

theorem relay_restarts_are_invisible:
  assumes "server_json_law L" "total_json L" "disk p = new_relay_file" "\<forall>f \<in> set fs. db_path (lf_env f) = p"
    and "distinct (submitted_ids (all_requests fs))" "list_all clock_ok (all_requests fs)"
  shows "map snd (relay_lives L H fs disk) = map Ok (spec_run (map fst (relay_lives L H fs disk)) no_mail)
    \<and> ((\<forall>f \<in> set fs. starts_up L H key f) \<longrightarrow> map fst (relay_lives L H fs disk) = all_requests fs)"
proof -
  have "holds_mail L {} (disk p) no_mail"
    by (simp add: holds_mail_def assms(3))
  then show ?thesis
    using lives_simulate [OF assms(1,2) _ assms(4) assms(6,5), of "{}" disk no_mail H]
      lives_all_serve [of disk p key fs L H] assms(3,4) by (auto simp: new_relay_file_def)
qed

definition toy_host :: "string host" where
  "toy_host = \<lparr>parse_addr = (\<lambda>a. if a = ''bad'' then Err ''invalid socket address syntax'' else Ok a),
     bind_port = (\<lambda>_. Ok ()), tls_of = toy_tls_lib\<rparr>"

definition toy_life :: "environment \<Rightarrow> mail_request list \<Rightarrow> life" where
  "toy_life env rs = \<lparr>lf_root = ([1], [2]), lf_server = ([3], [4]), lf_env = env, lf_requests = rs\<rparr>"

lemma toy_life_starts:
  "env ''PARDA_DB_KEY'' = Some ''k'' \<Longrightarrow> env ''PARDA_BIND'' = None \<Longrightarrow> env ''PARDA_TLS_ENABLED'' = None
    \<Longrightarrow> starts_up total_server toy_host ''k'' (toy_life env rs)"
  by (simp add: starts_up_def toy_life_def total_server_def toy_server_def from_trust_root_def toy_certs_def
      listen_addr_def env_or_def toy_host_def tls_or_panic_def tls_from_env_def serve_or_panic_def serve_with_def
      build_config_def expect_def)

text \<open>A mail survives a start with the wrong key, one with a bad address, and a new life.\<close>

theorem relay_restarts_are_invisible_witness:
  "\<exists>disk fs. map fst (relay_lives total_server toy_host fs disk) = [Submit ''1'' mail, Fetch ''bob'', Fetch ''bob'']
    \<and> length fs = 4 \<and> map snd (relay_lives total_server toy_host fs disk)
      = map Ok [Response 201 (SubmittedBody True ''1''), Response 200 (MessagesBody [stored_mail]), Response 200 (MessagesBody [])]"
proof -
  let ?good = "[''PARDA_DB_KEY'' \<mapsto> ''k'']"
  let ?f1 = "toy_life ?good [Submit ''1'' mail]"
  let ?f2 = "toy_life [''PARDA_DB_KEY'' \<mapsto> ''other''] []"
  let ?f3 = "toy_life (?good(''PARDA_BIND'' \<mapsto> ''bad'')) []"
  let ?f4 = "toy_life ?good [Fetch ''bob'', Fetch ''bob'']"
  let ?p = "''parda-relay.sqlite3''"
  let ?disk = "\<lambda>_ :: string. new_relay_file"
  have p: "db_path (lf_env f) = ?p" if "f \<in> {?f1, ?f2, ?f3, ?f4}" for f
    using that by (auto simp: db_path_def env_or_def toy_life_def)
  obtain d1 where d1: "map fst (relay_lives total_server toy_host [?f1, ?f2, ?f3, ?f4] ?disk)
      = [Submit ''1'' mail] @ map fst (relay_lives total_server toy_host [?f2, ?f3, ?f4] d1)" "db_key (d1 ?p) = Some ''k''"
    using life_serves [OF toy_life_starts p, of ?good "[Submit ''1'' mail]" ?disk "[?f2, ?f3, ?f4]"]
    by (auto simp: new_relay_file_def toy_life_def)
  have "fst (relay_main total_server (lf_root ?f2) (lf_server ?f2) toy_host (lf_env ?f2) d1)
      = Err (''failed to unlock relay database '' @ em_dash @ '' wrong PARDA_DB_KEY, or the file is not a SQLCipher database'')"
    using d1(2) by (simp add: relay_main_def relay_store_new_def relay_from_connection_def toy_life_def)
  then obtain d2 where d2: "relay_lives total_server toy_host [?f2, ?f3, ?f4] d1 = relay_lives total_server toy_host [?f3, ?f4] d2"
    "db_key (d2 ?p) = Some ''k''"
    using life_fails [of total_server ?f2 toy_host d1 _ ?p "''k''" "[?f3, ?f4]"] d1(2) by blast
  have "\<exists>m. fst (relay_main total_server (lf_root ?f3) (lf_server ?f3) toy_host (lf_env ?f3) d2) = Err m"
    using d2(2) by (simp add: relay_main_def relay_store_new_def relay_from_connection_def toy_life_def total_server_def
        toy_server_def from_trust_root_def toy_certs_def listen_addr_def env_or_def toy_host_def expect_def)
  then obtain d3 where d3: "relay_lives total_server toy_host [?f3, ?f4] d2 = relay_lives total_server toy_host [?f4] d3"
    "db_key (d3 ?p) = Some ''k''"
    using life_fails [of total_server ?f3 toy_host d2 _ ?p "''k''" "[?f4]"] d2(2) by blast
  obtain d4 where "map fst (relay_lives total_server toy_host [?f4] d3)
      = [Fetch ''bob'', Fetch ''bob''] @ map fst (relay_lives total_server toy_host [] d4)"
    using life_serves [OF toy_life_starts p, of ?good "[Fetch ''bob'', Fetch ''bob'']" d3 "[]"] d3(2)
    by (auto simp: toy_life_def)
  with d1 d2 d3 have served: "map fst (relay_lives total_server toy_host [?f1, ?f2, ?f3, ?f4] ?disk)
      = [Submit ''1'' mail, Fetch ''bob'', Fetch ''bob'']"
    by simp
  have "map snd (relay_lives total_server toy_host [?f1, ?f2, ?f3, ?f4] ?disk)
      = map Ok (spec_run [Submit ''1'' mail, Fetch ''bob'', Fetch ''bob''] no_mail)"
  proof -
    have "all_requests [?f1, ?f2, ?f3, ?f4] = [Submit ''1'' mail, Fetch ''bob'', Fetch ''bob'']"
      by (simp add: all_requests_def toy_life_def)
    then have "distinct (submitted_ids (all_requests [?f1, ?f2, ?f3, ?f4]))" "list_all clock_ok (all_requests [?f1, ?f2, ?f3, ?f4])"
      by simp_all
    moreover have "\<forall>f \<in> set [?f1, ?f2, ?f3, ?f4]. db_path (lf_env f) = ?p"
      using p by simp
    ultimately show ?thesis
      using relay_restarts_are_invisible [OF total_server_laws, of ?disk ?p "[?f1, ?f2, ?f3, ?f4]" toy_host, THEN conjunct1]
      unfolding served by blast
  qed
  also have "spec_run [Submit ''1'' mail, Fetch ''bob'', Fetch ''bob''] no_mail
      = [Response 201 (SubmittedBody True ''1''), Response 200 (MessagesBody [stored_mail]), Response 200 (MessagesBody [])]"
    by (simp add: no_mail_def claimed_time_def as_i64_def mail_def stored_mail_def Let_def)
  finally have answers: "map snd (relay_lives total_server toy_host [?f1, ?f2, ?f3, ?f4] ?disk)
      = map Ok [Response 201 (SubmittedBody True ''1''), Response 200 (MessagesBody [stored_mail]), Response 200 (MessagesBody [])]" .
  show ?thesis
    by (rule exI, rule exI, rule conjI [OF served conjI [OF _ answers]]) simp
qed

text \<open>
  C16: A mix node keeps its identity over every start.  As soon as one start with a key path drew
  and wrote a key, be it a start that then fails on its listen address or its TLS settings,
  every later start with that path that gets as far as its state has that key, whatever fresh
  key it might have drawn, and a node that runs publishes the public key of it and emits cover
  traffic exactly when it has enough usable peers.
\<close>

theorem node_identity_survives_every_start:
  assumes "mixnode_main S b64_decode H env k fs = (r, fs')" "env ''MIXNODE_RELAY_URL'' \<noteq> None"
    and "env ''MIXNODE_SECRET_KEY_HEX'' = None" "env ''MIXNODE_KEY_PATH'' = Some path"
    and "files fs path = None" "read_fault fs path = None" "create_fault fs path = None" "length k = 32"
    and "env' ''MIXNODE_SECRET_KEY_HEX'' = None" "env' ''MIXNODE_KEY_PATH'' = Some path"
    and "mixnode_main S b64_decode H' env' k' fs' = (Ok d, fs'')"
  shows "nd_state d = new_node_state S k (the (env' ''MIXNODE_RELAY_URL'')) \<and> fs'' = fs'
    \<and> node_pubkey b64 (nd_state d) = NodePublicKey (b64 (x25519_public S k))
    \<and> (nd_cover d \<noteq> None \<longleftrightarrow> MIN_PATH_LENGTH \<le> length (parse_peers b64_decode (env_or env' ''MIXNODE_PEERS'' [])))"
proof -
  have "load_or_generate env k fs = (Ok k, fs\<lparr>files := (files fs)(path \<mapsto> hex_bytes k)\<rparr>)"
    using assms(3-7) by (simp add: load_or_generate_def load_or_create_key_file_def write_key_file_def)
  then have fs': "fs' = fs\<lparr>files := (files fs)(path \<mapsto> hex_bytes k)\<rparr>"
    using assms(1,2) by (auto simp: mixnode_main_def Let_def)
  have "load_or_generate env' k' fs' = (Ok k, fs')"
    using assms(6,8-10) by (simp add: load_or_generate_def load_or_create_key_file_def fs')
  then have "nd_state d = new_node_state S k (the (env' ''MIXNODE_RELAY_URL''))" "fs'' = fs'"
    "nd_cover d = spawn_cover (parse_peers b64_decode (env_or env' ''MIXNODE_PEERS'' [])) (cover_interval env')"
    using assms(11) by (auto simp: mixnode_main_def Let_def and_then_Ok_iff split: option.splits)
  then show ?thesis
    by (simp add: node_pubkey_def new_node_state_def spawn_cover_def cover_enabled_def)
qed

theorem node_identity_survives_every_start_witness:
  "\<exists>fs' d. mixnode_main toy_sphinx (\<lambda>_. None) toy_host
       [''MIXNODE_RELAY_URL'' \<mapsto> ''r'', ''MIXNODE_KEY_PATH'' \<mapsto> ''k'', ''MIXNODE_BIND'' \<mapsto> ''bad''] (replicate 32 7)
       \<lparr>files = (\<lambda>_. None), read_fault = (\<lambda>_. None), create_fault = (\<lambda>_. None)\<rparr>
     = (Err ''MIXNODE_BIND is not a valid socket address (bad): invalid socket address syntax'', fs')
   \<and> mixnode_main toy_sphinx (\<lambda>_. None) toy_host
       [''MIXNODE_RELAY_URL'' \<mapsto> ''r'', ''MIXNODE_KEY_PATH'' \<mapsto> ''k''] (replicate 32 9) fs' = (Ok d, fs')
   \<and> nd_state d = new_node_state toy_sphinx (replicate 32 7) ''r''"
proof -
  let ?env = "[''MIXNODE_RELAY_URL'' \<mapsto> ''r'', ''MIXNODE_KEY_PATH'' \<mapsto> ''k'']"
  let ?fs = "\<lparr>files = (\<lambda>_. None), read_fault = (\<lambda>_. None), create_fault = (\<lambda>_. None)\<rparr>"
  obtain fs' where 1: "mixnode_main toy_sphinx (\<lambda>_. None) toy_host (?env(''MIXNODE_BIND'' \<mapsto> ''bad'')) (replicate 32 7) ?fs
      = (Err ''MIXNODE_BIND is not a valid socket address (bad): invalid socket address syntax'', fs')"
      "fs' = ?fs\<lparr>files := (\<lambda>_. None)(''k'' \<mapsto> hex_bytes (replicate 32 7))\<rparr>"
    by (simp add: mixnode_main_def load_or_generate_def load_or_create_key_file_def write_key_file_def listen_addr_def
        env_or_def toy_host_def Let_def)
  obtain d fs'' where 2: "mixnode_main toy_sphinx (\<lambda>_. None) toy_host ?env (replicate 32 9) fs' = (Ok d, fs'')"
    by (simp add: mixnode_main_def load_or_generate_def load_or_create_key_file_def 1(2) listen_addr_def
        env_or_def toy_host_def Let_def tls_or_panic_def tls_from_env_def serve_or_panic_def serve_with_def
        build_config_def expect_def)
  have "nd_state d = new_node_state toy_sphinx (replicate 32 7) ''r'' \<and> fs'' = fs'"
    using node_identity_survives_every_start [OF 1(1) _ _ _ _ _ _ _ _ _ 2, of "''k''"] by simp
  with 1(1) 2 show ?thesis by blast
qed

text \<open>
  C15: Configured API keys are enforced.  A gateway whose \<open>PARDA_GATEWAY_API_KEYS\<close> has an entry
  that is not blank starts with authentication on, and a request to any route but the health
  check that presents none of the entries, as trimmed, is answered 401 without a request to the
  relay; a variable that is unset or has only blank entries starts an open gateway, which is
  logged as a warning.
\<close>

theorem configured_keys_are_enforced:
  assumes "gateway_main parse_f64 H env = Ok g"
  shows "let entries = map trim (split_on (CHR '','') (env_or env ''PARDA_GATEWAY_API_KEYS'' []))
    in ((\<exists>k \<in> set entries. k \<noteq> []) \<longrightarrow> hd (gd_postures g) = LogInfo
          \<and> (\<forall>rnd Ht now ep r n. ep \<noteq> GwHealth \<and> (\<forall>k. presented_key r = Some k \<longrightarrow> k = [] \<or> k \<notin> set entries)
              \<longrightarrow> (\<exists>d. app_with_security rnd Ht (gd_relay_base_url g) now ep r (gd_security g) n
                    = (unauthorized d, gd_security g, n :: 'n))))
      \<and> (set entries \<subseteq> {[]} \<longrightarrow> hd (gd_postures g) = LogWarn \<and> \<not> auth_enabled (gd_security g))"
proof -
  let ?entries = "map trim (split_on (CHR '','') (env_or env ''PARDA_GATEWAY_API_KEYS'' []))"
  have g: "gd_security g = security_from_env parse_f64 env" "hd (gd_postures g) = security_posture (gd_security g)"
    using assms by (auto simp: gateway_main_def and_then_Ok_iff Let_def)
  have ks: "set (api_keys (gd_security g))
      = set (map trim (split_on (CHR '','') (env_or env ''PARDA_GATEWAY_API_KEYS'' []))) - {[]}"
    by (auto simp: g security_from_env_def new_api_security_def env_or_def Let_def)
  have auth: "auth_enabled (gd_security g) \<longleftrightarrow> set (api_keys (gd_security g)) \<noteq> {}"
    by (simp add: auth_enabled_def)
  have "\<exists>d. app_with_security rnd Ht (gd_relay_base_url g) now ep r (gd_security g) n = (unauthorized d, gd_security g, n)"
    if "\<exists>k \<in> set ?entries. k \<noteq> []" "ep \<noteq> GwHealth \<and> (\<forall>k. presented_key r = Some k \<longrightarrow> k = [] \<or> k \<notin> set ?entries)"
    for rnd now ep r and Ht :: "'n relay_http" and n :: 'n
  proof -
    have "auth_enabled (gd_security g)" "\<forall>k. presented_key r = Some k \<longrightarrow> k \<notin> set (api_keys (gd_security g))"
      using that unfolding auth ks by blast+
    then show ?thesis
      using auth_failure [of "gd_security g" r] that(2)
      by (auto simp: app_with_security_def api_security_middleware_def)
  qed
  moreover have "\<exists>k \<in> set ?entries. k \<noteq> [] \<Longrightarrow> auth_enabled (gd_security g)"
    "set ?entries \<subseteq> {[]} \<Longrightarrow> \<not> auth_enabled (gd_security g)"
    unfolding auth ks by blast+
  ultimately show ?thesis
    unfolding Let_def g(2) security_posture_def by (simp del: set_map)
qed

theorem configured_keys_are_enforced_witness:
  "\<exists>g d. gateway_main (\<lambda>_. None) toy_host [''PARDA_RELAY_URL'' \<mapsto> ''r'', ''PARDA_GATEWAY_API_KEYS'' \<mapsto> '' yes ,'']
      = Ok g
    \<and> app_with_security Fin toy_gateway_http (gd_relay_base_url g) 0 (GwFetch ''bob'')
        \<lparr>authorization = None, peer_ip = None, request_body = []\<rparr> (gd_security g) 0 = (unauthorized d, gd_security g, 0)"
proof -
  let ?env = "[''PARDA_RELAY_URL'' \<mapsto> ''r'', ''PARDA_GATEWAY_API_KEYS'' \<mapsto> '' yes ,'']"
  obtain g where g: "gateway_main (\<lambda>_. None) toy_host ?env = Ok g"
    by (simp add: gateway_main_def listen_addr_def env_or_def toy_host_def Let_def tls_or_panic_def tls_from_env_def
        serve_or_panic_def serve_with_def build_config_def expect_def)
  have "trim '' yes '' \<noteq> []"
    by code_simp
  then show ?thesis
    using configured_keys_are_enforced [OF g, where ?'n = nat] g by (auto simp: Let_def env_or_def presented_key_def)
qed

end
