(* ===== verification/Gateway_Relay.thy ===== *)
theory Gateway_Relay
  imports Gateway Relay_Spec
begin

text \<open>
  The gateway in front of the relay: the requests of the gateway's HTTP client
  (\<open>gateway/src/routes.rs\<close>) are answered by the relay's router (\<open>server/src/lib.rs\<close>), and a
  messaging client that only knows the gateway gets the relay's mailboxes.
\<close>

section \<open>The wire\<close>

text \<open>
  How a URL becomes the decoded path segments of a request, how the relay's \<open>Json\<close> extractor
  reads a body for an endpoint, and how its responses are written.
\<close>

record wire =
  url_segments :: "string \<Rightarrow> string list option"
  read_payload :: "string option \<Rightarrow> endpoint \<Rightarrow> bytes \<Rightarrow> payload"
  write_envelope :: "message_envelope \<Rightarrow> bytes"
  write_body :: "relay_body \<Rightarrow> bytes"

text \<open>Identifiers of unreserved characters stand in a URL for themselves.\<close>

definition plain_id :: "string \<Rightarrow> bool" where
  "plain_id s \<longleftrightarrow> s \<noteq> [] \<and> set s \<subseteq> set (''abcdefghijklmnopqrstuvwxyz''
    @ ''ABCDEFGHIJKLMNOPQRSTUVWXYZ0123456789-_'')"

definition wire_law :: "wire \<Rightarrow> string \<Rightarrow> bool" where
  "wire_law W base \<longleftrightarrow>
    (\<forall>u. plain_id u \<longrightarrow> url_segments W (base @ ''/v1/messages/'' @ u) = Some [''v1'', ''messages'', u])
    \<and> (\<forall>u i. plain_id u \<and> plain_id i \<longrightarrow>
        url_segments W (base @ ''/v1/messages/'' @ u @ ''/'' @ i) = Some [''v1'', ''messages'', u, i])
    \<and> (\<forall>u e. read_payload W (Some ''application/json'') (SubmitMessage u) (write_envelope W e) = EnvelopeJson e)"

fun method_of :: "verb \<Rightarrow> http_method" where
  "method_of Get = GET"
| "method_of Post = POST"
| "method_of verb.Delete = DELETE"

text \<open>A host that is not the relay refuses the connection; a handler that panics closes it.\<close>

definition relay_answers ::
  "server_lib \<Rightarrow> wire \<Rightarrow> relay_env \<Rightarrow> verb \<Rightarrow> string \<Rightarrow> string option \<Rightarrow> bytes \<Rightarrow> server_store
    \<Rightarrow> (relay_reply, string) result \<times> server_store" where
  "relay_answers L W E v url content_type body s =
    (case url_segments W url of
       None \<Rightarrow> (Err ''connection refused'', s)
     | Some path \<Rightarrow>
         let data = (case relay_route (method_of v) path of
                 Ok ep \<Rightarrow> read_payload W content_type ep body | Err code \<Rightarrow> Refused code);
             (r, s') = relay_app L E (method_of v) path data s
         in (case r of
               Err _ \<Rightarrow> Err ''connection closed''
             | Ok (Response code b) \<Rightarrow> Ok \<lparr>rr_status = code, rr_body = Ok (write_body W b)\<rparr>, s'))"

definition relay_behind ::
  "server_lib \<Rightarrow> wire \<Rightarrow> relay_env \<Rightarrow> server_store relay_http" where
  "relay_behind L W E = \<lparr>relay_request = relay_answers L W E, json_of = Ok,
     extract_bundle = (\<lambda>_. Err 422), encode_bundle = (\<lambda>_. Err [])\<rparr>"

section \<open>Clients of the gateway\<close>

text \<open>
  A call: when it is made, the client's credentials and address, and what it wants of the
  mailboxes, with the identifier the relay will draw for a submission.
\<close>

record call =
  cl_now :: duration
  cl_authorization :: "string option"
  cl_peer :: "string option"
  cl_wants :: mail_request

fun gateway_endpoint_for :: "mail_request \<Rightarrow> gateway_endpoint option" where
  "gateway_endpoint_for (Submit i e) = Some (GwSubmit (recipient_id e))"
| "gateway_endpoint_for (Fetch u) = Some (GwFetch u)"
| "gateway_endpoint_for (mail_request.Delete u i) = Some (GwDelete u i)"
| "gateway_endpoint_for _ = None"

fun drawn_id :: "mail_request \<Rightarrow> string" where
  "drawn_id (Submit i e) = i"
| "drawn_id _ = []"

fun sent_body :: "wire \<Rightarrow> mail_request \<Rightarrow> bytes" where
  "sent_body W (Submit i e) = write_envelope W e"
| "sent_body W _ = []"

definition call_env :: "call \<Rightarrow> relay_env" where
  "call_env c = \<lparr>re_version = [], re_msg_id = drawn_id (cl_wants c), re_wall = 0\<rparr>"

definition call_request :: "wire \<Rightarrow> call \<Rightarrow> gateway_request" where
  "call_request W c =
    \<lparr>authorization = cl_authorization c, peer_ip = cl_peer c, request_body = sent_body W (cl_wants c)\<rparr>"

definition gateway_exec ::
  "rounding \<Rightarrow> server_lib \<Rightarrow> wire \<Rightarrow> string \<Rightarrow> call \<Rightarrow> api_security \<Rightarrow> server_store
    \<Rightarrow> gateway_reply \<times> api_security \<times> server_store" where
  "gateway_exec rnd L W base c sec s =
    (case gateway_endpoint_for (cl_wants c) of
       None \<Rightarrow> (Reply 404 (RawBytes []), sec, s)
     | Some ep \<Rightarrow> app_with_security rnd (relay_behind L W (call_env c)) base (cl_now c) ep
         (call_request W c) sec s)"

fun gateway_run ::
  "rounding \<Rightarrow> server_lib \<Rightarrow> wire \<Rightarrow> string \<Rightarrow> call list \<Rightarrow> api_security \<Rightarrow> server_store
    \<Rightarrow> (mail_request \<times> gateway_reply) list" where
  "gateway_run rnd L W base [] sec s = []"
| "gateway_run rnd L W base (c # cs) sec s =
    (let (reply, sec', s') = gateway_exec rnd L W base c sec s
     in (cl_wants c, reply) # gateway_run rnd L W base cs sec' s')"

text \<open>A reply of the security layer, and the reply a relay's response becomes.\<close>

fun refused :: "gateway_reply \<Rightarrow> bool" where
  "refused (Reply code (SecurityBody k d)) = True"
| "refused _ = False"

fun passed_on :: "wire \<Rightarrow> relay_response \<Rightarrow> gateway_reply" where
  "passed_on W (Response code b) = Reply code (RawBytes (write_body W b))"

text \<open>What the security layer admits, which depends on the credentials, the time and its buckets only.\<close>

fun admitted :: "rounding \<Rightarrow> wire \<Rightarrow> call list \<Rightarrow> api_security \<Rightarrow> mail_request list" where
  "admitted rnd W [] sec = []"
| "admitted rnd W (c # cs) sec =
    (case bucket_key sec (call_request W c) of
       Err _ \<Rightarrow> admitted rnd W cs sec
     | Ok key \<Rightarrow>
         let (b, rl) = try_acquire rnd (cl_now c) key (limiter sec)
         in (if b then [cl_wants c] else []) @ admitted rnd W cs (sec\<lparr>limiter := rl\<rparr>))"

text \<open>A client may submit, fetch and delete; a pull has no route at the gateway.\<close>

fun plain_request :: "mail_request \<Rightarrow> bool" where
  "plain_request (Submit i e) = plain_id (recipient_id e)"
| "plain_request (Fetch u) = plain_id u"
| "plain_request (mail_request.Delete u i) = (plain_id u \<and> plain_id i)"
| "plain_request _ = False"

section \<open>Lemmas\<close>

lemma plain_id_not_Nil [simp]: "plain_id u \<Longrightarrow> u \<noteq> []"
  by (auto simp: plain_id_def)

text \<open>The relay answers the gateway's request as it would answer the client itself.\<close>

lemma forwarded:
  assumes "wire_law W base" "plain_request r" "gateway_endpoint_for r = Some ep"
    and "relay_exec L r s = (Ok (Response code b), s')" "100 \<le> code" "code < 1000"
  shows "gateway_forward (relay_behind L W \<lparr>re_version = v, re_msg_id = drawn_id r, re_wall = wall\<rparr>) base ep
      \<lparr>authorization = a, peer_ip = p, request_body = sent_body W r\<rparr> s = (passed_on W (Response code b), s')"
  using assms
  by (cases r) (auto simp: wire_law_def gateway_forward_def gw_submit_message_def gw_fetch_messages_def gw_delete_message_def
      relay_behind_def relay_answers_def relay_route_def methods_def relay_app_def relay_handle_def
      forward_raw_def forwarded_status_def from_u16_def)

lemma spec_status: "fst (spec_step r q) = Response code b \<Longrightarrow> code \<in> {200, 201, 202, 404}"
  by (cases r) (auto simp: Let_def split: if_splits)

text \<open>A call is refused before it reaches the relay, or answered as by the mailboxes.\<close>

lemma gateway_exec_cases:
  assumes laws: "wire_law W base" "server_json_law L" "total_json L" and plain: "plain_request (cl_wants c)"
    and sim: "simulates L used s q" and fresh: "set (submitted_ids [cl_wants c]) \<inter> used = {}"
  obtains (refuses) reply sec' where "gateway_exec rnd L W base c sec s = (reply, sec', s)" "refused reply"
      "\<And>cs. admitted rnd W (c # cs) sec = admitted rnd W cs sec'"
  | (serves) sec' s' where
      "gateway_exec rnd L W base c sec s = (passed_on W (fst (spec_step (cl_wants c) q)), sec', s')"
      "simulates L (set (submitted_ids [cl_wants c]) \<union> used) s' (snd (spec_step (cl_wants c) q))"
      "\<And>cs. admitted rnd W (c # cs) sec = cl_wants c # admitted rnd W cs sec'"
proof -
  obtain ep where ep: "gateway_endpoint_for (cl_wants c) = Some ep" "ep \<noteq> GwHealth" and clock: "clock_ok (cl_wants c)"
    using plain by (cases "cl_wants c") auto
  obtain s1 where s1: "relay_exec L (cl_wants c) s = (Ok (fst (spec_step (cl_wants c) q)), s1)"
    "simulates L (set (submitted_ids [cl_wants c]) \<union> used) s1 (snd (spec_step (cl_wants c) q))"
    using relay_simulates [OF laws(2,3) sim clock fresh] .
  obtain code b where resp: "fst (spec_step (cl_wants c) q) = Response code b"
    by (cases "fst (spec_step (cl_wants c) q)")
  then have fwd: "gateway_forward (relay_behind L W (call_env c)) base ep (call_request W c) s
    = (passed_on W (fst (spec_step (cl_wants c) q)), s1)"
    using forwarded [OF laws(1) plain ep(1)] s1(1) spec_status [OF resp] by (auto simp: call_env_def call_request_def)
  show ?thesis
  proof (cases "bucket_key sec (call_request W c)")
    case (Err reply)
    then have "refused reply"
      by (auto simp: bucket_key_def unauthorized_def split: if_splits option.splits)
    then show ?thesis
      using Err by (intro refuses [of reply sec])
        (simp_all add: gateway_exec_def ep app_with_security_def api_security_middleware_def)
  next
    case (Ok key)
    obtain adm rl where acq: "try_acquire rnd (cl_now c) key (limiter sec) = (adm, rl)"
      by force
    show ?thesis
    proof (cases adm)
      case True
      then show ?thesis
        using Ok acq fwd s1(2) by (intro serves [of "sec\<lparr>limiter := rl\<rparr>" s1])
          (simp_all add: gateway_exec_def ep app_with_security_def api_security_middleware_def)
    next
      case False
      then show ?thesis
        using Ok acq by (intro refuses [of rate_limited "sec\<lparr>limiter := rl\<rparr>"])
          (simp_all add: gateway_exec_def ep app_with_security_def api_security_middleware_def rate_limited_def)
    qed
  qed
qed

lemma not_refused_passed_on [simp]: "\<not> refused (passed_on W x)"
  by (cases x) simp

lemma gateway_run_simulates:
  assumes laws: "wire_law W base" "server_json_law L" "total_json L"
    and "\<forall>c \<in> set cs. plain_request (cl_wants c)" "distinct (submitted_ids (map cl_wants cs))"
    and "simulates L used s q" "set (submitted_ids (map cl_wants cs)) \<inter> used = {}"
  shows "filter (\<lambda>(r, reply). \<not> refused reply) (gateway_run rnd L W base cs sec s)
    = zip (admitted rnd W cs sec) (map (passed_on W) (spec_run (admitted rnd W cs sec) q))"
  using assms(4-)
proof (induction cs arbitrary: used s q sec)
  case (Cons c cs)
  have ids: "submitted_ids (map cl_wants (c # cs)) = submitted_ids [cl_wants c] @ submitted_ids (map cl_wants cs)"
    unfolding list.map by (rule submitted_ids_Cons)
  have prems: "\<forall>c \<in> set cs. plain_request (cl_wants c)" "distinct (submitted_ids (map cl_wants cs))"
    "set (submitted_ids [cl_wants c]) \<inter> used = {}" "set (submitted_ids (map cl_wants cs)) \<inter> used = {}"
    "set (submitted_ids (map cl_wants cs)) \<inter> (set (submitted_ids [cl_wants c]) \<union> used) = {}"
    using Cons.prems unfolding ids by auto
  have plain: "plain_request (cl_wants c)"
    using Cons.prems(1) by simp
  show ?case
  proof (rule gateway_exec_cases [OF laws plain Cons.prems(3) prems(3), of rnd sec])
    fix reply sec'
    assume "gateway_exec rnd L W base c sec s = (reply, sec', s)" "refused reply"
      "\<And>cs. admitted rnd W (c # cs) sec = admitted rnd W cs sec'"
    then show ?thesis
      using Cons.IH [OF prems(1,2) Cons.prems(3) prems(4), of sec'] by (simp del: admitted.simps)
  next
    fix sec' s'
    assume "gateway_exec rnd L W base c sec s = (passed_on W (fst (spec_step (cl_wants c) q)), sec', s')"
      "simulates L (set (submitted_ids [cl_wants c]) \<union> used) s' (snd (spec_step (cl_wants c) q))"
      "\<And>cs. admitted rnd W (c # cs) sec = cl_wants c # admitted rnd W cs sec'"
    then show ?thesis
      using Cons.IH [OF prems(1,2) _ prems(5)] by (simp add: case_prod_unfold Let_def del: admitted.simps)
  qed
qed simp

section \<open>Properties\<close>


definition toy_wire :: wire where
  "toy_wire = \<lparr>url_segments = (\<lambda>url. map_option (split_on (CHR ''/'')) (strip_prefix ''http://relay/'' url)),
     read_payload = (\<lambda>ct ep body. EnvelopeJson (se_envelope (inv envelope_text (of_utf8 body)))),
     write_envelope = (\<lambda>e. utf8 (envelope_text \<lparr>se_id = [], se_envelope = e\<rparr>)),
     write_body = (\<lambda>b. case b of MessagesBody ms \<Rightarrow> replicate (length ms) 1 | _ \<Rightarrow> [])\<rparr>"

lemma split_on_plain: "c \<notin> set u \<Longrightarrow> split_on c u = [u]" "c \<notin> set u \<Longrightarrow> split_on c (u @ c # v) = u # split_on c v"
  by (induction u) auto

lemma plain_id_no_slash: "plain_id u \<Longrightarrow> CHR ''/'' \<notin> set u"
  by (auto simp: plain_id_def)

lemma toy_wire_law: "wire_law toy_wire ''http://relay''"
proof -
  have "strip_prefix ''http://relay/'' (''http://relay/v1/messages/'' @ u) = Some (''v1/messages/'' @ u)" for u
    using strip_prefix_append [of "''http://relay/''" "''v1/messages/'' @ u"] by simp
  then have "url_segments toy_wire (''http://relay'' @ ''/v1/messages/'' @ u) = Some ([''v1'', ''messages''] @ split_on (CHR ''/'') u)" for u
    using strip_prefix_append [of "''http://relay/''" "''v1/messages/'' @ u"] by (simp add: toy_wire_def)
  moreover have "inv envelope_text (envelope_text x) = x" for x
    by (rule inv_f_f [OF inj_envelope_text])
  ultimately show ?thesis
    unfolding wire_law_def
    by (auto simp: split_on_plain plain_id_no_slash) (simp_all add: toy_wire_def)
qed


end
