(* ===== verification/Bluez_Radio.thy ===== *)
theory Bluez_Radio
  imports Radio
begin

text \<open>
  The Linux radio backend (\<open>mesh/src/radio/bluez.rs\<close>): the advertisement it hands to BlueZ, the
  filter of its scan, connecting to a sighted address, and the framing of messages over an
  L2CAP byte stream.  BlueZ's answers are arguments.  The interface \<open>MeshLink\<close> is the locale
  \<open>message_link\<close>, which this backend and the simulated one both provide.
\<close>

section \<open>Advertising\<close>

type_synonym uuid = "128 word"

definition PARDA_SERVICE_UUID :: uuid where
  "PARDA_SERVICE_UUID = 0x50415244413400000000000000000001"

definition PARDA_L2CAP_PSM :: "16 word" where
  "PARDA_L2CAP_PSM = 0x1001"

record advertisement =
  ad_service_uuids :: "uuid list"
  ad_service_data :: "(uuid \<times> bytes) list"
  ad_discoverable :: "bool option"
  ad_local_name :: "string option"

definition bz_advertisement :: "advert_token \<Rightarrow> advertisement" where
  "bz_advertisement t = \<lparr>ad_service_uuids = [PARDA_SERVICE_UUID], ad_service_data = [(PARDA_SERVICE_UUID, t)],
     ad_discoverable = Some True, ad_local_name = None\<rparr>"

text \<open>
  The radio holds the advertisement that is on the air; replacing it stops the previous one.
  \<open>registered\<close> is BlueZ's answer to the registration.
\<close>

record bluez_radio =
  bz_address :: bytes
  bz_advertised :: "advertisement option"

definition bz_advertise :: "(unit, string) result \<Rightarrow> advert_token \<Rightarrow> bluez_radio \<Rightarrow> unit mesh \<times> bluez_radio" where
  "bz_advertise registered t r =
    (case map_err RadioUnavailable registered of
       Err e \<Rightarrow> (Err e, r)
     | Ok _ \<Rightarrow> (Ok (), r\<lparr>bz_advertised := Some (bz_advertisement t)\<rparr>))"

text \<open>Opening the radio: the session, its adapter, powering it, its address, and the listener.\<close>

record bluez_host =
  bh_session :: "(unit, string) result"
  bh_adapter :: "(unit, string) result"
  bh_powered :: "(unit, string) result"
  bh_address :: "(bytes, string) result"
  bh_bind :: "bytes \<Rightarrow> 16 word \<Rightarrow> (unit, string) result"

definition new_bluez_radio :: "bluez_host \<Rightarrow> bluez_radio mesh" where
  "new_bluez_radio B =
    and_then (map_err RadioUnavailable (bh_session B)) (\<lambda>_.
    and_then (map_err RadioUnavailable (bh_adapter B)) (\<lambda>_.
    and_then (map_err RadioUnavailable (bh_powered B)) (\<lambda>_.
    and_then (map_err RadioUnavailable (bh_address B)) (\<lambda>addr.
    and_then (map_err RadioUnavailable (bh_bind B addr PARDA_L2CAP_PSM)) (\<lambda>_.
    Ok \<lparr>bz_address = addr, bz_advertised = None\<rparr>)))))"

section \<open>Scanning\<close>

text \<open>
  What the spawned task sees during its window: events of the adapter, of which only new
  devices matter, until the deadline or until nobody listens any more.  \<open>service_data\<close> are the
  data of a device the adapter knows, if they can be read and are there.
\<close>

datatype adapter_event = DeviceAdded bytes | OtherEvent | StreamEnded

type_synonym adapter_view = "bytes \<Rightarrow> ((uuid \<times> bytes) list option, string) result"

definition bz_sighting :: "adapter_view \<Rightarrow> adapter_event \<Rightarrow> peer_sighting option" where
  "bz_sighting device e =
    (case e of
       DeviceAdded addr \<Rightarrow>
         (case device addr of
            Ok (Some service_data) \<Rightarrow>
              (case map_of service_data PARDA_SERVICE_UUID of
                 Some bs \<Rightarrow>
                   if length bs \<noteq> ADVERT_TOKEN_LEN then None
                   else Some \<lparr>sighted_handle = Bluez addr, sighted_token = bs\<rparr>
               | None \<Rightarrow> None)
          | _ \<Rightarrow> None)
     | _ \<Rightarrow> None)"

text \<open>\<open>wanted\<close> is how many sightings the caller takes before it drops the stream.\<close>

fun bz_scan_window :: "adapter_view \<Rightarrow> nat \<Rightarrow> adapter_event list \<Rightarrow> peer_sighting list" where
  "bz_scan_window device wanted [] = []"
| "bz_scan_window device wanted (e # es) =
    (case bz_sighting device e of
       None \<Rightarrow> bz_scan_window device wanted es
     | Some s \<Rightarrow> (case wanted of 0 \<Rightarrow> [] | Suc k \<Rightarrow> s # bz_scan_window device k es))"

definition bz_scan ::
  "(unit, string) result \<Rightarrow> adapter_view \<Rightarrow> nat \<Rightarrow> adapter_event list \<Rightarrow> peer_sighting list mesh" where
  "bz_scan discover device wanted es =
    and_then (map_err RadioUnavailable discover) (\<lambda>_. Ok (bz_scan_window device wanted es))"

section \<open>Links\<close>

text \<open>
  An L2CAP channel is two byte streams, one for each end to write.  Of a stream some bytes
  have arrived at the reader and some are under way; \<open>broken\<close> is the error that ended it.
\<close>

record byte_stream =
  arrived :: bytes
  under_way :: bytes
  broken :: "string option"

type_synonym l2cap = "bool \<Rightarrow> byte_stream"

definition fresh_stream :: byte_stream where
  "fresh_stream = \<lparr>arrived = [], under_way = [], broken = None\<rparr>"

definition write_all :: "bytes \<Rightarrow> byte_stream \<Rightarrow> (unit, string) result \<times> byte_stream" where
  "write_all bs p = (case broken p of
     Some e \<Rightarrow> (Err e, p)
   | None \<Rightarrow> (Ok (), p\<lparr>under_way := under_way p @ bs\<rparr>))"

text \<open>\<open>read_exact\<close> waits for its bytes, \<open>None\<close>, unless the stream broke before it had them.\<close>

definition read_exact :: "nat \<Rightarrow> byte_stream \<Rightarrow> ((bytes, string) result \<times> byte_stream) option" where
  "read_exact n p =
    (if n \<le> length (arrived p) then Some (Ok (take n (arrived p)), p\<lparr>arrived := drop n (arrived p)\<rparr>)
     else case broken p of
       Some e \<Rightarrow> Some (Err e, p\<lparr>arrived := []\<rparr>)
     | None \<Rightarrow> None)"

text \<open>The length is cast to 32 bits and sent first, most significant byte first.\<close>

definition bz_frame :: "bytes \<Rightarrow> bytes" where
  "bz_frame bs = be_bytes 4 (word_of_nat (length bs) :: u32) @ bs"

definition bz_send :: "bytes \<Rightarrow> byte_stream \<Rightarrow> unit mesh \<times> byte_stream" where
  "bz_send bs p =
    (case write_all (be_bytes 4 (word_of_nat (length bs) :: u32)) p of
       (Err e, p') \<Rightarrow> (Err (Link e), p')
     | (Ok _, p') \<Rightarrow> (case write_all bs p' of (r, p'') \<Rightarrow> (map_err Link r, p'')))"

text \<open>
  A receive that waits in the middle of a message goes on when more bytes arrive, so it is
  the same as one that starts over with them.
\<close>

definition bz_recv :: "byte_stream \<Rightarrow> (bytes mesh \<times> byte_stream) option" where
  "bz_recv p =
    (case read_exact 4 p of
       None \<Rightarrow> None
     | Some (Err e, p') \<Rightarrow> Some (Err (Link e), p')
     | Some (Ok header, p') \<Rightarrow>
         (case read_exact (unat (of_be_bytes header :: u32)) p' of
            None \<Rightarrow> None
          | Some (r, p'') \<Rightarrow> Some (map_err Link r, p'')))"

text \<open>Bytes arrive in order, any number of them at a time.\<close>

definition arrive :: "nat \<Rightarrow> byte_stream \<Rightarrow> byte_stream" where
  "arrive k p = p\<lparr>arrived := arrived p @ take k (under_way p), under_way := drop k (under_way p)\<rparr>"

definition bz_connect :: "(bytes \<Rightarrow> 16 word \<Rightarrow> ('l, string) result) \<Rightarrow> peer_handle \<Rightarrow> 'l mesh" where
  "bz_connect dial h =
    (case h of
       Bluez addr \<Rightarrow> map_err Link (dial addr PARDA_L2CAP_PSM)
     | _ \<Rightarrow> Err PeerUnreachable)"

definition bz_accept :: "('l, string) result \<Rightarrow> 'l mesh" where
  "bz_accept incoming = map_err Link incoming"

section \<open>Links as their clients see them\<close>

text \<open>One end sends, the other receives, and in between what was sent travels on.\<close>

datatype link_op = Send bytes | Receive | Travel nat

fun link_run ::
  "(bytes \<Rightarrow> 'w \<Rightarrow> unit mesh \<times> 'w) \<Rightarrow> ('w \<Rightarrow> (bytes mesh \<times> 'w) option) \<Rightarrow> (nat \<Rightarrow> 'w \<Rightarrow> 'w) \<Rightarrow> link_op list \<Rightarrow> 'w
    \<Rightarrow> bytes list \<times> bytes list \<times> 'w" where
  "link_run transmit receive pass [] w = ([], [], w)"
| "link_run transmit receive pass (Send bs # ops) w =
    (let (r, w1) = transmit bs w; (sent, rcvd, w2) = link_run transmit receive pass ops w1
     in (if is_ok r then bs # sent else sent, rcvd, w2))"
| "link_run transmit receive pass (Receive # ops) w =
    (case receive w of
       Some (Ok m, w1) \<Rightarrow> (let (sent, rcvd, w2) = link_run transmit receive pass ops w1 in (sent, m # rcvd, w2))
     | Some (Err _, w1) \<Rightarrow> link_run transmit receive pass ops w1
     | None \<Rightarrow> link_run transmit receive pass ops w)"
| "link_run transmit receive pass (Travel k # ops) w = link_run transmit receive pass ops (pass k w)"

fun sends :: "link_op list \<Rightarrow> bytes list" where
  "sends [] = []"
| "sends (Send bs # ops) = bs # sends ops"
| "sends (_ # ops) = sends ops"

text \<open>
  The contract of \<open>MeshLink\<close>: \<open>carries w ms\<close> says that the messages \<open>ms\<close> were sent and not yet
  received.  A message that fits is taken, and what is received is the oldest message, whole.
\<close>

locale message_link =
  fixes transmit :: "bytes \<Rightarrow> 'w \<Rightarrow> unit mesh \<times> 'w"
    and receive :: "'w \<Rightarrow> (bytes mesh \<times> 'w) option"
    and pass :: "nat \<Rightarrow> 'w \<Rightarrow> 'w"
    and fits :: "bytes \<Rightarrow> bool"
    and carries :: "'w \<Rightarrow> bytes list \<Rightarrow> bool"
  assumes transmits: "carries w ms \<Longrightarrow> fits bs \<Longrightarrow> \<exists>w'. transmit bs w = (Ok (), w') \<and> carries w' (ms @ [bs])"
    and receives: "carries w ms \<Longrightarrow> receive w = Some (r, w') \<Longrightarrow> \<exists>m ms'. ms = m # ms' \<and> r = Ok m \<and> carries w' ms'"
    and travels: "carries w ms \<Longrightarrow> carries (pass k w) ms"
begin

lemma run_fifo:
  assumes "carries w ms" "list_all fits (sends ops)" "link_run transmit receive pass ops w = (sent, rcvd, w')"
  shows "sent = sends ops \<and> (\<exists>pending. ms @ sent = rcvd @ pending \<and> carries w' pending)"
  using assms
proof (induction ops arbitrary: w ms sent rcvd)
  case (Cons c ops)
  show ?case
  proof (cases c)
    case (Send bs)
    then have "fits bs" "list_all fits (sends ops)"
      using Cons.prems(2) by simp_all
    moreover obtain w1 where w1: "transmit bs w = (Ok (), w1)" "carries w1 (ms @ [bs])"
      using transmits [OF Cons.prems(1) \<open>fits bs\<close>] by blast
    ultimately show ?thesis
      using Cons.IH [OF w1(2)] Cons.prems(3) Send by (auto split: prod.splits)
  next
    case Receive
    show ?thesis
    proof (cases "receive w")
      case None
      then show ?thesis
        using Cons Receive by simp
    next
      case (Some x)
      then obtain m ms' w1 where m: "x = (Ok m, w1)" "ms = m # ms'" "carries w1 ms'"
        using receives [OF Cons.prems(1)] by (cases x) auto
      then show ?thesis
        using Cons.IH [OF m(3)] Cons.prems(2,3) Receive Some by (auto split: prod.splits)
    qed
  next
    case (Travel k)
    then show ?thesis
      using Cons.IH [OF travels [OF Cons.prems(1)]] Cons.prems(2,3) by simp
  qed
qed simp

end

text \<open>The simulated radio's links, on which nothing is ever under way.\<close>

definition sim_carries :: "sim_link \<Rightarrow> sim_network \<Rightarrow> bytes list \<Rightarrow> bool" where
  "sim_carries l n ms \<longleftrightarrow> link_tx l < length (channels n) \<and> in_flight (channels n ! link_tx l) = ms
    \<and> tx_held (channels n ! link_tx l) \<and> rx_held (channels n ! link_tx l)"

interpretation sim_channel: message_link "link_send l" "link_recv (mirror l)" "\<lambda>_ n. n" "\<lambda>_. True" "sim_carries l" for l
  by unfold_locales
    (auto simp: sim_carries_def link_send_def link_recv_def mirror_def Let_def split: list.splits if_splits)

text \<open>The L2CAP links: the bytes there are the frames of the messages.\<close>

definition bz_carries :: "byte_stream \<Rightarrow> bytes list \<Rightarrow> bool" where
  "bz_carries p ms \<longleftrightarrow> broken p = None \<and> (\<forall>m \<in> set ms. length m < 2 ^ 32)
    \<and> arrived p @ under_way p = concat (map bz_frame ms)"

lemma bz_send_carries:
  assumes "bz_carries p ms" "length bs < 2 ^ 32"
  shows "\<exists>p'. bz_send bs p = (Ok (), p') \<and> bz_carries p' (ms @ [bs])"
  using assms by (auto simp: bz_send_def write_all_def bz_carries_def bz_frame_def)

lemma unat_frame_length: "length m < 2 ^ 32 \<Longrightarrow> unat (of_be_bytes (be_bytes 4 (word_of_nat (length m) :: u32)) :: u32) = length m"
  by (simp add: of_be_bytes_be_bytes unat_of_nat)

lemma bz_recv_first:
  assumes "bz_carries p (m # ms)" "length (bz_frame m) \<le> length (arrived p)"
  shows "bz_recv p = Some (Ok m, p\<lparr>arrived := drop (length (bz_frame m)) (arrived p)\<rparr>)"
    "bz_carries (p\<lparr>arrived := drop (length (bz_frame m)) (arrived p)\<rparr>) ms"
proof -
  have len: "length m < 2 ^ 32" and bytes: "arrived p @ under_way p = bz_frame m @ concat (map bz_frame ms)"
    using assms(1) by (simp_all add: bz_carries_def)
  have split: "arrived p = bz_frame m @ drop (length (bz_frame m)) (arrived p)"
    using bytes assms(2) by (metis append_eq_append_conv_if append_take_drop_id)
  show "bz_carries (p\<lparr>arrived := drop (length (bz_frame m)) (arrived p)\<rparr>) ms"
    using assms(1) bytes split by (auto simp: bz_carries_def) (metis append.assoc same_append_eq)
  obtain rest where rest: "arrived p = bz_frame m @ rest" "drop (length (bz_frame m)) (arrived p) = rest"
    using split by blast
  show "bz_recv p = Some (Ok m, p\<lparr>arrived := drop (length (bz_frame m)) (arrived p)\<rparr>)"
    unfolding rest(2) using rest(1) len
    by (simp add: bz_recv_def read_exact_def bz_frame_def unat_frame_length)
qed

lemma bz_recv_carries:
  assumes "bz_carries p ms" "bz_recv p = Some (r, p')"
  shows "\<exists>m ms'. ms = m # ms' \<and> r = Ok m \<and> bz_carries p' ms'"
proof (cases ms)
  case Nil
  then show ?thesis
    using assms by (auto simp: bz_carries_def bz_recv_def read_exact_def)
next
  case (Cons m ms')
  have "length (bz_frame m) \<le> length (arrived p)"
  proof (rule ccontr)
    assume short: "\<not> length (bz_frame m) \<le> length (arrived p)"
    have bytes: "arrived p @ under_way p = bz_frame m @ concat (map bz_frame ms')" "length m < 2 ^ 32" "broken p = None"
      using assms(1) Cons by (simp_all add: bz_carries_def)
    then have "arrived p = take (length (arrived p)) (bz_frame m)"
      using short by (metis append_eq_conv_conj linorder_not_le order.order_iff_strict take_append take_all_iff
          append_Nil2 diff_is_0_eq take0)
    moreover have "4 \<le> length (arrived p)"
      using assms(2) bytes(3) by (auto simp: bz_recv_def read_exact_def split: if_splits)
    ultimately have "take 4 (arrived p) = be_bytes 4 (word_of_nat (length m) :: u32)"
      unfolding bz_frame_def by (metis append_eq_conv_conj length_be_bytes min.absorb1 take_take)
    then show False
      using assms(2) bytes(2,3) short by (auto simp: bz_recv_def read_exact_def unat_frame_length bz_frame_def split: if_splits)
  qed
  then show ?thesis
    using bz_recv_first [of p m ms'] assms Cons by auto
qed

interpretation bluez_link: message_link bz_send bz_recv arrive "\<lambda>bs. length bs < 2 ^ 32" bz_carries
proof unfold_locales
  show "bz_carries p ms \<Longrightarrow> bz_carries (arrive k p) ms" for p ms k
    by (simp add: bz_carries_def arrive_def)
qed (fact bz_send_carries bz_recv_carries)+

section \<open>Advertisements on the air\<close>

text \<open>
  The octets of an advertisement: each structure has a length and a type octet; the flags, the
  list of 128-bit service identifiers, each service's data behind its identifier, and the name.
\<close>

definition ad_octets :: "advertisement \<Rightarrow> nat" where
  "ad_octets a = 3 + (if ad_service_uuids a = [] then 0 else 2 + 16 * length (ad_service_uuids a))
    + sum_list (map (\<lambda>(u, bs). 2 + 16 + length bs) (ad_service_data a))
    + (case ad_local_name a of Some name \<Rightarrow> 2 + length name | None \<Rightarrow> 0)"

text \<open>A token does not fit the 31 octets of a legacy advertisement, not even on its own.\<close>

lemma token_exceeds_legacy_advertisement:
  "length t = ADVERT_TOKEN_LEN \<Longrightarrow> 31 < ad_octets (bz_advertisement t) \<and> 31 < 2 + 16 + length t"
  by (simp add: ad_octets_def bz_advertisement_def ADVERT_TOKEN_LEN_def)

text \<open>A message of \<open>2\<^sup>3\<^sup>2\<close> bytes or more loses all but the low bits of its length.\<close>

lemma oversize_message_is_cut:
  assumes "bz_send bs p = (Ok (), p')" "arrived p = []" "under_way p = []" "length bs = 2 ^ 32 + k" "k < 2 ^ 32"
  shows "\<exists>q. bz_recv (arrive (length (under_way p')) p') = Some (Ok (take k bs), q) \<and> arrived q = drop k bs"
proof -
  have p': "p' = p\<lparr>under_way := bz_frame bs\<rparr>" "broken p = None"
    using assms(1,3) by (auto simp: bz_send_def write_all_def bz_frame_def split: option.splits)
  have "unat (of_be_bytes (be_bytes 4 (word_of_nat (length bs) :: u32)) :: u32) = k"
    unfolding assms(4) using assms(5)
    by (simp add: of_be_bytes_be_bytes unsigned_of_nat take_bit_eq_mod del: of_nat_add)
  then show ?thesis
    using assms(2,4) p' by (simp add: arrive_def bz_recv_def read_exact_def bz_frame_def)
qed

section \<open>Properties\<close>

text \<open>
  C13: A Bluetooth link keeps messages apart and in order.  Whatever is sent over an L2CAP stream
  and however its bytes arrive, in pieces of any size and between any sends and receives, every
  message below 4 GiB is taken, what is received are whole messages, the sent ones in their
  order, and once all bytes have arrived a receive waits only when everything was received.
\<close>

theorem bluez_link_is_fifo:
  assumes "link_run bz_send bz_recv arrive ops fresh_stream = (sent, rcvd, p)"
    and "list_all (\<lambda>m. length m < 2 ^ 32) (sends ops)"
  shows "sent = sends ops \<and> (\<exists>pending. sent = rcvd @ pending
    \<and> (under_way p = [] \<longrightarrow> (case pending of
          [] \<Rightarrow> bz_recv p = None | m # _ \<Rightarrow> \<exists>p'. bz_recv p = Some (Ok m, p'))))"
proof -
  have "bz_carries fresh_stream []"
    by (simp add: bz_carries_def fresh_stream_def)
  then obtain pending where run: "sent = sends ops" "sent = rcvd @ pending" "bz_carries p pending"
    using bluez_link.run_fifo [of fresh_stream "[]", OF _ assms(2,1)] by auto
  have "case pending of [] \<Rightarrow> bz_recv p = None | m # _ \<Rightarrow> \<exists>p'. bz_recv p = Some (Ok m, p')" if "under_way p = []"
  proof (cases pending)
    case Nil
    then show ?thesis
      using run(3) that by (simp add: bz_carries_def bz_recv_def read_exact_def)
  next
    case (Cons m ms)
    then have "length (bz_frame m) \<le> length (arrived p)"
      using run(3) that by (simp add: bz_carries_def)
    then show ?thesis
      using bz_recv_first(1) [of p m ms] run(3) Cons by simp
  qed
  with run show ?thesis by blast
qed

text \<open>Two messages, of which the first arrives in two pieces.\<close>

theorem bluez_link_is_fifo_witness:
  "link_run bz_send bz_recv arrive [Send [7, 8], Send [9], Travel 3, Receive, Travel 5, Receive, Travel 9, Receive] fresh_stream
     = ([[7, 8], [9]], [[7, 8], [9]], fresh_stream)
   \<and> bz_recv fresh_stream = None"
proof -
  let ?ops = "[Send [7, 8], Send [9], Travel 3, Receive, Travel 5, Receive, Travel 9, Receive]"
  have run: "link_run bz_send bz_recv arrive ?ops fresh_stream = ([[7, 8], [9]], [[7, 8], [9]], fresh_stream)"
    by code_simp
  have "list_all (\<lambda>m. length m < 2 ^ 32) (sends ?ops)"
    by simp
  from bluez_link_is_fifo [OF run this] have "bz_recv fresh_stream = None"
    by (simp add: fresh_stream_def)
  with run show ?thesis by blast
qed

text \<open>
  A scan of the Linux backend sights exactly the new devices whose PARDA service data is a
  token, among them every device that advertises with this backend; a sighted device is dialled
  at the address it was sighted at; and a handle of another backend is refused without dialling.
\<close>

theorem bluez_scan_sights_advertisers:
  assumes "bz_scan (Ok ()) device wanted es = Ok ss" "length es \<le> wanted"
  shows "(\<forall>s. s \<in> set ss \<longleftrightarrow> (\<exists>addr data. DeviceAdded addr \<in> set es \<and> device addr = Ok (Some data)
        \<and> map_of data PARDA_SERVICE_UUID = Some (sighted_token s) \<and> length (sighted_token s) = ADVERT_TOKEN_LEN
        \<and> sighted_handle s = Bluez addr))
    \<and> (\<forall>addr t r r'. DeviceAdded addr \<in> set es \<and> bz_advertise (Ok ()) t r = (Ok (), r') \<and> length t = ADVERT_TOKEN_LEN
        \<and> device addr = Ok (map_option ad_service_data (bz_advertised r'))
        \<longrightarrow> \<lparr>sighted_handle = Bluez addr, sighted_token = t\<rparr> \<in> set ss)
    \<and> (\<forall>s \<in> set ss. \<exists>addr. \<forall>dial. bz_connect dial (sighted_handle s) = map_err Link (dial addr PARDA_L2CAP_PSM :: (unit, string) result))
    \<and> (\<forall>h dial. (\<nexists>addr. h = Bluez addr) \<longrightarrow> bz_connect dial h = (Err PeerUnreachable :: unit mesh))"
proof -
  have window: "set (bz_scan_window device wanted es) = {s. \<exists>e \<in> set es. bz_sighting device e = Some s}"
    if "length es \<le> wanted" for wanted and es :: "adapter_event list"
    using that
  proof (induction es arbitrary: wanted)
    case (Cons e es)
    then show ?case
    proof (cases "bz_sighting device e")
      case (Some s)
      obtain k where "wanted = Suc k" "length es \<le> k"
        using Cons.prems by (cases wanted) auto
      with Some Cons.IH [of k] show ?thesis by auto
    qed (use Cons in auto)
  qed simp
  have sighting: "bz_sighting device e = Some s \<longleftrightarrow> (\<exists>addr data. e = DeviceAdded addr \<and> device addr = Ok (Some data)
      \<and> map_of data PARDA_SERVICE_UUID = Some (sighted_token s) \<and> length (sighted_token s) = ADVERT_TOKEN_LEN
      \<and> sighted_handle s = Bluez addr)" for e s
    by (cases s) (auto simp: bz_sighting_def split: adapter_event.splits result.splits option.splits)
  have ss: "s \<in> set ss \<longleftrightarrow> (\<exists>e \<in> set es. bz_sighting device e = Some s)" for s
    using assms window [of es wanted] by (auto simp: bz_scan_def)
  have all: "s \<in> set ss \<longleftrightarrow> (\<exists>addr data. DeviceAdded addr \<in> set es \<and> device addr = Ok (Some data)
        \<and> map_of data PARDA_SERVICE_UUID = Some (sighted_token s) \<and> length (sighted_token s) = ADVERT_TOKEN_LEN
        \<and> sighted_handle s = Bluez addr)" for s
    unfolding ss sighting by blast
  show ?thesis
  proof (intro conjI allI ballI impI)
    show "s \<in> set ss \<longleftrightarrow> (\<exists>addr data. DeviceAdded addr \<in> set es \<and> device addr = Ok (Some data)
        \<and> map_of data PARDA_SERVICE_UUID = Some (sighted_token s) \<and> length (sighted_token s) = ADVERT_TOKEN_LEN
        \<and> sighted_handle s = Bluez addr)" for s
      by (rule all)
    show "\<exists>addr. \<forall>dial. bz_connect dial (sighted_handle s) = map_err Link (dial addr PARDA_L2CAP_PSM :: (unit, string) result)"
      if "s \<in> set ss" for s
      using that unfolding all by (auto simp: bz_connect_def)
    show "bz_connect dial h = (Err PeerUnreachable :: unit mesh)" if "\<nexists>addr. h = Bluez addr" for dial h
      using that by (cases h) (auto simp: bz_connect_def)
  qed (auto simp: all bz_advertise_def bz_advertisement_def)
qed

theorem bluez_scan_sights_advertisers_witness:
  "\<exists>r ss. bz_advertise (Ok ()) (replicate 16 3) \<lparr>bz_address = [1, 2, 3, 4, 5, 6], bz_advertised = None\<rparr> = (Ok (), r)
    \<and> bz_scan (Ok ()) (\<lambda>a. if a = bz_address r then Ok (map_option ad_service_data (bz_advertised r)) else Ok None) 2
        [DeviceAdded [9, 9, 9, 9, 9, 9], DeviceAdded [1, 2, 3, 4, 5, 6]] = Ok ss
    \<and> \<lparr>sighted_handle = Bluez [1, 2, 3, 4, 5, 6], sighted_token = replicate 16 3\<rparr> \<in> set ss"
proof -
  let ?r0 = "\<lparr>bz_address = [1, 2, 3, 4, 5, 6], bz_advertised = None\<rparr>"
  obtain r where r: "bz_advertise (Ok ()) (replicate 16 3) ?r0 = (Ok (), r)" "bz_address r = [1, 2, 3, 4, 5, 6]"
    "bz_advertised r = Some (bz_advertisement (replicate 16 3))"
    by (rule that [of "?r0\<lparr>bz_advertised := Some (bz_advertisement (replicate 16 3))\<rparr>"]) (simp_all add: bz_advertise_def)
  let ?device = "\<lambda>a. if a = bz_address r then Ok (map_option ad_service_data (bz_advertised r)) else Ok None"
  obtain ss where ss: "bz_scan (Ok ()) ?device 2 [DeviceAdded [9, 9, 9, 9, 9, 9], DeviceAdded [1, 2, 3, 4, 5, 6]] = Ok ss"
    by (simp add: bz_scan_def)
  have "\<lparr>sighted_handle = Bluez [1, 2, 3, 4, 5, 6], sighted_token = replicate 16 3\<rparr> \<in> set ss"
    using bluez_scan_sights_advertisers [OF ss, THEN conjunct1] r
    by (simp add: ADVERT_TOKEN_LEN_def bz_advertisement_def)
  with r ss show ?thesis by blast
qed

end
