(* ===== verification/Cli_Demo.thy ===== *)
theory Cli_Demo
  imports Cli Client_Store Transport Relay_Spec
begin

text \<open>
  The two commands of the command line client as wholes: how the conversation partner starts
  (\<open>cli/src/peer.rs\<close>) and the scripted demo (\<open>cli/src/main.rs\<close>), which puts together identities,
  sessions, the direct transport, self-destructing messages, the client's message store and the
  burning of a session, over any relay or over the stand-in of \<open>cli/src/stub_relay.rs\<close>.
\<close>

section \<open>Enrolling\<close>

text \<open>libsignal's records as the bytes the store keeps, the session cryptography, the other libraries.\<close>

record demo_lib =
  dl_signal :: libsignal
  dl_make_bundle :: "prekey_bundle \<Rightarrow> prekey_bundle signal"
  dl_prekey_bytes :: "prekey_record \<Rightarrow> bytes"
  dl_prekey_id :: "bytes \<Rightarrow> u32 signal"
  dl_signed_bytes :: "signed_prekey_record \<Rightarrow> bytes"
  dl_signed_id :: "bytes \<Rightarrow> u32 signal"
  dl_crypto :: sd_crypto
  dl_store :: client_lib

text \<open>A panic is an error with the text of the failed \<open>expect\<close>.\<close>

definition enroll :: "demo_lib \<Rightarrow> string \<Rightarrow> local_identity \<Rightarrow> (session_manager, string) result" where
  "enroll D name li =
    (let (r1, st1) = store_prekey_batch (dl_prekey_id D) (map (dl_prekey_bytes D) (li_one_time_prekeys li))
           (new_signal_store (li_identity_key_pair li) (li_registration_id li));
         (r2, st2) = store_signed_prekey_record (dl_signed_id D) (dl_signed_bytes D (li_signed_prekey li)) st1
     in and_then (map_err (\<lambda>_. ''store prekeys'') r1) (\<lambda>_.
        and_then (map_err (\<lambda>_. ''store signed prekey'') r2) (\<lambda>_.
        Ok \<lparr>local_address = Address name 1, store = st2\<rparr>)))"

section \<open>The conversation partner starts\<close>

record 'n startup_http = "'n peer_http" +
  post_bundle :: "string \<Rightarrow> json \<Rightarrow> 'n \<Rightarrow> (nat, string) result \<times> 'n"

datatype peer_start = Polling session_manager string | PeerExits nat

definition peer_registration_id :: "u32 \<Rightarrow> u32" where
  "peer_registration_id random = random mod 0x3FFF + 1"

definition trim_end_matches :: "char \<Rightarrow> string \<Rightarrow> string" where
  "trim_end_matches c s = rev (dropWhile (\<lambda>x. x = c) (rev s))"

text \<open>\<open>generate\<close> makes the identity for a registration id.\<close>

definition peer_run ::
  "'n startup_http \<Rightarrow> cli_lib \<Rightarrow> demo_lib \<Rightarrow> (u32 \<Rightarrow> local_identity parda) \<Rightarrow> u32 \<Rightarrow> string \<Rightarrow> string \<Rightarrow> 'n
    \<Rightarrow> (peer_start, string) result \<times> 'n" where
  "peer_run H C D generate random relay_url0 user_id n =
    (let relay_url = trim_end_matches (CHR ''/'') relay_url0 in
     case and_then (map_err (\<lambda>_. ''generate identity'') (generate (peer_registration_id random))) (\<lambda>identity.
          and_then (enroll D user_id identity) (\<lambda>manager.
          and_then (bundle_to_json C identity) (\<lambda>bundle_json. Ok (manager, bundle_json)))) of
       Err m \<Rightarrow> (Err m, n)
     | Ok (manager, bundle_json) \<Rightarrow>
         let (r, n') = post_bundle H (relay_url @ ''/v1/keys/'' @ user_id) bundle_json n
         in (Ok (case r of
               Ok code \<Rightarrow> if is_success code then Polling manager relay_url else PeerExits 1
             | Err _ \<Rightarrow> PeerExits 1), n'))"

section \<open>The demo\<close>

text \<open>What the demo shows at its end: the reads of a self-destructing message, or the history.\<close>

datatype demo_ending =
    TimeBoundShown bytes bool "bytes parda"
  | ReadOnceShown bytes "bytes parda"
  | HistoryShown nat

record demo_report =
  dr_sent :: message_envelope
  dr_decrypted :: bytes
  dr_ending :: demo_ending
  dr_burned :: burn_result
  dr_bob :: session_manager

text \<open>
  What the demo draws and reads: the wall clock when it encrypts and when it seals, the seed and
  nonce of the seal, the monotonic clock at the seal and at the first read, and a row id.
\<close>

record demo_world =
  dw_now_ms :: u64
  dw_wall :: int
  dw_seed :: bytes
  dw_nonce :: bytes
  dw_sealed_at :: nat
  dw_read_at :: nat
  dw_row_id :: string

text \<open>The expiry task has run once its instant has passed.\<close>

definition after_timer :: "nat \<Rightarrow> sdm \<Rightarrow> sdm" where
  "after_timer now m = (case sd_timer m of Some t \<Rightarrow> if t \<le> now then expire_now m else m | None \<Rightarrow> m)"

definition demo_ending_of ::
  "demo_lib \<Rightarrow> demo_world \<Rightarrow> u64 option \<Rightarrow> message_envelope \<Rightarrow> bytes \<Rightarrow> (demo_ending, string) result" where
  "demo_ending_of D W expire_secs e decrypted =
    (if self_destruct_at e \<noteq> None then
       let window = (case expire_secs of Some secs \<Rightarrow> unat secs | None \<Rightarrow> 300) * 1000000000 in
       and_then (map_err (\<lambda>_. ''seal time-bound'')
         (seal (dl_crypto D) (dw_seed W) (dw_nonce W) (dw_wall W) (dw_sealed_at W) decrypted (timestamp_ms e) window)) (\<lambda>sd.
       let (r, sd1) = open_msg (dl_crypto D) (after_timer (dw_read_at W) sd) in
       and_then (map_err (\<lambda>_. ''unwrap'') r) (\<lambda>first_read.
       let sd2 = after_timer (dw_read_at W + window + 200000000) sd1 in
       Ok (TimeBoundShown first_read (is_expired sd2) (fst (open_msg (dl_crypto D) sd2)))))
     else if read_triggered_destruct e then
       and_then (map_err (\<lambda>_. ''seal read-triggered'')
         (seal_read_triggered (dl_crypto D) (dw_seed W) (dw_nonce W) (dw_wall W) decrypted (timestamp_ms e))) (\<lambda>sd.
       let (r, sd1) = open_msg (dl_crypto D) sd in
       and_then (map_err (\<lambda>_. ''unwrap'') r) (\<lambda>first_read.
       Ok (ReadOnceShown first_read (fst (open_msg (dl_crypto D) sd1)))))
     else
       and_then (map_err (\<lambda>_. ''open client store'') (open_ephemeral (dl_store D))) (\<lambda>db.
       let (r, db') = store_message (dl_store D) (dw_row_id W) ''alice'' Received e db in
       and_then (map_err (\<lambda>_. ''persist non-self-destructing message'') r) (\<lambda>_.
       and_then (map_err (\<lambda>_. ''unwrap'') (history_for (dl_store D) ''alice'' db')) (\<lambda>history.
       Ok (HistoryShown (length history))))))"

definition demo_plaintext :: bytes where
  "demo_plaintext = utf8 ''the field report is in the usual place''"

definition demo_marked :: "u64 option \<Rightarrow> bool \<Rightarrow> message_envelope \<Rightarrow> message_envelope" where
  "demo_marked expire_secs read_once e =
    (case expire_secs of
       Some secs \<Rightarrow> with_self_destruct (unat secs * 1000000000) e
     | None \<Rightarrow> if read_once then with_read_triggered_destruct e else e)"

definition demo_start ::
  "demo_lib \<Rightarrow> local_identity parda \<Rightarrow> local_identity parda \<Rightarrow> (session_manager \<times> session_manager, string) result" where
  "demo_start D alice_identity bob_identity =
    and_then (map_err (\<lambda>_. ''generate alice identity'') alice_identity) (\<lambda>alice_id.
    and_then (map_err (\<lambda>_. ''generate bob identity'') bob_identity) (\<lambda>bob_id.
    and_then (enroll D ''alice'' alice_id) (\<lambda>alice.
    and_then (enroll D ''bob'' bob_id) (\<lambda>bob.
    and_then (map_err (\<lambda>_. ''build bob's prekey bundle'') (build_prekey_bundle (dl_make_bundle D) bob_id)) (\<lambda>bob_bundle.
    case initiate_session (dl_signal D) alice (Address ''bob'' 1) bob_bundle of (r, alice') \<Rightarrow>
    and_then (map_err (\<lambda>_. ''X3DH session initiation'') r) (\<lambda>_. Ok (alice', bob)))))))"

definition demo_compose ::
  "demo_lib \<Rightarrow> demo_world \<Rightarrow> local_identity parda \<Rightarrow> local_identity parda \<Rightarrow> u64 option \<Rightarrow> bool
    \<Rightarrow> (session_manager \<times> message_envelope, string) result" where
  "demo_compose D W alice_identity bob_identity expire_secs read_once =
    and_then (demo_start D alice_identity bob_identity) (\<lambda>(alice, bob).
    and_then (map_err (\<lambda>_. ''encrypt'')
      (fst (encrypt (dl_signal D) (dw_now_ms W) alice (Address ''bob'' 1) demo_plaintext))) (\<lambda>e.
    Ok (bob, demo_marked expire_secs read_once e)))"

definition demo_read ::
  "demo_lib \<Rightarrow> demo_world \<Rightarrow> u64 option \<Rightarrow> message_envelope \<Rightarrow> session_manager \<Rightarrow> message_envelope list
    \<Rightarrow> (demo_report, string) result" where
  "demo_read D W expire_secs envelope bob received =
    and_then (case received of [e] \<Rightarrow> Ok e | _ \<Rightarrow> Err ''demo expects exactly one pending envelope'') (\<lambda>e.
    let (r, bob1) = decrypt (dl_signal D) bob e in
    and_then (map_err (\<lambda>_. ''decrypt'') r) (\<lambda>decrypted.
    and_then (demo_ending_of D W expire_secs e decrypted) (\<lambda>ending.
    let (burned, bob2) = burn_conversation (dl_signal D) bob1 (Address ''alice'' 1) in
    if has_conversation_state (show_addr (dl_signal D)) (Address ''alice'' 1) (store bob2)
    then Err ''assertion failed''
    else Ok \<lparr>dr_sent = envelope, dr_decrypted = decrypted, dr_ending = ending, dr_burned = burned, dr_bob = bob2\<rparr>)))"

definition run_demo ::
  "'n http \<Rightarrow> demo_lib \<Rightarrow> demo_world \<Rightarrow> local_identity parda \<Rightarrow> local_identity parda \<Rightarrow> string \<Rightarrow> u64 option \<Rightarrow> bool
    \<Rightarrow> 'n \<Rightarrow> (demo_report, string) result \<times> 'n" where
  "run_demo H D W alice_identity bob_identity base expire_secs read_once n =
    (case demo_compose D W alice_identity bob_identity expire_secs read_once of
       Err m \<Rightarrow> (Err m, n)
     | Ok (bob, envelope) \<Rightarrow>
         (case direct_send H \<lparr>relay_base_url = base\<rparr> envelope n of
            (Err _, n1) \<Rightarrow> (Err ''send over real HTTP transport'', n1)
          | (Ok _, n1) \<Rightarrow>
              (case direct_receive H \<lparr>relay_base_url = base\<rparr> ''bob'' n1 of (received, n2) \<Rightarrow>
                 (and_then (map_err (\<lambda>_. ''receive over real HTTP transport'') received)
                    (demo_read D W expire_secs envelope bob), n2))))"

section \<open>The stand-in behind the transport\<close>

text \<open>The router of the stand-in on its decoded requests.\<close>

datatype stub_request =
    StubPostKeys string json
  | StubGetKeys string
  | StubPostMessage string json
  | StubGetMessages string

definition stub_serve :: "stub_request \<Rightarrow> stub_state \<Rightarrow> (nat \<times> json) \<times> stub_state" where
  "stub_serve r s = (case r of
     StubPostKeys u body \<Rightarrow> stub_upload_bundle u body s
   | StubGetKeys u \<Rightarrow> (stub_get_bundle u s, s)
   | StubPostMessage u body \<Rightarrow> stub_submit_message u body s
   | StubGetMessages u \<Rightarrow> (case stub_fetch_messages u s of (v, s') \<Rightarrow> ((200, v), s')))"

definition new_stub_state :: stub_state where
  "new_stub_state = \<lparr>stub_bundles = (\<lambda>_. None), stub_messages = (\<lambda>_. None)\<rparr>"

record envelope_json =
  ej_write :: "message_envelope \<Rightarrow> json"
  ej_read :: "json \<Rightarrow> (message_envelope, string) result"

definition envelope_json_law :: "envelope_json \<Rightarrow> bool" where
  "envelope_json_law J \<longleftrightarrow> (\<forall>e. ej_read J (ej_write J e) = Ok e)"

definition stub_reply :: "envelope_json \<Rightarrow> nat \<times> json \<Rightarrow> http_response" where
  "stub_reply J r = \<lparr>status = fst r, messages_json =
     and_then (ok_or (Option.bind (json_get ''messages'' (snd r)) as_array) ''missing field messages'')
       (\<lambda>vs. collect_ok (map (ej_read J) vs))\<rparr>"

definition stub_http :: "envelope_json \<Rightarrow> string \<Rightarrow> stub_state http" where
  "stub_http J base = \<lparr>
     post_json = (\<lambda>url e s. case strip_prefix (base @ ''/v1/messages/'') url of
         None \<Rightarrow> (Err ''connection refused'', s)
       | Some u \<Rightarrow> (case stub_serve (StubPostMessage u (ej_write J e)) s of (r, s') \<Rightarrow> (Ok (stub_reply J r), s'))),
     post_body = (\<lambda>url b s. (Err ''connection refused'', s)),
     http_get = (\<lambda>url s. case strip_prefix (base @ ''/v1/messages/'') url of
         None \<Rightarrow> (Err ''connection refused'', s)
       | Some u \<Rightarrow> (case stub_serve (StubGetMessages u) s of (r, s') \<Rightarrow> (Ok (stub_reply J r), s'))),
     error_for_status = (\<lambda>r. if 400 \<le> status r then Err (''HTTP status '' @ dec (status r)) else Ok r),
     envelope_to_json = (\<lambda>_. Err []), pull_to_json = (\<lambda>_. Err []), wait = (\<lambda>_ s. s)\<rparr>"

section \<open>Lemmas\<close>

text \<open>What the libraries are relied on for.\<close>

definition records_law :: "demo_lib \<Rightarrow> bool" where
  "records_law D \<longleftrightarrow> (\<forall>pk. dl_prekey_id D (dl_prekey_bytes D pk) = Ok (pk_id pk))
    \<and> (\<forall>pk. dl_signed_id D (dl_signed_bytes D pk) = Ok (spk_id pk)) \<and> (\<forall>b. dl_make_bundle D b = Ok b)"

text \<open>
  A first message of X3DH.  Alice's library takes bob's bundle if the signature in it verifies,
  and if no other identity is recorded for him; then she can encrypt.  A store that holds the
  private halves of the keys of the bundle, the one-time prekey included, and records no other
  identity for alice decrypts.  All the key pairs are drawn ones.
\<close>

definition x3dh_law :: "signature_lib \<Rightarrow> demo_lib \<Rightarrow> bool" where
  "x3dh_law G D \<longleftrightarrow> (\<forall>li pk bundle sa ika sb.
    build_prekey_bundle (dl_make_bundle D) li = Ok bundle \<and> pb_prekey bundle = Some (pk_id pk, fst (pk_pair pk))
    \<and> sg_verify G (pb_identity_key bundle) (pb_signed_prekey_public bundle) (pb_signature bundle)
    \<and> matching (sg_public_of G) ika \<and> matching (sg_public_of G) (li_identity_key_pair li)
    \<and> matching (sg_public_of G) (spk_pair (li_signed_prekey li)) \<and> matching (sg_public_of G) (pk_pair pk)
    \<and> identity_key_pair sa = Some ika \<and> identity_key_pair sb = Some (li_identity_key_pair li)
    \<and> trusted_identities sa (show_addr (dl_signal D) (Address ''bob'' 1)) \<in> {None, Some (pb_identity_key bundle)}
    \<and> trusted_identities sb (show_addr (dl_signal D) (Address ''alice'' 1)) \<in> {None, Some (fst ika)}
    \<and> signed_prekeys sb (spk_id (li_signed_prekey li)) = Some (dl_signed_bytes D (li_signed_prekey li))
    \<and> prekeys sb (pk_id pk) = Some (dl_prekey_bytes D pk) \<longrightarrow>
    (\<exists>sta. process_prekey_bundle (dl_signal D) (Address ''bob'' 1) bundle sa = (Ok (), sta)
      \<and> (\<forall>pt. \<exists>x st st'. message_encrypt (dl_signal D) pt (Address ''bob'' 1) sta = (Ok (PreKeySignalMessage x), st)
          \<and> parse_prekey_message (dl_signal D) x = Ok x
          \<and> message_decrypt (dl_signal D) (PreKeySignalMessage x) (Address ''alice'' 1) sb = (Ok pt, st'))))"

lemma store_prekey_batch_Ok:
  assumes "\<And>pk. pk_id_of (enc pk) = Ok (pk_id pk)" "distinct (map pk_id pks)"
  obtains st' where "store_prekey_batch pk_id_of (map enc pks) st = (Ok (), st')"
    "\<And>pk. pk \<in> set pks \<Longrightarrow> prekeys st' (pk_id pk) = Some (enc pk)"
    "\<And>i. i \<notin> pk_id ` set pks \<Longrightarrow> prekeys st' i = prekeys st i"
    "identity_key_pair st' = identity_key_pair st" "signed_prekeys st' = signed_prekeys st"
    "trusted_identities st' = trusted_identities st"
  using assms(2)
proof (induction pks arbitrary: st thesis)
  case (Cons pk pks)
  obtain st' where st': "store_prekey_batch pk_id_of (map enc pks) (st\<lparr>prekeys := (prekeys st)(pk_id pk \<mapsto> enc pk)\<rparr>) = (Ok (), st')"
    "\<And>pk. pk \<in> set pks \<Longrightarrow> prekeys st' (pk_id pk) = Some (enc pk)"
    "\<And>i. i \<notin> pk_id ` set pks \<Longrightarrow> prekeys st' i = ((prekeys st)(pk_id pk \<mapsto> enc pk)) i"
    "identity_key_pair st' = identity_key_pair st" "signed_prekeys st' = signed_prekeys st"
    "trusted_identities st' = trusted_identities st"
    using Cons.IH [of "st\<lparr>prekeys := (prekeys st)(pk_id pk \<mapsto> enc pk)\<rparr>"] Cons.prems(2) by auto
  show ?case
  proof (rule Cons.prems(1) [of st'])
    show "prekeys st' (pk_id q) = Some (enc q)" if "q \<in> set (pk # pks)" for q
      using that st'(2,3) Cons.prems(2) by (cases "q \<in> set pks") auto
    show "store_prekey_batch pk_id_of (map enc (pk # pks)) st = (Ok (), st')"
      using st'(1) by (simp add: assms(1))
    show "prekeys st' i = prekeys st i" if "i \<notin> pk_id ` set (pk # pks)" for i
      using that st'(3) [of i] by simp
  qed (simp_all add: st'(4-6))
next
  case Nil
  show ?case
    by (rule Nil(1) [of st]) simp_all
qed

lemma enroll_Ok:
  assumes "records_law D" "distinct (map pk_id (li_one_time_prekeys li))"
  obtains sm where "enroll D name li = Ok sm" "local_address sm = Address name 1"
    "identity_key_pair (store sm) = Some (li_identity_key_pair li)"
    "\<And>pk. pk \<in> set (li_one_time_prekeys li) \<Longrightarrow> prekeys (store sm) (pk_id pk) = Some (dl_prekey_bytes D pk)"
    "signed_prekeys (store sm) (spk_id (li_signed_prekey li)) = Some (dl_signed_bytes D (li_signed_prekey li))"
    "trusted_identities (store sm) = (\<lambda>_. None)"
proof -
  obtain st where st: "store_prekey_batch (dl_prekey_id D) (map (dl_prekey_bytes D) (li_one_time_prekeys li))
      (new_signal_store (li_identity_key_pair li) (li_registration_id li)) = (Ok (), st)"
    "\<And>pk. pk \<in> set (li_one_time_prekeys li) \<Longrightarrow> prekeys st (pk_id pk) = Some (dl_prekey_bytes D pk)"
    "identity_key_pair st = Some (li_identity_key_pair li)" "trusted_identities st = (\<lambda>_. None)"
    by (rule store_prekey_batch_Ok [of "dl_prekey_id D" "dl_prekey_bytes D" "li_one_time_prekeys li"
        "new_signal_store (li_identity_key_pair li) (li_registration_id li)"])
      (use assms in \<open>auto simp: records_law_def new_signal_store_def\<close>)
  let ?st = "st\<lparr>signed_prekeys := (signed_prekeys st)(spk_id (li_signed_prekey li) \<mapsto> dl_signed_bytes D (li_signed_prekey li))\<rparr>"
  have "store_signed_prekey_record (dl_signed_id D) (dl_signed_bytes D (li_signed_prekey li)) st = (Ok (), ?st)"
    using assms(1) by (simp add: records_law_def store_signed_prekey_record_def)
  then have "enroll D name li = Ok \<lparr>local_address = Address name 1, store = ?st\<rparr>"
    by (simp add: enroll_def st(1))
  then show ?thesis
    by (rule that) (simp_all add: st)
qed

lemma generated_identity:
  assumes "generate_identity sign clock_err ikp skp otk wall reg = Ok li"
  shows "distinct (map pk_id (li_one_time_prekeys li))" "li_one_time_prekeys li \<noteq> []"
    "li_registration_id li = reg" "li_identity_key_pair li = ikp" "spk_pair (li_signed_prekey li) = skp"
    "sign (snd ikp) (fst skp) = Ok (spk_signature (li_signed_prekey li))"
    "pk \<in> set (li_one_time_prekeys li) \<Longrightarrow> \<exists>i. pk_pair pk = otk i"
proof -
  have pks: "li_one_time_prekeys li = map (\<lambda>i. \<lparr>pk_id = of_nat i, pk_pair = otk i\<rparr>) [0..<100]" "li_registration_id li = reg"
    using assms by (auto simp: generate_identity_def and_then_Ok_iff ONE_TIME_PREKEY_BATCH_def split: if_splits)
  have "inj_on (of_nat :: nat \<Rightarrow> u32) {0..<100}"
    by (rule inj_onI) (auto dest!: arg_cong [where f = unat] simp: unat_of_nat)
  then show "distinct (map pk_id (li_one_time_prekeys li))"
    by (simp add: pks(1) distinct_map comp_inj_on_iff o_def)
  show "li_one_time_prekeys li \<noteq> []" "li_registration_id li = reg"
    "pk \<in> set (li_one_time_prekeys li) \<Longrightarrow> \<exists>i. pk_pair pk = otk i"
    by (auto simp: pks)
  show "li_identity_key_pair li = ikp" "spk_pair (li_signed_prekey li) = skp"
    "sign (snd ikp) (fst skp) = Ok (spk_signature (li_signed_prekey li))"
    using assms by (auto simp: generate_identity_def and_then_Ok_iff split: if_splits)
qed

definition first_envelope :: "u64 \<Rightarrow> bytes \<Rightarrow> message_envelope" where
  "first_envelope now x = \<lparr>sender_id = ''alice'', recipient_id = ''bob'', ciphertext = x, env_type = PreKey,
     timestamp_ms = now, version = ENVELOPE_VERSION_V2, sealed_sender = False, routing_hint = None,
     self_destruct_at = None, read_triggered_destruct = False, dead_drop_address = None\<rparr>"

text \<open>An identity whose keys are drawn and whose signed prekey the identity key signed.\<close>

definition sound_identity :: "signature_lib \<Rightarrow> local_identity \<Rightarrow> bool" where
  "sound_identity G li \<longleftrightarrow> distinct (map pk_id (li_one_time_prekeys li)) \<and> li_one_time_prekeys li \<noteq> []
    \<and> matching (sg_public_of G) (li_identity_key_pair li) \<and> matching (sg_public_of G) (spk_pair (li_signed_prekey li))
    \<and> (\<forall>pk \<in> set (li_one_time_prekeys li). matching (sg_public_of G) (pk_pair pk))
    \<and> sg_verify G (fst (li_identity_key_pair li)) (fst (spk_pair (li_signed_prekey li))) (spk_signature (li_signed_prekey li))"

lemma generated_identity_sound:
  assumes "signature_law G" "generate_identity (sg_sign G) clock_err ikp skp otk wall reg = Ok li"
    and "matching (sg_public_of G) ikp" "matching (sg_public_of G) skp" "\<And>i. matching (sg_public_of G) (otk i)"
  shows "sound_identity G li"
proof -
  note li = generated_identity [OF assms(2)]
  have "sg_verify G (fst ikp) (fst skp) (spk_signature (li_signed_prekey li))"
    using assms(1,3) li(6) by (simp add: signature_law_def matching_def)
  then show ?thesis
    using li(1,2,4,5,7) assms(3-5) unfolding sound_identity_def by metis
qed

lemma demo_compose_Ok:
  assumes "records_law D" "x3dh_law G D" "sound_identity G lia" "sound_identity G lib"
  obtains bob x st' where
    "demo_compose D W (Ok lia) (Ok lib) expire_secs read_once = Ok (bob, demo_marked expire_secs read_once (first_envelope (dw_now_ms W) x))"
    "parse_prekey_message (dl_signal D) x = Ok x"
    "message_decrypt (dl_signal D) (PreKeySignalMessage x) (Address ''alice'' 1) (store bob) = (Ok demo_plaintext, st')"
proof -
  note ids = assms(3,4) [unfolded sound_identity_def]
  obtain a where a: "enroll D ''alice'' lia = Ok a" "local_address a = Address ''alice'' 1"
    "identity_key_pair (store a) = Some (li_identity_key_pair lia)" "trusted_identities (store a) = (\<lambda>_. None)"
    using enroll_Ok [OF assms(1), of lia "''alice''"] ids(1) by metis
  obtain b where b: "enroll D ''bob'' lib = Ok b" "identity_key_pair (store b) = Some (li_identity_key_pair lib)"
    "\<And>pk. pk \<in> set (li_one_time_prekeys lib) \<Longrightarrow> prekeys (store b) (pk_id pk) = Some (dl_prekey_bytes D pk)"
    "signed_prekeys (store b) (spk_id (li_signed_prekey lib)) = Some (dl_signed_bytes D (li_signed_prekey lib))"
    "trusted_identities (store b) = (\<lambda>_. None)"
    using enroll_Ok [OF assms(1), of lib "''bob''"] ids(2) by metis
  let ?pk = "hd (li_one_time_prekeys lib)"
  have pk: "?pk \<in> set (li_one_time_prekeys lib)"
    using ids(2) by simp
  obtain pkb where pkb: "build_prekey_bundle (dl_make_bundle D) lib = Ok pkb"
    "pb_prekey pkb = Some (pk_id ?pk, fst (pk_pair ?pk))" "pb_identity_key pkb = fst (li_identity_key_pair lib)"
    "pb_signed_prekey_public pkb = fst (spk_pair (li_signed_prekey lib))"
    "pb_signature pkb = spk_signature (li_signed_prekey lib)"
    using assms(1) ids(2) by (cases "li_one_time_prekeys lib") (auto simp: build_prekey_bundle_def records_law_def)
  have "build_prekey_bundle (dl_make_bundle D) lib = Ok pkb \<and> pb_prekey pkb = Some (pk_id ?pk, fst (pk_pair ?pk))
    \<and> sg_verify G (pb_identity_key pkb) (pb_signed_prekey_public pkb) (pb_signature pkb)
    \<and> matching (sg_public_of G) (li_identity_key_pair lia) \<and> matching (sg_public_of G) (li_identity_key_pair lib)
    \<and> matching (sg_public_of G) (spk_pair (li_signed_prekey lib)) \<and> matching (sg_public_of G) (pk_pair ?pk)
    \<and> identity_key_pair (store a) = Some (li_identity_key_pair lia) \<and> identity_key_pair (store b) = Some (li_identity_key_pair lib)
    \<and> trusted_identities (store a) (show_addr (dl_signal D) (Address ''bob'' 1)) \<in> {None, Some (pb_identity_key pkb)}
    \<and> trusted_identities (store b) (show_addr (dl_signal D) (Address ''alice'' 1)) \<in> {None, Some (fst (li_identity_key_pair lia))}
    \<and> signed_prekeys (store b) (spk_id (li_signed_prekey lib)) = Some (dl_signed_bytes D (li_signed_prekey lib))
    \<and> prekeys (store b) (pk_id ?pk) = Some (dl_prekey_bytes D ?pk)"
    using ids pk a(3,4) b(2-5) pkb by simp
  then obtain sta where sta: "process_prekey_bundle (dl_signal D) (Address ''bob'' 1) pkb (store a) = (Ok (), sta)"
    and enc: "\<And>pt. \<exists>x st st'. message_encrypt (dl_signal D) pt (Address ''bob'' 1) sta = (Ok (PreKeySignalMessage x), st)
          \<and> parse_prekey_message (dl_signal D) x = Ok x
          \<and> message_decrypt (dl_signal D) (PreKeySignalMessage x) (Address ''alice'' 1) (store b) = (Ok pt, st')"
    using assms(2) unfolding x3dh_law_def by blast
  obtain x st st' where x: "message_encrypt (dl_signal D) demo_plaintext (Address ''bob'' 1) sta = (Ok (PreKeySignalMessage x), st)"
    "parse_prekey_message (dl_signal D) x = Ok x"
    "message_decrypt (dl_signal D) (PreKeySignalMessage x) (Address ''alice'' 1) (store b) = (Ok demo_plaintext, st')"
    using enc by blast
  have "demo_start D (Ok lia) (Ok lib) = Ok (a\<lparr>store := sta\<rparr>, b)"
    by (simp add: demo_start_def a(1) b(1) pkb(1) initiate_session_def sta)
  then have "demo_compose D W (Ok lia) (Ok lib) expire_secs read_once
      = Ok (b, demo_marked expire_secs read_once (first_envelope (dw_now_ms W) x))"
    by (simp add: demo_compose_def encrypt_def x(1) a(2) first_envelope_def envelope_type_of_def)
  then show ?thesis
    using x(2,3) by (rule that)
qed

text \<open>What a sent envelope shows at the end, whoever carried it.\<close>

definition expected_ending :: "u64 option \<Rightarrow> bool \<Rightarrow> bytes \<Rightarrow> demo_ending" where
  "expected_ending expire_secs read_once p =
    (case expire_secs of
       Some _ \<Rightarrow> TimeBoundShown p True (Err SelfDestructExpired)
     | None \<Rightarrow> if read_once then ReadOnceShown p (Err SelfDestructExpired) else HistoryShown 1)"

definition storage_law :: "demo_lib \<Rightarrow> bool" where
  "storage_law D \<longleftrightarrow> aead_law (dl_crypto D) \<and> (\<forall>k n p. is_ok (aead_encrypt (dl_crypto D) k n p))
    \<and> client_json_law (dl_store D) \<and> (\<forall>e. is_ok (env_to_string (dl_store D) e))"

lemma seal_inner_succeeds:
  "\<forall>k n p. is_ok (aead_encrypt c k n p) \<Longrightarrow> \<exists>m. seal_inner c seed nonce wall p mode ts w = Ok m"
  by (auto simp: seal_inner_def is_ok_iff Let_def) (metis and_then.simps(1) map_err.simps(1))

lemma time_bound_ending:
  assumes "storage_law D" "length (dw_nonce W) = NONCE_LEN"
    and "dw_read_at W < dw_sealed_at W + unat secs * 1000000000" "dw_sealed_at W \<le> dw_read_at W"
  shows "demo_ending_of D W (Some secs) (with_self_destruct v e) p = Ok (TimeBoundShown p True (Err SelfDestructExpired))"
proof -
  let ?w = "unat secs * 1000000000"
  obtain m where m: "seal_inner (dl_crypto D) (dw_seed W) (dw_nonce W) (dw_wall W) p TimeBound (timestamp_ms e) (as_millis_u64 ?w) = Ok m"
    using seal_inner_succeeds [of "dl_crypto D"] assms(1) unfolding storage_law_def by blast
  let ?m = "m\<lparr>sd_timer := Some (dw_sealed_at W + ?w)\<rparr>"
  have sealed: "seal (dl_crypto D) (dw_seed W) (dw_nonce W) (dw_wall W) (dw_sealed_at W) p (timestamp_ms e) ?w = Ok ?m"
    using m by (simp add: seal_def spawn_expiry_timer_def)
  have "sd_mode ?m = TimeBound" "fst (open_msg (dl_crypto D) ?m) = Ok p"
    using m seal_inner_open [OF _ assms(2) m] assms(1) by (auto simp: storage_law_def elim: seal_inner_Ok)
  then have opened: "open_msg (dl_crypto D) ?m = (Ok p, ?m)"
    using open_msg_TimeBound [of ?m] by (simp add: prod_eq_iff)
  have waits: "after_timer (dw_read_at W) ?m = ?m" "after_timer (dw_read_at W + ?w + 200000000) ?m = expire_now ?m"
    using assms(3,4) by (simp_all add: after_timer_def)
  have gone: "is_expired (expire_now ?m)"
    by (simp add: expire_now_def erase_def is_expired_def Let_def)
  have "timestamp_ms (with_self_destruct v e) = timestamp_ms e" "self_destruct_at (with_self_destruct v e) \<noteq> None"
    by (simp_all add: with_self_destruct_def)
  then show ?thesis
    unfolding demo_ending_of_def
    by (simp add: sealed opened waits gone open_msg_gone [OF gone] Let_def del: spawn_expiry_timer_def)
qed

lemma read_once_ending:
  assumes "storage_law D" "length (dw_nonce W) = NONCE_LEN" "self_destruct_at e = None"
  shows "demo_ending_of D W secs (with_read_triggered_destruct e) p = Ok (ReadOnceShown p (Err SelfDestructExpired))"
proof -
  obtain m where m: "seal_inner (dl_crypto D) (dw_seed W) (dw_nonce W) (dw_wall W) p ReadTriggered (timestamp_ms e) 0 = Ok m"
    using seal_inner_succeeds [of "dl_crypto D"] assms(1) unfolding storage_law_def by blast
  have "sd_mode m = ReadTriggered" "fst (open_msg (dl_crypto D) m) = Ok p"
    using m seal_inner_open [OF _ assms(2) m] assms(1) by (auto simp: storage_law_def elim: seal_inner_Ok)
  then obtain m' where opened: "open_msg (dl_crypto D) m = (Ok p, m')" "is_expired m'"
    using open_msg_erases [of "dl_crypto D" m p] by (cases "open_msg (dl_crypto D) m") auto
  then show ?thesis
    using m assms(3)
    by (simp add: demo_ending_of_def with_read_triggered_destruct_def seal_read_triggered_def open_msg_gone)
qed

lemma history_ending:
  assumes "storage_law D" "self_destruct_at e = None" "\<not> read_triggered_destruct e"
  shows "demo_ending_of D W secs e p = Ok (HistoryShown 1)"
proof -
  obtain j where j: "env_to_string (dl_store D) e = Ok j" "env_from_str (dl_store D) j = Ok e"
    using assms(1) unfolding storage_law_def client_json_law_def is_ok_iff by blast
  show ?thesis
    using assms(2,3)
    by (simp add: demo_ending_of_def open_ephemeral_def from_connection_def empty_file_def run_migrations_def Let_def
        Client_Store.CURRENT_SCHEMA_VERSION_def store_message_def j table_def history_for_def read_message_row_def
        direction_from_str_def)
qed

lemma demo_ending_expected:
  assumes "storage_law D" "length (dw_nonce W) = NONCE_LEN" "dw_sealed_at W \<le> dw_read_at W"
    and "\<And>secs. expire_secs = Some secs \<Longrightarrow> dw_read_at W < dw_sealed_at W + unat secs * 1000000000"
  shows "demo_ending_of D W expire_secs (demo_marked expire_secs read_once (first_envelope now x)) p
    = Ok (expected_ending expire_secs read_once p)"
proof (cases expire_secs)
  case (Some secs)
  then show ?thesis
    using time_bound_ending [OF assms(1,2) assms(4) [OF Some] assms(3)]
    by (simp add: demo_marked_def expected_ending_def)
next
  case None
  have "self_destruct_at (first_envelope now x) = None" "\<not> read_triggered_destruct (first_envelope now x)"
    by (simp_all add: first_envelope_def)
  with None show ?thesis
    using read_once_ending [OF assms(1,2), of "first_envelope now x" None p] history_ending [OF assms(1), of "first_envelope now x" W None p]
    by (simp add: demo_marked_def expected_ending_def)
qed

text \<open>Over the stand-in, a mail sent to an empty mailbox is the one received.\<close>

lemma stub_transport:
  assumes "envelope_json_law J" "recipient_id e = ''bob''" "stub_messages s ''bob'' = None"
  shows "direct_send (stub_http J base) \<lparr>relay_base_url = base\<rparr> e s
      = (Ok (), s\<lparr>stub_messages := (stub_messages s)(''bob'' \<mapsto> [ej_write J e])\<rparr>)"
    "direct_receive (stub_http J base) \<lparr>relay_base_url = base\<rparr> ''bob'' (s\<lparr>stub_messages := (stub_messages s)(''bob'' \<mapsto> [ej_write J e])\<rparr>)
      = (Ok [e], s)"
proof -
  have url: "strip_prefix (base @ ''/v1/messages/'') (message_url base ''bob'') = Some ''bob''"
    unfolding message_url_def using strip_prefix_append [of "base @ ''/v1/messages/''" "''bob''"] by simp
  show "direct_send (stub_http J base) \<lparr>relay_base_url = base\<rparr> e s
      = (Ok (), s\<lparr>stub_messages := (stub_messages s)(''bob'' \<mapsto> [ej_write J e])\<rparr>)"
    using assms(2,3) url
    by (simp add: direct_send_def stub_http_def stub_serve_def stub_submit_message_def stub_reply_def Let_def)
  have "s\<lparr>stub_messages := (stub_messages s)(''bob'' := None)\<rparr> = s"
    using assms(3) by (simp add: fun_upd_idem)
  then show "direct_receive (stub_http J base) \<lparr>relay_base_url = base\<rparr> ''bob'' (s\<lparr>stub_messages := (stub_messages s)(''bob'' \<mapsto> [ej_write J e])\<rparr>)
      = (Ok [e], s)"
    using assms(1) url
    by (simp add: direct_receive_def fetched_messages_def stub_http_def stub_serve_def stub_fetch_messages_def
        stub_reply_def envelope_json_law_def Let_def)
qed

lemma burned_state: "\<not> has_conversation_state (show_addr ls) a (store (snd (burn_conversation ls sm a)))"
  by (simp add: burn_conversation_def burn_session_def has_conversation_state_def Let_def)

text \<open>A registration id of the partner is a positive number of 14 bits, as Signal asks for.\<close>

lemma peer_registration_id_range: "0 < unat (peer_registration_id r) \<and> unat (peer_registration_id r) < 2 ^ 14"
proof -
  have "unat (r mod 0x3FFF) < 0x3FFF"
    by (simp add: unat_mod)
  then have "unat (peer_registration_id r) = unat (r mod 0x3FFF) + 1"
    unfolding peer_registration_id_def by (subst unat_plus_simple [THEN iffD1]) (simp_all add: word_le_nat_alt unat_word_ariths)
  with \<open>unat (r mod 0x3FFF) < 0x3FFF\<close> show ?thesis by simp
qed

text \<open>The partner polls only after the relay took a bundle of the keys that its own store holds.\<close>

lemma polling_partner_is_published:
  assumes "peer_run H C D generate random url user n = (Ok (Polling sm url'), n')" "records_law D"
    and "\<And>reg li. generate reg = Ok li \<Longrightarrow> distinct (map pk_id (li_one_time_prekeys li))"
  shows "\<exists>li v code. generate (peer_registration_id random) = Ok li \<and> bundle_to_json C li = Ok v
    \<and> post_bundle H (url' @ ''/v1/keys/'' @ user) v n = (Ok code, n') \<and> is_success code
    \<and> (\<forall>pk \<in> set (li_one_time_prekeys li). prekeys (store sm) (pk_id pk) = Some (dl_prekey_bytes D pk))"
proof -
  obtain li v where li: "generate (peer_registration_id random) = Ok li" "enroll D user li = Ok sm" "bundle_to_json C li = Ok v"
    "url' = trim_end_matches (CHR ''/'') url"
    using assms(1) by (auto simp: peer_run_def Let_def and_then_Ok_iff split: result.splits prod.splits if_splits)
  moreover obtain code where "post_bundle H (url' @ ''/v1/keys/'' @ user) v n = (Ok code, n')" "is_success code"
    using assms(1) li by (auto simp: peer_run_def Let_def split: result.splits prod.splits if_splits)
  moreover have "\<forall>pk \<in> set (li_one_time_prekeys li). prekeys (store sm) (pk_id pk) = Some (dl_prekey_bytes D pk)"
    using enroll_Ok [OF assms(2) assms(3) [OF li(1)], of user] li(2) by (metis result.inject(1))
  ultimately show ?thesis by blast
qed

section \<open>Properties\<close>


definition toy_scheme :: signature_lib where
  "toy_scheme = \<lparr>sg_public_of = map (\<lambda>b. b - 1), sg_sign = (\<lambda>sk m. Ok (map (\<lambda>b. b - 1) sk @ m)),
     sg_verify = (\<lambda>pk m sg. sg = pk @ m)\<rparr>"

text \<open>A library that refuses a bundle whose signature does not verify.\<close>

definition toy_demo :: demo_lib where
  "toy_demo = \<lparr>dl_signal = toy_signal\<lparr>process_prekey_bundle := (\<lambda>a b st.
       if sg_verify toy_scheme (pb_identity_key b) (pb_signed_prekey_public b) (pb_signature b)
       then (Ok (), store_session show_address a [1] st) else (Err (OtherSignalError ''invalid signature''), st)),
     message_encrypt := (\<lambda>p a st. (Ok (PreKeySignalMessage p), st))\<rparr>,
     dl_make_bundle = Ok, dl_prekey_bytes = (\<lambda>pk. be_bytes 4 (pk_id pk)), dl_prekey_id = (\<lambda>b. Ok (of_be_bytes b)),
     dl_signed_bytes = (\<lambda>pk. be_bytes 4 (spk_id pk)), dl_signed_id = (\<lambda>b. Ok (of_be_bytes b)),
     dl_crypto = \<lparr>hkdf_expand = (\<lambda>seed info. seed), aead_encrypt = (\<lambda>k n p. Ok p), aead_decrypt = (\<lambda>k n p. Ok p)\<rparr>,
     dl_store = \<lparr>env_to_string = (\<lambda>e. Ok (envelope_text \<lparr>se_id = [], se_envelope = e\<rparr>)),
       env_from_str = (\<lambda>j. Ok (se_envelope (inv envelope_text j))), engine_error = (\<lambda>e. e), debug_str = (\<lambda>e. e)\<rparr>\<rparr>"

definition toy_envelope_json :: envelope_json where
  "toy_envelope_json = \<lparr>ej_write = (\<lambda>e. JString (envelope_text \<lparr>se_id = [], se_envelope = e\<rparr>)),
     ej_read = (\<lambda>v. ok_or (map_option (\<lambda>j. se_envelope (inv envelope_text j)) (as_str v)) ''expected string'')\<rparr>"

lemma toy_demo_laws: "records_law toy_demo" "signature_law toy_scheme" "x3dh_law toy_scheme toy_demo" "storage_law toy_demo" "envelope_json_law toy_envelope_json"
proof -
  have codec: "inv envelope_text (envelope_text x) = x" for x
    by (rule inv_f_f [OF inj_envelope_text])
  have bytes: "of_be_bytes (be_bytes 4 (i :: u32)) = i" for i
    by (simp add: of_be_bytes_be_bytes)
  show "records_law toy_demo"
    by (simp add: records_law_def toy_demo_def bytes)
  show "signature_law toy_scheme"
    by (simp add: signature_law_def toy_scheme_def)
  show "x3dh_law toy_scheme toy_demo"
    by (simp add: x3dh_law_def toy_demo_def toy_signal_def)
  show "storage_law toy_demo"
    by (auto simp: storage_law_def toy_demo_def aead_law_def client_json_law_def codec)
  show "envelope_json_law toy_envelope_json"
    by (simp add: envelope_json_law_def toy_envelope_json_def codec)
qed


end
