(* ===== verification/Jni_Bridge.thy ===== *)
theory Jni_Bridge
  imports Mobile_Radio
begin

text \<open>
  The calls from Rust into Kotlin: what loading the library caches (\<open>mobile-bridge/src/lib.rs\<close>)
  and the static methods of \<open>MeshBridge\<close> that are called on it (\<open>ffi.rs\<close>), below the radio
  operations of \<open>radio.rs\<close>.  The JVM is a parameter that sees every call together with the
  tables of pending requests, for it may call back before the call returns.
\<close>

section \<open>Loading\<close>

text \<open>Both cells are \<open>OnceLock\<close>s: once set they stay.\<close>

record jni_bridge =
  jvm_cached :: bool
  class_cached :: bool

definition new_bridge :: jni_bridge where
  "new_bridge = \<lparr>jvm_cached = False, class_cached = False\<rparr>"

definition MESH_BRIDGE_CLASS_NAME :: string where
  "MESH_BRIDGE_CLASS_NAME = ''com/parda/app/MeshBridge''"

definition JNI_VERSION_1_6 :: u32 where
  "JNI_VERSION_1_6 = 0x00010006"

record loading_vm =
  vm_env :: "(unit, string) result"
  vm_find_class :: "string \<Rightarrow> (unit, string) result"
  vm_global_ref :: "(unit, string) result"

definition jni_on_load :: "loading_vm \<Rightarrow> jni_bridge \<Rightarrow> u32 \<times> jni_bridge" where
  "jni_on_load V b =
    (let cached = is_ok (and_then (vm_env V) (\<lambda>_.
           and_then (vm_find_class V MESH_BRIDGE_CLASS_NAME) (\<lambda>_. vm_global_ref V)))
     in (JNI_VERSION_1_6, \<lparr>jvm_cached = True, class_cached = class_cached b \<or> cached\<rparr>))"

section \<open>Calls\<close>

datatype jvalue = JLong u64 | JBytes bytes

record jvm_call =
  jc_method :: string
  jc_signature :: string
  jc_args :: "jvalue list"

text \<open>
  The JVM at a call: attaching the thread, making an array, and the method itself, which may
  resolve pending requests before it returns.
\<close>

record java =
  j_attach :: "(unit, string) result"
  j_new_array :: "bytes \<Rightarrow> (unit, string) result"
  j_call :: "jvm_call \<Rightarrow> pending_table \<Rightarrow> (unit, string) result \<times> pending_table"

definition arrays :: "java \<Rightarrow> jvalue list \<Rightarrow> (unit, string) result" where
  "arrays J args = fold (\<lambda>v r. and_then r (\<lambda>_. case v of JBytes bs \<Rightarrow> j_new_array J bs | JLong _ \<Rightarrow> Ok ())) args (Ok ())"

text \<open>The outer result is the panic of \<open>jvm()\<close> when the library was not loaded by the JVM.\<close>

definition jvm_panic :: string where
  "jvm_panic = ''JNI_OnLoad has not run yet''"

definition with_env ::
  "java \<Rightarrow> jni_bridge \<Rightarrow> (pending_table \<Rightarrow> (unit, string) result \<times> pending_table) \<Rightarrow> pending_table
    \<Rightarrow> ((unit, string) result \<times> pending_table, string) result" where
  "with_env J b f p =
    (if \<not> jvm_cached b then Err jvm_panic
     else Ok (case j_attach J of Err e \<Rightarrow> (Err e, p) | Ok _ \<Rightarrow> f p))"

definition mesh_bridge_class :: "jni_bridge \<Rightarrow> (unit, string) result" where
  "mesh_bridge_class b = (if class_cached b then Ok () else Err ''JavaException'')"

definition bridge_call ::
  "java \<Rightarrow> jni_bridge \<Rightarrow> jvm_call \<Rightarrow> pending_table \<Rightarrow> ((unit, string) result \<times> pending_table, string) result" where
  "bridge_call J b c = with_env J b (\<lambda>p.
    case and_then (mesh_bridge_class b) (\<lambda>_. arrays J (jc_args c)) of
      Err e \<Rightarrow> (Err e, p)
    | Ok _ \<Rightarrow> j_call J c p)"

text \<open>The methods, with their JNI signatures and arguments.\<close>

definition ffi_start_advertise :: "u64 \<Rightarrow> bytes \<Rightarrow> jvm_call" where
  "ffi_start_advertise i token =
    \<lparr>jc_method = ''startAdvertise'', jc_signature = ''(J[B)V'', jc_args = [JLong i, JBytes token]\<rparr>"

definition ffi_start_scan :: "u64 \<Rightarrow> jvm_call" where
  "ffi_start_scan i = \<lparr>jc_method = ''startScan'', jc_signature = ''(J)V'', jc_args = [JLong i]\<rparr>"

definition ffi_stop_scan :: "u64 \<Rightarrow> jvm_call" where
  "ffi_stop_scan i = \<lparr>jc_method = ''stopScan'', jc_signature = ''(J)V'', jc_args = [JLong i]\<rparr>"

definition ffi_connect :: "u64 \<Rightarrow> bytes \<Rightarrow> jvm_call" where
  "ffi_connect i peer = \<lparr>jc_method = ''connect'', jc_signature = ''(J[B)V'', jc_args = [JLong i, JBytes peer]\<rparr>"

definition ffi_accept :: "u64 \<Rightarrow> jvm_call" where
  "ffi_accept i = \<lparr>jc_method = ''accept'', jc_signature = ''(J)V'', jc_args = [JLong i]\<rparr>"

definition ffi_link_send :: "u64 \<Rightarrow> u64 \<Rightarrow> bytes \<Rightarrow> jvm_call" where
  "ffi_link_send i link bs =
    \<lparr>jc_method = ''send'', jc_signature = ''(JJ[B)V'', jc_args = [JLong i, JLong link, JBytes bs]\<rparr>"

definition ffi_link_recv :: "u64 \<Rightarrow> u64 \<Rightarrow> jvm_call" where
  "ffi_link_recv i link = \<lparr>jc_method = ''recv'', jc_signature = ''(JJ)V'', jc_args = [JLong i, JLong link]\<rparr>"

section \<open>Radio operations through the bridge\<close>

text \<open>The request is registered before the call, so that a callback during it finds the request.\<close>

definition bridged_request ::
  "java \<Rightarrow> jni_bridge \<Rightarrow> (string \<Rightarrow> mesh_error) \<Rightarrow> (u64 \<Rightarrow> jvm_call) \<Rightarrow> pending_table
    \<Rightarrow> (u64 mesh \<times> pending_table, string) result" where
  "bridged_request J b failure call p =
    (let (i, p) = next_id p; p = register_oneshot i p
     in map_ok (\<lambda>(r, p). (case r of Ok _ \<Rightarrow> Ok i | Err e \<Rightarrow> Err (failure e), p)) (bridge_call J b (call i) p))"

definition bridged_advertise ::
  "java \<Rightarrow> jni_bridge \<Rightarrow> advert_token \<Rightarrow> pending_table \<Rightarrow> (u64 mesh \<times> pending_table, string) result" where
  "bridged_advertise J b token =
    bridged_request J b (\<lambda>e. RadioUnavailable (''JNI startAdvertise failed: '' @ e))
      (\<lambda>i. ffi_start_advertise i (to_wire token))"

definition bridged_connect ::
  "java \<Rightarrow> jni_bridge \<Rightarrow> peer_handle \<Rightarrow> pending_table \<Rightarrow> (u64 mesh \<times> pending_table, string) result" where
  "bridged_connect J b peer p =
    (case opaque_bytes peer of
       None \<Rightarrow> Ok (Err PeerUnreachable, p)
     | Some h \<Rightarrow> bridged_request J b (\<lambda>e. Link (''JNI connect failed: '' @ e)) (\<lambda>i. ffi_connect i h) p)"

definition bridged_accept ::
  "java \<Rightarrow> jni_bridge \<Rightarrow> pending_table \<Rightarrow> (u64 mesh \<times> pending_table, string) result" where
  "bridged_accept J b = bridged_request J b (\<lambda>e. RadioUnavailable (''JNI accept failed: '' @ e)) ffi_accept"

definition bridged_send ::
  "java \<Rightarrow> jni_bridge \<Rightarrow> u64 \<Rightarrow> bytes \<Rightarrow> pending_table \<Rightarrow> (u64 mesh \<times> pending_table, string) result" where
  "bridged_send J b link bs = bridged_request J b (\<lambda>e. Link (''JNI send failed: '' @ e)) (\<lambda>i. ffi_link_send i link bs)"

definition bridged_recv ::
  "java \<Rightarrow> jni_bridge \<Rightarrow> u64 \<Rightarrow> pending_table \<Rightarrow> (u64 mesh \<times> pending_table, string) result" where
  "bridged_recv J b link = bridged_request J b (\<lambda>e. Link (''JNI recv failed: '' @ e)) (\<lambda>i. ffi_link_recv i link)"

text \<open>A scan starts with its stream registered; its collecting task ends with \<open>stopScan\<close>, whose result is ignored.\<close>

definition bridged_scan ::
  "java \<Rightarrow> jni_bridge \<Rightarrow> pending_table \<Rightarrow> (u64 mesh \<times> pending_table, string) result" where
  "bridged_scan J b p =
    (let (i, p) = next_id p; p = register_stream i p
     in map_ok (\<lambda>(r, p). (case r of Ok _ \<Rightarrow> (Ok i, p)
          | Err e \<Rightarrow> (Err (RadioUnavailable (''JNI startScan failed: '' @ e)),
              p\<lparr>streams := (streams p)(i := map_option (\<lambda>(q, _). (q, False)) (streams p i))\<rparr>)))
        (bridge_call J b (ffi_start_scan i) p))"

definition bridged_collect ::
  "java \<Rightarrow> jni_bridge \<Rightarrow> u64 \<Rightarrow> pending_table \<Rightarrow> (peer_sighting list \<times> pending_table, string) result" where
  "bridged_collect J b i p =
    (let (sightings, p) = collect_scan i p
     in map_ok (\<lambda>(_, p). (sightings, p)) (bridge_call J b (ffi_stop_scan i) p))"

section \<open>Types of the calls\<close>

text \<open>JNI's descriptors, as far as they are used, and the types of the arguments.\<close>

datatype jtype = TLong | TByteArray

fun jtype_of :: "jvalue \<Rightarrow> jtype" where
  "jtype_of (JLong _) = TLong"
| "jtype_of (JBytes _) = TByteArray"

fun parameter_types :: "string \<Rightarrow> (jtype list \<times> string) option" where
  "parameter_types [] = None"
| "parameter_types (c # s) =
    (if c = CHR '')'' then Some ([], s)
     else if c = CHR ''J'' then map_option (\<lambda>(ts, r). (TLong # ts, r)) (parameter_types s)
     else if c = CHR ''['' then
       (case s of
          d # s' \<Rightarrow> if d = CHR ''B'' then map_option (\<lambda>(ts, r). (TByteArray # ts, r)) (parameter_types s') else None
        | [] \<Rightarrow> None)
     else None)"

text \<open>The parameters of a descriptor of a method without a result.\<close>

definition void_method :: "string \<Rightarrow> jtype list option" where
  "void_method signature =
    (case signature of
       c # s \<Rightarrow> if c = CHR ''('' then
           (case parameter_types s of Some (ts, r) \<Rightarrow> if r = ''V'' then Some ts else None | None \<Rightarrow> None)
         else None
     | [] \<Rightarrow> None)"

text \<open>The static methods that \<open>MeshBridge.kt\<close> declares for Rust.\<close>

definition kotlin_methods :: "(string \<times> jtype list) list" where
  "kotlin_methods =
    [(''startAdvertise'', [TLong, TByteArray]), (''startScan'', [TLong]), (''stopScan'', [TLong]),
     (''connect'', [TLong, TByteArray]), (''accept'', [TLong]), (''send'', [TLong, TLong, TByteArray]),
     (''recv'', [TLong, TLong])]"

definition well_typed_call :: "jvm_call \<Rightarrow> bool" where
  "well_typed_call c \<longleftrightarrow> map_of kotlin_methods (jc_method c) = Some (map jtype_of (jc_args c))
    \<and> void_method (jc_signature c) = Some (map jtype_of (jc_args c))"

section \<open>What the bridge guarantees\<close>

lemmas ffi_calls = ffi_start_advertise_def ffi_start_scan_def ffi_stop_scan_def ffi_connect_def
  ffi_accept_def ffi_link_send_def ffi_link_recv_def

text \<open>Each Rust wrapper passes what its descriptor says and what the Kotlin method declares.\<close>

lemma ffi_well_typed [simp]:
  "well_typed_call (ffi_start_advertise i token)" "well_typed_call (ffi_start_scan i)"
  "well_typed_call (ffi_stop_scan i)" "well_typed_call (ffi_connect i h)" "well_typed_call (ffi_accept i)"
  "well_typed_call (ffi_link_send i link bs)" "well_typed_call (ffi_link_recv i link)"
  by (simp_all add: well_typed_call_def void_method_def kotlin_methods_def ffi_calls)

text \<open>Where the call cannot be made, only the registration of the request is left behind.\<close>

definition bridge_ready :: "java \<Rightarrow> jni_bridge \<Rightarrow> jvalue list \<Rightarrow> bool" where
  "bridge_ready J b args \<longleftrightarrow> jvm_cached b \<and> class_cached b \<and> is_ok (j_attach J) \<and> is_ok (arrays J args)"

lemma bridge_call_ready: "bridge_ready J b (jc_args c) \<Longrightarrow> bridge_call J b c p = Ok (j_call J c p)"
  by (auto simp: bridge_ready_def bridge_call_def with_env_def mesh_bridge_class_def split: result.splits)

lemma bridge_call_unloaded: "\<not> jvm_cached b \<Longrightarrow> bridge_call J b c p = Err jvm_panic"
  by (simp add: bridge_call_def with_env_def)

lemma bridge_call_without_class:
  "jvm_cached b \<Longrightarrow> \<not> class_cached b \<Longrightarrow> \<exists>e. bridge_call J b c p = Ok (Err e, p)"
  by (auto simp: bridge_call_def with_env_def mesh_bridge_class_def split: result.splits)


lemma bridged_request_ready:
  assumes "bridge_ready J b (jc_args (call (next_request p)))"
  shows "bridged_request J b failure call p =
    (let i = next_request p;
         (r, p') = j_call J (call i) (register_oneshot i (p\<lparr>next_request := i + 1\<rparr>))
     in Ok (case r of Ok _ \<Rightarrow> Ok i | Err e \<Rightarrow> Err (failure e), p'))"
  using assms by (simp add: bridged_request_def next_id_def bridge_call_ready split: prod.split)

text \<open>
  With the outcome of the call as a value, an operation is the one of \<open>radio.rs\<close> that the rest of
  the development uses, as long as the JVM does not call back before it returns.
\<close>

definition quiet :: "java \<Rightarrow> (jvm_call \<Rightarrow> (unit, string) result) \<Rightarrow> bool" where
  "quiet J out \<longleftrightarrow> (\<forall>c p. j_call J c p = (out c, p))"

lemma bridged_request_quiet:
  "quiet J out \<Longrightarrow> bridge_ready J b (jc_args (call (next_request p))) \<Longrightarrow>
    bridged_request J b failure call p = Ok (begin_request failure (out (call (next_request p))) p)"
  by (simp add: bridged_request_ready quiet_def begin_request_def next_id_def Let_def)

section \<open>Properties\<close>

definition toy_java :: java where
  "toy_java = \<lparr>j_attach = Ok (), j_new_array = (\<lambda>_. Ok ()), j_call = (\<lambda>c p. (Ok (), p))\<rparr>"

definition toy_vm :: loading_vm where
  "toy_vm = \<lparr>vm_env = Ok (), vm_find_class = (\<lambda>_. Ok ()), vm_global_ref = Ok ()\<rparr>"

lemma unloaded_request: "\<not> jvm_cached b \<Longrightarrow> bridged_request J b failure call p = Err jvm_panic"
  by (simp add: bridged_request_def next_id_def bridge_call_unloaded)

lemma classless_request:
  assumes "jvm_cached b" "\<not> class_cached b"
  shows "\<exists>e. bridged_request J b failure call p = Ok (Err (failure e), register_oneshot (next_request p) (p\<lparr>next_request := next_request p + 1\<rparr>))"
  using bridge_call_without_class [OF assms, of J "call (next_request p)" "register_oneshot (next_request p) (p\<lparr>next_request := next_request p + 1\<rparr>)"]
  by (auto simp: bridged_request_def next_id_def)

text \<open>What loading the library leaves decides every radio request.  Before it the request
  panics; after it, with the class found, the request reaches Kotlin and its outcome is Kotlin's;
  and when the class was not found, the load still reports the version the JVM expects, but every
  request from then on fails with an error of its operation, never reaches Kotlin, and leaves an
  entry in the pending table.\<close>

theorem load_decides_every_request:
  assumes loaded: "jni_on_load V new_bridge = (v, b)"
    and env: "j_attach J = Ok ()" "arrays J (jc_args (call (next_request p))) = Ok ()"
    and registered: "p0 = register_oneshot (next_request p) (p\<lparr>next_request := next_request p + 1\<rparr>)"
  shows "bridged_request J new_bridge failure call p = Err jvm_panic \<and> v = JNI_VERSION_1_6
    \<and> bridged_request J b failure call p =
      (if class_cached b then
         let (r, p') = j_call J (call (next_request p)) p0
         in Ok (case r of Ok _ \<Rightarrow> Ok (next_request p) | Err e \<Rightarrow> Err (failure e), p')
       else Ok (Err (failure ''JavaException''), p0))"
proof -
  have unloaded: "bridged_request J new_bridge failure call p = Err jvm_panic"
    by (rule unloaded_request) (simp add: new_bridge_def)
  have cached: "jvm_cached b" and v: "v = JNI_VERSION_1_6"
    using loaded by (auto simp: jni_on_load_def Let_def)
  show ?thesis
  proof (cases "class_cached b")
    case True
    then have "bridge_ready J b (jc_args (call (next_request p)))"
      using cached env by (simp add: bridge_ready_def)
    from bridged_request_ready [of J b call p, OF this, of failure] show ?thesis
      using unloaded v True by (simp add: registered split: prod.split)
  next
    case False
    then show ?thesis
      using unloaded v cached env
      by (simp add: bridged_request_def next_id_def bridge_call_def with_env_def mesh_bridge_class_def registered)
  qed
qed

theorem load_decides_every_request_witness:
  "bridged_request toy_java (snd (jni_on_load (toy_vm\<lparr>vm_find_class := \<lambda>_. Err ''''\<rparr>) new_bridge)) Link ffi_accept initial_pending
    = Ok (Err (Link ''JavaException''), register_oneshot 1 (initial_pending\<lparr>next_request := 2\<rparr>))"
  using load_decides_every_request [of "toy_vm\<lparr>vm_find_class := \<lambda>_. Err ''''\<rparr>" JNI_VERSION_1_6
    "\<lparr>jvm_cached = True, class_cached = False\<rparr>" toy_java ffi_accept initial_pending _ Link, OF _ _ _ refl]
  by (simp add: jni_on_load_def new_bridge_def toy_vm_def toy_java_def arrays_def ffi_accept_def initial_pending_def)

text \<open>A callback may come before the call that asked for it has returned.  The request is
  already registered by then, so when Kotlin answers an advertisement from inside
  \<open>startAdvertise\<close>, the answer is kept and is what the operation returns: success, or the error
  with Kotlin's message.  A second answer changes nothing.\<close>

theorem answer_inside_the_call_is_kept:
  assumes ready: "bridge_ready J b (jc_args (ffi_start_advertise (next_request p) (to_wire token)))"
    and inside: "\<And>i bs p. j_call J (ffi_start_advertise i bs) p = (Ok (), on_advertise_result i success (Some msg) p)"
  shows "\<exists>p'. bridged_advertise J b token p = Ok (Ok (next_request p), p')
    \<and> android_advertised (answers p' (next_request p)) = (if success then Ok () else Err (RadioUnavailable msg))
    \<and> on_advertise_result (next_request p) (\<not> success) err p' = p'"
  using bridged_request_ready [of J b "\<lambda>i. ffi_start_advertise i (to_wire token)" p, OF ready]
  by (auto simp: bridged_advertise_def inside Let_def on_advertise_result_def resolve_oneshot_def
      register_oneshot_def android_advertised_def)

definition hasty_java :: java where
  "hasty_java = toy_java\<lparr>j_call := \<lambda>c p. (Ok (),
    case jc_args c of JLong i # _ \<Rightarrow> on_advertise_result i False (Some ''off'') p | _ \<Rightarrow> p)\<rparr>"

theorem answer_inside_the_call_is_kept_witness:
  "\<exists>p'. bridged_advertise hasty_java \<lparr>jvm_cached = True, class_cached = True\<rparr> (replicate 16 0) initial_pending = Ok (Ok 1, p')
    \<and> android_advertised (answers p' 1) = Err (RadioUnavailable ''off'')"
  using answer_inside_the_call_is_kept [of hasty_java "\<lparr>jvm_cached = True, class_cached = True\<rparr>"
      initial_pending "replicate 16 0" False "''off''"]
  by (auto simp: hasty_java_def bridge_ready_def toy_java_def arrays_def ffi_start_advertise_def initial_pending_def)

end
