(* ===== verification/Key_Memory.thy ===== *)
theory Key_Memory
  imports Self_Destruct Secure_Memory
begin

text \<open>
  The keys of self-destructing messages as the memory they occupy (\<open>DerivedKey\<close> of
  \<open>protocol/src/self_destruct.rs\<close>, over \<open>secure_memory.rs\<close>): where a key is allocated, filled,
  locked, read, zeroed and unlocked, for any number of messages of one process, and the copies
  of it in states exported for a restart (\<open>PersistedSelfDestructState\<close>), which are never locked.
  It refines \<open>Self_Destruct\<close>, where a message just has its key or not.  Copies the compiler makes
  when a value moves, the output of the key derivation on its stack and the cipher's own key
  schedule are not part of the memory here.  Also what the \<open>Debug\<close> texts show.
\<close>

section \<open>Keys in memory\<close>

text \<open>A \<open>DerivedKey\<close> is the address of its box; its length is that of the array there.\<close>

definition new_derived_key :: "bool \<Rightarrow> nat \<Rightarrow> bytes \<Rightarrow> process_memory \<Rightarrow> nat \<times> process_memory" where
  "new_derived_key mlock_ok ptr bs m =
    (let m = write_buffer ptr bs m
     in (ptr, snd (secure_lock mlock_ok ptr (length bs) m)))"

definition key_at :: "nat \<Rightarrow> process_memory \<Rightarrow> bytes" where
  "key_at ptr m = (case map_of (cells m) ptr of Some bs \<Rightarrow> bs | None \<Rightarrow> [])"

definition zeroize_key :: "nat \<Rightarrow> process_memory \<Rightarrow> process_memory" where
  "zeroize_key ptr m = zero_buffer ptr (key_at ptr m) m"

definition drop_key :: "nat \<Rightarrow> process_memory \<Rightarrow> process_memory" where
  "drop_key ptr m = (let m = zeroize_key ptr m in secure_unlock ptr (length (key_at ptr m)) m)"

section \<open>Messages over keys in memory\<close>

text \<open>The slot of the shared \<open>Mutex\<close> holds a key's address; the rest of the message is as it was.\<close>

record kept_message =
  km_slot :: "nat option"
  km_message :: sdm

definition in_memory :: "process_memory \<Rightarrow> kept_message \<Rightarrow> sdm" where
  "in_memory m k = (km_message k)\<lparr>sd_key := map_option (\<lambda>ptr. key_at ptr m) (km_slot k)\<rparr>"

definition erase_slot :: "kept_message \<Rightarrow> process_memory \<Rightarrow> kept_message \<times> process_memory" where
  "erase_slot k m =
    (k\<lparr>km_slot := None\<rparr>, case km_slot k of Some ptr \<Rightarrow> drop_key ptr (zeroize_key ptr m) | None \<Rightarrow> m)"

definition kept_seal_inner ::
  "sd_crypto \<Rightarrow> bool \<Rightarrow> nat \<Rightarrow> bytes \<Rightarrow> bytes \<Rightarrow> int \<Rightarrow> bytes \<Rightarrow> destruct_mode \<Rightarrow> u64 \<Rightarrow> u64 \<Rightarrow> process_memory
    \<Rightarrow> kept_message parda \<times> process_memory" where
  "kept_seal_inner c mlock_ok ptr seed nonce wall plaintext mode timestamp expiry_window_ms m =
    (let (key, m) = new_derived_key mlock_ok ptr (derive_key c seed mode timestamp expiry_window_ms) m in
     case aead_encrypt c (key_at key m) nonce plaintext of
       Err e \<Rightarrow> (Err (SelfDestructCrypto e), drop_key key m)
     | Ok ct \<Rightarrow> (Ok \<lparr>km_slot = Some key, km_message = \<lparr>sd_ciphertext = nonce @ ct, sd_key = None, sd_mode = mode,
         sd_expires_at_ms = (case mode of
             ReadTriggered \<Rightarrow> None
           | _ \<Rightarrow> Some (saturating_add (unix_millis wall) expiry_window_ms)),
         sd_timer = None\<rparr>\<rparr>, m))"

definition kept_open :: "sd_crypto \<Rightarrow> kept_message \<Rightarrow> process_memory \<Rightarrow> bytes parda \<times> kept_message \<times> process_memory" where
  "kept_open c k m =
    (case km_slot k of
       None \<Rightarrow> (Err SelfDestructExpired, k, m)
     | Some key \<Rightarrow>
         let ct = sd_ciphertext (km_message k) in
         if length ct < NONCE_LEN then
           (Err (SelfDestructCrypto ''stored ciphertext shorter than the nonce prefix''), k, m)
         else case aead_decrypt c (key_at key m) (take NONCE_LEN ct) (drop NONCE_LEN ct) of
             Err e \<Rightarrow> (Err (SelfDestructCrypto e), k, m)
           | Ok plaintext \<Rightarrow>
               (Ok plaintext, if erases_on_read (sd_mode (km_message k)) then erase_slot k m else (k, m)))"

text \<open>
  An exported state keeps its copy of the key in itself; where that lies is an argument.  The
  rest of the state is as it was.
\<close>

record kept_export =
  ke_ptr :: nat
  ke_state :: persisted_state

definition state_in_memory :: "process_memory \<Rightarrow> kept_export \<Rightarrow> persisted_state" where
  "state_in_memory m e = (ke_state e)\<lparr>ps_key_bytes := key_at (ke_ptr e) m\<rparr>"

definition kept_export_for_persistence ::
  "nat \<Rightarrow> kept_message \<Rightarrow> process_memory \<Rightarrow> kept_export parda \<times> process_memory" where
  "kept_export_for_persistence ptr k m =
    (case km_slot k of
       None \<Rightarrow> (Err SelfDestructExpired, m)
     | Some key \<Rightarrow>
         (Ok \<lparr>ke_ptr = ptr, ke_state = \<lparr>ps_ciphertext = sd_ciphertext (km_message k), ps_key_bytes = [],
            ps_mode = sd_mode (km_message k), ps_expires_at_ms = sd_expires_at_ms (km_message k)\<rparr>\<rparr>,
          write_buffer ptr (key_at key m) m))"

definition kept_from_parts ::
  "nat \<Rightarrow> bytes \<Rightarrow> bytes \<Rightarrow> destruct_mode \<Rightarrow> u64 option \<Rightarrow> process_memory \<Rightarrow> kept_export \<times> process_memory" where
  "kept_from_parts ptr ct key_bytes mode expires_at_ms m =
    (\<lparr>ke_ptr = ptr, ke_state = \<lparr>ps_ciphertext = ct, ps_key_bytes = [], ps_mode = mode,
       ps_expires_at_ms = expires_at_ms\<rparr>\<rparr>, write_buffer ptr key_bytes m)"

definition drop_export :: "kept_export \<Rightarrow> process_memory \<Rightarrow> process_memory" where
  "drop_export e m = zeroize_key (ke_ptr e) m"

definition kept_restore ::
  "bool \<Rightarrow> nat \<Rightarrow> ('s \<Rightarrow> u64 option) \<Rightarrow> (u64 \<Rightarrow> 's \<Rightarrow> 's) \<Rightarrow> kept_export \<Rightarrow> 's \<Rightarrow> nat \<Rightarrow> u64 \<Rightarrow> process_memory
    \<Rightarrow> (kept_message parda \<times> 's) \<times> process_memory" where
  "kept_restore mlock_ok ptr load store e s mono_now now_ms m =
    (let state = ke_state e in
     case check_clock_integrity load store s now_ms of
       (RollbackDetected wm obs, s') \<Rightarrow> ((Err (ClockRollbackDetected obs wm), s'), m)
     | (ClockOk, s') \<Rightarrow>
         if (case ps_expires_at_ms state of Some deadline \<Rightarrow> now_ms \<ge> deadline | None \<Rightarrow> False)
         then ((Err SelfDestructExpired, s'), m)
         else
           let (key, m) = new_derived_key mlock_ok ptr (key_at (ke_ptr e) m) m;
               message = \<lparr>sd_ciphertext = ps_ciphertext state, sd_key = None, sd_mode = ps_mode state,
                 sd_expires_at_ms = ps_expires_at_ms state, sd_timer = None\<rparr>;
               message = (case ps_expires_at_ms state of None \<Rightarrow> message
                 | Some deadline \<Rightarrow> spawn_expiry_timer mono_now (from_millis (deadline - now_ms)) message)
           in ((Ok \<lparr>km_slot = Some key, km_message = message\<rparr>, s'), m))"

section \<open>Debug texts\<close>

definition debug_mode :: "destruct_mode \<Rightarrow> string" where
  "debug_mode mode = (case mode of TimeBound \<Rightarrow> ''TimeBound'' | ReadTriggered \<Rightarrow> ''ReadTriggered'' | Combined \<Rightarrow> ''Combined'')"

definition debug_deadline :: "u64 option \<Rightarrow> string" where
  "debug_deadline d = (case d of None \<Rightarrow> ''None'' | Some t \<Rightarrow> ''Some('' @ dec (unat t) @ '')'')"

definition debug_sdm :: "sdm \<Rightarrow> string" where
  "debug_sdm m = ''SelfDestructingMessage { mode: '' @ debug_mode (sd_mode m)
    @ '', expired: '' @ (if is_expired m then ''true'' else ''false'')
    @ '', expires_at_ms: '' @ debug_deadline (sd_expires_at_ms m)
    @ '', ciphertext: <'' @ dec (length (sd_ciphertext m)) @ '' bytes> }''"

definition debug_persisted :: "persisted_state \<Rightarrow> string" where
  "debug_persisted p = ''PersistedSelfDestructState { mode: '' @ debug_mode (ps_mode p)
    @ '', expires_at_ms: '' @ debug_deadline (ps_expires_at_ms p)
    @ '', ciphertext: <'' @ dec (length (ps_ciphertext p)) @ '' bytes>, key_bytes: <32 bytes redacted> }''"

section \<open>Memory lemmas\<close>

lemma new_derived_key_eq: "new_derived_key ok ptr bs m = (ptr, take_buffer ok ptr bs m)"
  by (simp add: new_derived_key_def take_buffer_def Let_def)

lemma key_at_take [simp]: "key_at q (take_buffer ok ptr bs m) = (if q = ptr then bs else key_at q m)"
  by (simp add: key_at_def map_of_update)

lemma key_at_write [simp]: "key_at q (write_buffer ptr bs m) = (if q = ptr then bs else key_at q m)"
  by (simp add: key_at_def map_of_update)

lemma key_at_give_back: "q \<noteq> ptr \<Longrightarrow> key_at q (give_back ptr bs m) = key_at q m"
  by (simp add: key_at_def map_of_update)

lemma key_at_zero: "q \<noteq> ptr \<Longrightarrow> key_at q (zero_buffer ptr bs m) = key_at q m"
  by (simp add: key_at_def map_of_update)

lemma drop_key_eq: "drop_key ptr m = give_back ptr (key_at ptr m) m"
  by (simp add: drop_key_def give_back_def zeroize_key_def) (simp add: key_at_def map_of_update)

lemma update_same: "AList.update k v (AList.update k w xs) = AList.update k v xs"
  by (induction xs) auto

lemma drop_zeroized: "drop_key ptr (zeroize_key ptr m) = drop_key ptr m"
proof -
  have "zero_buffer ptr (replicate (length bs) 0) (zero_buffer ptr bs m) = zero_buffer ptr bs m" for bs
    by (simp add: zero_buffer_def write_buffer_def update_same)
  then show ?thesis
    by (simp add: drop_key_eq give_back_def zeroize_key_def)
      (simp add: key_at_def zero_buffer_def write_buffer_def map_of_update update_same)
qed

section \<open>A process with its messages\<close>

text \<open>Messages by the identity of their shared slot, and the exported states that are held.\<close>

record key_process =
  kp_messages :: "nat \<rightharpoonup> kept_message"
  kp_exports :: "nat \<rightharpoonup> kept_export"
  kp_memory :: process_memory

definition empty_process :: key_process where
  "empty_process = \<lparr>kp_messages = (\<lambda>_. None), kp_exports = (\<lambda>_. None), kp_memory = fresh_memory\<rparr>"

text \<open>Where the keys lie: those of messages to the left, those of exported states to the right.\<close>

definition slots :: "key_process \<Rightarrow> nat + nat \<rightharpoonup> nat" where
  "slots s = case_sum (\<lambda>i. Option.bind (kp_messages s i) km_slot) (\<lambda>x. map_option ke_ptr (kp_exports s x))"

definition owners :: "key_process \<Rightarrow> nat + nat \<rightharpoonup> nat \<times> bytes" where
  "owners s i = map_option (\<lambda>ptr. (ptr, key_at ptr (kp_memory s))) (slots s i)"

definition live_keys :: "key_process \<Rightarrow> nat \<rightharpoonup> nat \<times> bytes" where
  "live_keys s i = owners s (Inl i)"

definition unused :: "nat \<Rightarrow> key_process \<Rightarrow> bool" where
  "unused ptr s \<longleftrightarrow> ptr \<notin> ran (slots s)"

text \<open>
  The steps of any number of threads, each holding the lock of one slot: a message is sealed, or
  its sealing fails; it is opened; it is erased, by its owner, its timer or the clock guard; its
  state is exported, or made of what a store read back; it is restored; its last reference
  goes, or that of a state.  \<open>placed\<close> says what is known of where and whether a new key is locked.
\<close>

inductive key_step ::
  "sd_crypto \<Rightarrow> ('s \<Rightarrow> u64 option) \<Rightarrow> (u64 \<Rightarrow> 's \<Rightarrow> 's) \<Rightarrow> (bool \<Rightarrow> nat \<Rightarrow> nat \<Rightarrow> key_process \<Rightarrow> bool)
    \<Rightarrow> key_process \<Rightarrow> key_process \<Rightarrow> bool" for c load store placed where
  key_seal: "kp_messages s i = None \<Longrightarrow> unused ptr s \<Longrightarrow> placed ok ptr (length (derive_key c seed mode ts w)) s \<Longrightarrow>
    kept_seal_inner c ok ptr seed nonce wall pt mode ts w (kp_memory s) = (Ok k, m) \<Longrightarrow>
    key_step c load store placed s (s\<lparr>kp_messages := (kp_messages s)(i \<mapsto> k), kp_memory := m\<rparr>)"
| key_seal_failed: "kp_messages s i = None \<Longrightarrow> unused ptr s \<Longrightarrow> placed ok ptr (length (derive_key c seed mode ts w)) s \<Longrightarrow>
    kept_seal_inner c ok ptr seed nonce wall pt mode ts w (kp_memory s) = (Err e, m) \<Longrightarrow>
    key_step c load store placed s (s\<lparr>kp_memory := m\<rparr>)"
| key_open: "kp_messages s i = Some k \<Longrightarrow> kept_open c k (kp_memory s) = (r, k', m) \<Longrightarrow>
    key_step c load store placed s (s\<lparr>kp_messages := (kp_messages s)(i \<mapsto> k'), kp_memory := m\<rparr>)"
| key_erase: "kp_messages s i = Some k \<Longrightarrow> erase_slot k (kp_memory s) = (k', m) \<Longrightarrow>
    key_step c load store placed s (s\<lparr>kp_messages := (kp_messages s)(i \<mapsto> k'), kp_memory := m\<rparr>)"
| key_export: "kp_messages s i = Some k \<Longrightarrow> kp_exports s x = None \<Longrightarrow> unused ptr s \<Longrightarrow>
    kept_export_for_persistence ptr k (kp_memory s) = (Ok e, m) \<Longrightarrow>
    key_step c load store placed s (s\<lparr>kp_exports := (kp_exports s)(x \<mapsto> e), kp_memory := m\<rparr>)"
| key_parts: "kp_exports s x = None \<Longrightarrow> unused ptr s \<Longrightarrow>
    kept_from_parts ptr ct key mode expires (kp_memory s) = (e, m) \<Longrightarrow>
    key_step c load store placed s (s\<lparr>kp_exports := (kp_exports s)(x \<mapsto> e), kp_memory := m\<rparr>)"
| key_restore: "kp_messages s i = None \<Longrightarrow> kp_exports s x = Some e \<Longrightarrow> unused ptr s \<Longrightarrow>
    placed ok ptr (length (key_at (ke_ptr e) (kp_memory s))) s \<Longrightarrow>
    kept_restore ok ptr load store e st mono_now now_ms (kp_memory s) = ((Ok k, st'), m) \<Longrightarrow>
    key_step c load store placed s (s\<lparr>kp_messages := (kp_messages s)(i \<mapsto> k), kp_memory := m\<rparr>)"
| key_forget: "kp_messages s i = Some k \<Longrightarrow>
    key_step c load store placed s (s\<lparr>kp_messages := (kp_messages s)(i := None),
      kp_memory := (case km_slot k of Some ptr \<Rightarrow> drop_key ptr (kp_memory s) | None \<Rightarrow> kp_memory s)\<rparr>)"
| key_forget_export: "kp_exports s x = Some e \<Longrightarrow>
    key_step c load store placed s (s\<lparr>kp_exports := (kp_exports s)(x := None),
      kp_memory := drop_export e (kp_memory s)\<rparr>)"

inductive key_reachable ::
  "sd_crypto \<Rightarrow> ('s \<Rightarrow> u64 option) \<Rightarrow> (u64 \<Rightarrow> 's \<Rightarrow> 's) \<Rightarrow> (bool \<Rightarrow> nat \<Rightarrow> nat \<Rightarrow> key_process \<Rightarrow> bool)
    \<Rightarrow> key_process \<Rightarrow> bool" for c load store placed where
  key_none: "key_reachable c load store placed empty_process"
| key_more: "key_reachable c load store placed s \<Longrightarrow> key_step c load store placed s s' \<Longrightarrow> key_reachable c load store placed s'"

text \<open>
  Every step takes one buffer, gives one back or just zeroes it, does both, or leaves memory as
  it is.
\<close>

datatype key_effect =
    Nothing
  | Takes "nat + nat" bool nat bytes
  | Gives "nat + nat" nat bytes
  | Passes nat bool nat bytes

fun after_effect :: "key_effect \<Rightarrow> key_process \<Rightarrow> process_memory" where
  "after_effect Nothing s = kp_memory s"
| "after_effect (Takes i ok ptr bs) s = take_buffer ok ptr bs (kp_memory s)"
| "after_effect (Gives i ptr bs) s =
    (if isl i then give_back ptr bs (kp_memory s) else zero_buffer ptr bs (kp_memory s))"
| "after_effect (Passes i ok ptr bs) s = give_back ptr bs (take_buffer ok ptr bs (kp_memory s))"

fun key_owners :: "key_effect \<Rightarrow> (nat + nat \<rightharpoonup> nat \<times> bytes) \<Rightarrow> nat + nat \<rightharpoonup> nat \<times> bytes" where
  "key_owners (Takes i ok ptr bs) K = K(i \<mapsto> (ptr, bs))"
| "key_owners (Gives i ptr bs) K = K(i := None)"
| "key_owners _ K = K"

fun key_allowed :: "(bool \<Rightarrow> nat \<Rightarrow> nat \<Rightarrow> key_process \<Rightarrow> bool) \<Rightarrow> key_effect \<Rightarrow> key_process \<Rightarrow> bool" where
  "key_allowed placed Nothing s = True"
| "key_allowed placed (Takes i ok ptr bs) s \<longleftrightarrow> slots s i = None \<and> unused ptr s
    \<and> (if isl i then placed ok ptr (length bs) s else \<not> ok)"
| "key_allowed placed (Gives i ptr bs) s \<longleftrightarrow> owners s i = Some (ptr, bs)"
| "key_allowed placed (Passes i ok ptr bs) s \<longleftrightarrow> slots s (Inl i) = None \<and> unused ptr s \<and> placed ok ptr (length bs) s"

lemma slots_simps [simp]:
  "slots s (Inl i) = Option.bind (kp_messages s i) km_slot" "slots s (Inr x) = map_option ke_ptr (kp_exports s x)"
  by (simp_all add: slots_def)

lemma slots_upd:
  "slots (s\<lparr>kp_messages := (kp_messages s)(i := x)\<rparr>) = (slots s)(Inl i := Option.bind x km_slot)"
  "slots (s\<lparr>kp_exports := (kp_exports s)(j := y)\<rparr>) = (slots s)(Inr j := map_option ke_ptr y)"
  "slots (s\<lparr>kp_memory := m\<rparr>) = slots s"
  by (auto simp: slots_def fun_eq_iff split: sum.split)

lemma owners_iff: "owners s i = Some (ptr, bs) \<longleftrightarrow> slots s i = Some ptr \<and> bs = key_at ptr (kp_memory s)"
  by (auto simp: owners_def)

lemma live_keys_iff: "live_keys s i = Some (ptr, bs) \<longleftrightarrow>
    (\<exists>k. kp_messages s i = Some k \<and> km_slot k = Some ptr \<and> bs = key_at ptr (kp_memory s))"
  by (auto simp: live_keys_def owners_iff bind_eq_Some_conv)

lemma unusedD: "unused ptr s \<Longrightarrow> slots s i \<noteq> Some ptr"
  by (auto simp: unused_def ran_def)

lemma unused_other: "unused ptr s \<Longrightarrow> slots s i = Some q \<Longrightarrow> q \<noteq> ptr"
  using unusedD by fastforce

lemma erase_slot_eq: "erase_slot k m = (k\<lparr>km_slot := None\<rparr>,
    case km_slot k of Some ptr \<Rightarrow> give_back ptr (key_at ptr m) m | None \<Rightarrow> m)"
  by (simp add: erase_slot_def drop_zeroized split: option.split) (simp add: drop_key_eq)

lemma kept_seal_inner_eq:
  "kept_seal_inner c ok ptr seed nonce wall pt mode ts w m = (r, m') \<longleftrightarrow>
    (let key = derive_key c seed mode ts w in
     r = map_ok (\<lambda>d. \<lparr>km_slot = Some ptr, km_message = d\<lparr>sd_key := None\<rparr>\<rparr>) (seal_inner c seed nonce wall pt mode ts w)
     \<and> m' = (if is_ok r then take_buffer ok ptr key m else give_back ptr key (take_buffer ok ptr key m)))"
  by (cases mode; cases "aead_encrypt c (derive_key c seed mode ts w) nonce pt")
    (auto simp: kept_seal_inner_def seal_inner_def new_derived_key_eq drop_key_eq Let_def)

lemma kept_open_cases:
  assumes "kept_open c k m = (r, k', m')"
  obtains "k' = k" "m' = m" | "(k', m') = erase_slot k m" "km_slot k \<noteq> None"
  using assms by (auto simp: kept_open_def Let_def split: option.splits if_splits result.splits)

lemma kept_restore_Ok:
  assumes "kept_restore ok ptr load store e st mono_now now_ms m = ((Ok k, st'), m')"
  shows "km_slot k = Some ptr \<and> m' = take_buffer ok ptr (key_at (ke_ptr e) m) m"
  using assms
  by (auto simp: kept_restore_def new_derived_key_eq Let_def split: prod.splits clock_check.splits if_splits option.splits)

lemma kept_export_Ok:
  assumes "kept_export_for_persistence ptr k m = (Ok e, m')"
  obtains key where "km_slot k = Some key" "ke_ptr e = ptr" "m' = take_buffer False ptr (key_at key m) m"
  using assms by (auto simp: kept_export_for_persistence_def take_unlocked split: option.splits)

lemma owners_take:
  assumes "unused ptr s" "slots s' = (slots s)(i \<mapsto> ptr)" "kp_memory s' = take_buffer ok ptr bs (kp_memory s)"
  shows "owners s' = (owners s)(i \<mapsto> (ptr, bs))"
  using unusedD [OF assms(1)]
  by (auto simp: fun_eq_iff owners_def assms(2,3) simp del: take_buffer_sel intro!: option.map_cong0 dest: sym)

lemma owners_give:
  assumes inv: "secrets_inv isl (owners s) (kp_memory s)" and i: "owners s i = Some (ptr, bs)"
    and s': "slots s' = (slots s)(i := None)" "\<And>q. q \<noteq> ptr \<Longrightarrow> key_at q (kp_memory s') = key_at q (kp_memory s)"
  shows "owners s' = (owners s)(i := None)"
proof (rule ext)
  fix j
  have "q \<noteq> ptr" if "slots s j = Some q" "j \<noteq> i" for q
    using secrets_invD(2) [OF inv i, of j "key_at q (kp_memory s)"] that by (auto simp: owners_iff)
  then show "owners s' j = ((owners s)(i := None)) j"
    using s'(2) by (auto simp: owners_def s'(1) intro!: option.map_cong0)
qed

lemma owners_pass:
  assumes "unused ptr s"
  shows "owners (s\<lparr>kp_memory := give_back ptr bs (take_buffer ok ptr bs (kp_memory s))\<rparr>) = owners s"
  using unused_other [OF assms]
  by (auto simp: fun_eq_iff owners_def slots_upd key_at_give_back simp del: give_back_sel take_buffer_sel
      intro!: option.map_cong)

text \<open>What each kind of step is.\<close>

lemma taken_effect:
  assumes "unused ptr s" "slots s i = None" "slots s' = (slots s)(i \<mapsto> ptr)"
    and "kp_memory s' = take_buffer ok ptr bs (kp_memory s)" "if isl i then placed ok ptr (length bs) s else \<not> ok"
  shows "\<exists>e. key_allowed placed e s \<and> kp_memory s' = after_effect e s \<and> owners s' = key_owners e (owners s)"
  using owners_take [OF assms(1,3,4)] assms by (intro exI [of _ "Takes i ok ptr bs"]) auto

lemma erased_effect:
  assumes inv: "secrets_inv isl (owners s) (kp_memory s)" and k: "kp_messages s i = Some k"
    and x: "x = None \<or> x = Some (k\<lparr>km_slot := None\<rparr>)"
    and m: "m = (case km_slot k of Some ptr \<Rightarrow> give_back ptr (key_at ptr (kp_memory s)) (kp_memory s) | None \<Rightarrow> kp_memory s)"
  shows "\<exists>e. key_allowed placed e s \<and> m = after_effect e s
    \<and> owners (s\<lparr>kp_messages := (kp_messages s)(i := x), kp_memory := m\<rparr>) = key_owners e (owners s)"
proof (cases "km_slot k")
  case None
  have "(slots s)(Inl i := Option.bind x km_slot) = slots s"
    using k x None by (auto simp: fun_eq_iff)
  then have "owners (s\<lparr>kp_messages := (kp_messages s)(i := x), kp_memory := kp_memory s\<rparr>) = owners s"
    by (intro ext) (simp add: owners_def slots_upd)
  then show ?thesis
    using None m by (intro exI [of _ Nothing]) simp
next
  case (Some ptr)
  let ?s = "s\<lparr>kp_messages := (kp_messages s)(i := x), kp_memory := m\<rparr>"
  have i: "owners s (Inl i) = Some (ptr, key_at ptr (kp_memory s))"
    using k Some by (simp add: owners_def)
  have "owners ?s = (owners s)(Inl i := None)"
    using x Some m by (intro owners_give [OF inv i]) (auto simp: slots_upd key_at_give_back simp del: give_back_sel)
  then show ?thesis
    using i Some m by (intro exI [of _ "Gives (Inl i) ptr (key_at ptr (kp_memory s))"]) auto
qed

lemma forgotten_effect:
  assumes inv: "secrets_inv isl (owners s) (kp_memory s)" and x: "kp_exports s x = Some e"
  shows "\<exists>f. key_allowed placed f s \<and> drop_export e (kp_memory s) = after_effect f s
    \<and> owners (s\<lparr>kp_exports := (kp_exports s)(x := None), kp_memory := drop_export e (kp_memory s)\<rparr>) = key_owners f (owners s)"
proof -
  let ?s = "s\<lparr>kp_exports := (kp_exports s)(x := None), kp_memory := drop_export e (kp_memory s)\<rparr>"
  have i: "owners s (Inr x) = Some (ke_ptr e, key_at (ke_ptr e) (kp_memory s))"
    using x by (simp add: owners_def)
  have "owners ?s = (owners s)(Inr x := None)"
    by (intro owners_give [OF inv i]) (simp_all add: slots_upd drop_export_def zeroize_key_def key_at_zero)
  then show ?thesis
    using i by (intro exI [of _ "Gives (Inr x) (ke_ptr e) (key_at (ke_ptr e) (kp_memory s))"])
      (simp add: drop_export_def zeroize_key_def)
qed

lemma key_step_effect:
  assumes "key_step c load store placed s s'" "secrets_inv isl (owners s) (kp_memory s)"
  shows "\<exists>e. key_allowed placed e s \<and> kp_memory s' = after_effect e s \<and> owners s' = key_owners e (owners s)"
  using assms
proof (induction rule: key_step.induct)
  case (key_seal s i ptr ok seed mode ts w nonce wall pt k m)
  then have m: "m = take_buffer ok ptr (derive_key c seed mode ts w) (kp_memory s)" "km_slot k = Some ptr"
    by (auto simp: kept_seal_inner_eq Let_def map_ok_Ok_iff dest!: sym [of "Ok _"])
  then show ?case
    using key_seal.hyps by (intro taken_effect [of ptr _ "Inl i"]) (simp_all add: slots_upd)
next
  case (key_seal_failed s i ptr ok seed mode ts w nonce wall pt e m)
  then have m: "m = give_back ptr (derive_key c seed mode ts w) (take_buffer ok ptr (derive_key c seed mode ts w) (kp_memory s))"
    by (auto simp: kept_seal_inner_eq Let_def)
  show ?case
    by (rule exI [of _ "Passes i ok ptr (derive_key c seed mode ts w)"])
      (use key_seal_failed.hyps m owners_pass [OF key_seal_failed.hyps(2)] in simp_all)
next
  case (key_open s i k r k' m)
  from key_open.hyps(2) show ?case
  proof (cases rule: kept_open_cases)
    case 1
    then have "(kp_messages s)(i \<mapsto> k') = kp_messages s"
      using key_open.hyps(1) by auto
    then show ?thesis
      using 1 by (intro exI [of _ Nothing]) simp
  next
    case 2
    then have "k' = k\<lparr>km_slot := None\<rparr>"
      "m = (case km_slot k of Some ptr \<Rightarrow> give_back ptr (key_at ptr (kp_memory s)) (kp_memory s) | None \<Rightarrow> kp_memory s)"
      by (simp_all add: erase_slot_eq)
    then show ?thesis
      using erased_effect [OF key_open.prems key_open.hyps(1), of "Some k'" m placed] by simp
  qed
next
  case (key_erase s i k k' m)
  then have "k' = k\<lparr>km_slot := None\<rparr>"
    "m = (case km_slot k of Some ptr \<Rightarrow> give_back ptr (key_at ptr (kp_memory s)) (kp_memory s) | None \<Rightarrow> kp_memory s)"
    by (simp_all add: erase_slot_eq)
  then show ?case
    using erased_effect [OF key_erase.prems key_erase.hyps(1), of "Some k'" m placed] by simp
next
  case (key_export s i k x ptr e m)
  obtain key where "ke_ptr e = ptr" "m = take_buffer False ptr (key_at key (kp_memory s)) (kp_memory s)"
    using kept_export_Ok [OF key_export.hyps(4)] .
  then show ?case
    using key_export.hyps by (intro taken_effect [of ptr _ "Inr x" _ False]) (simp_all add: slots_upd)
next
  case (key_parts s x ptr ct key mode expires e m)
  then have "ke_ptr e = ptr" "m = take_buffer False ptr key (kp_memory s)"
    by (auto simp: kept_from_parts_def take_unlocked)
  then show ?case
    using key_parts.hyps by (intro taken_effect [of ptr _ "Inr x" _ False]) (simp_all add: slots_upd)
next
  case (key_restore s i x e ptr ok st mono_now now_ms k st' m)
  then show ?case
    using kept_restore_Ok [OF key_restore.hyps(5)]
    by (intro taken_effect [of ptr _ "Inl i"]) (simp_all add: slots_upd)
next
  case (key_forget s i k)
  have m: "(case km_slot k of Some ptr \<Rightarrow> drop_key ptr (kp_memory s) | None \<Rightarrow> kp_memory s)
      = (case km_slot k of Some ptr \<Rightarrow> give_back ptr (key_at ptr (kp_memory s)) (kp_memory s) | None \<Rightarrow> kp_memory s)"
    by (simp add: drop_key_eq split: option.split)
  show ?case
    using erased_effect [OF key_forget.prems key_forget.hyps(1), of None _ placed]
    unfolding m by simp
next
  case (key_forget_export s x e)
  then show ?case
    using forgotten_effect [of s x e placed] by simp
qed

lemma secrets_inv_effect:
  assumes inv: "secrets_inv isl (owners s) (kp_memory s)" and e: "key_allowed placed e s"
  shows "secrets_inv isl (key_owners e (owners s)) (after_effect e s)"
proof -
  have free: "q \<noteq> ptr" if "unused ptr s" "owners s j = Some (q, cs)" for ptr j q cs
    using that unusedD by (auto simp: owners_iff)
  show ?thesis
  proof (cases e)
    case (Takes i ok ptr bs)
    then have "owners s i = None" "unused ptr s" "ok \<longrightarrow> isl i"
      using e by (auto simp: owners_def split: if_splits)
    then show ?thesis
      using Takes free by (auto intro!: secrets_inv_take [OF inv])
  next
    case (Gives i ptr bs)
    then show ?thesis
      using e secrets_inv_give_back [OF inv] secrets_inv_zero [OF inv] by simp
  next
    case (Passes i ok ptr bs)
    then have none: "owners s (Inl i) = None" "unused ptr s"
      using e by (simp_all add: owners_def)
    then have "secrets_inv isl ((owners s)(Inl i \<mapsto> (ptr, bs))) (take_buffer ok ptr bs (kp_memory s))"
      using free by (intro secrets_inv_take [OF inv]) auto
    from secrets_inv_give_back [OF this, of "Inl i" ptr bs] show ?thesis
      using Passes none by (simp add: fun_upd_idem)
  qed (use inv in simp)
qed

lemma key_reachable_inv: "key_reachable c load store placed s \<Longrightarrow> secrets_inv isl (owners s) (kp_memory s)"
proof (induction rule: key_reachable.induct)
  case key_none
  have "owners empty_process = (\<lambda>_. None)"
    by (rule ext) (simp add: owners_def slots_def empty_process_def split: sum.split)
  then show ?case by (simp add: secrets_inv_fresh empty_process_def)
next
  case (key_more s s')
  then show ?case
    using key_step_effect [OF key_more.hyps(2) key_more.IH] secrets_inv_effect [OF key_more.IH] by auto
qed

interpretation keys: secret_owner isl owners kp_memory "key_reachable c load store placed" for c load store placed
  by unfold_locales (rule key_reachable_inv)

section \<open>Refinement of messages\<close>

text \<open>
  What one operation on a slot leaves for every other message of the process and for the
  exported states.
\<close>

definition others_same :: "key_process \<Rightarrow> nat \<Rightarrow> process_memory \<Rightarrow> bool" where
  "others_same s i m \<longleftrightarrow>
    (\<forall>j k. j \<noteq> i \<longrightarrow> kp_messages s j = Some k \<longrightarrow> in_memory m k = in_memory (kp_memory s) k)
    \<and> (\<forall>x e. kp_exports s x = Some e \<longrightarrow> state_in_memory m e = state_in_memory (kp_memory s) e)"

lemma in_memory_cong: "(\<And>ptr. km_slot k = Some ptr \<Longrightarrow> key_at ptr m = key_at ptr m') \<Longrightarrow> in_memory m k = in_memory m' k"
  by (cases "km_slot k") (simp_all add: in_memory_def)

lemma others_sameI:
  assumes "\<And>j q. j \<noteq> Inl i \<Longrightarrow> slots s j = Some q \<Longrightarrow> key_at q m = key_at q (kp_memory s)"
  shows "others_same s i m"
  unfolding others_same_def
proof (intro conjI allI impI)
  show "in_memory m k = in_memory (kp_memory s) k" if "j \<noteq> i" "kp_messages s j = Some k" for j k
    using that assms [of "Inl j"] by (intro in_memory_cong) simp
  show "state_in_memory m e = state_in_memory (kp_memory s) e" if "kp_exports s x = Some e" for x e
    using that assms [of "Inr x"] by (simp add: state_in_memory_def)
qed

lemma others_same_give:
  assumes inv: "secrets_inv isl (owners s) (kp_memory s)" and k: "kp_messages s i = Some k" "km_slot k = Some ptr"
  shows "others_same s i (give_back ptr bs (kp_memory s))"
proof (rule others_sameI)
  fix j q assume "j \<noteq> Inl i" "slots s j = Some q"
  then have "q \<noteq> ptr"
    using secrets_invD(2) [OF inv, of "Inl i" ptr _ j] k by (auto simp: owners_iff)
  then show "key_at q (give_back ptr bs (kp_memory s)) = key_at q (kp_memory s)"
    by (rule key_at_give_back)
qed

lemma others_same_unused:
  assumes "unused ptr s"
  shows "others_same s i (take_buffer ok ptr bs (kp_memory s))"
    "others_same s i (give_back ptr cs (take_buffer ok ptr bs (kp_memory s)))"
    "others_same s i (write_buffer ptr bs (kp_memory s))"
  using unused_other [OF assms]
  by (auto intro!: others_sameI simp: key_at_give_back simp del: take_buffer_sel give_back_sel)

lemma in_memory_erased:
  "fst (erase_slot k m) = k' \<Longrightarrow> in_memory m' k' = erase (in_memory m k)"
  by (auto simp: erase_slot_eq in_memory_def erase_def Let_def)

lemma erase_refines:
  assumes inv: "secrets_inv isl (owners s) (kp_memory s)" and k: "kp_messages s i = Some k"
    and run: "erase_slot k (kp_memory s) = (k', m)"
  shows "in_memory m k' = erase (in_memory (kp_memory s) k) \<and> others_same s i m"
proof -
  have "others_same s i m"
  proof (cases "km_slot k")
    case None
    then show ?thesis using run by (auto simp: erase_slot_eq others_same_def)
  next
    case (Some ptr)
    then show ?thesis using run others_same_give [OF inv k Some] by (auto simp: erase_slot_eq)
  qed
  then show ?thesis
    using in_memory_erased [of k "kp_memory s" k' m] run by simp
qed

lemma open_refines:
  assumes inv: "secrets_inv isl (owners s) (kp_memory s)" and k: "kp_messages s i = Some k"
    and run: "kept_open c k (kp_memory s) = (r, k', m)"
  shows "open_msg c (in_memory (kp_memory s) k) = (r, in_memory m k') \<and> others_same s i m"
proof -
  have "others_same s i m"
    using run
  proof (cases rule: kept_open_cases)
    case 1
    then show ?thesis by (simp add: others_same_def)
  next
    case 2
    then show ?thesis using erase_refines [OF inv k 2(1) [symmetric]] by simp
  qed
  moreover have "in_memory m k' = snd (open_msg c (in_memory (kp_memory s) k)) \<and> r = fst (open_msg c (in_memory (kp_memory s) k))"
    using run
    by (auto simp: kept_open_def open_msg_def in_memory_def erase_slot_eq erase_def Let_def
        split: option.splits if_splits result.splits)
  ultimately show ?thesis by simp
qed

text \<open>Restoring and sealing fill a fresh buffer, so that what they leave is what the message has.\<close>

lemma seal_refines:
  assumes "unused ptr s" "kept_seal_inner c ok ptr seed nonce wall pt mode ts w (kp_memory s) = (r, m)"
  shows "map_ok (in_memory m) r = seal_inner c seed nonce wall pt mode ts w \<and> others_same s i m"
proof (cases "seal_inner c seed nonce wall pt mode ts w")
  case (Ok d)
  then have "sd_key d = Some (derive_key c seed mode ts w)"
    by (rule seal_inner_Ok)
  then have "d\<lparr>sd_key := Some (derive_key c seed mode ts w)\<rparr> = d"
    by simp
  with Ok show ?thesis
    using assms others_same_unused(1) [OF assms(1)]
    by (auto simp: kept_seal_inner_eq Let_def in_memory_def simp del: take_buffer_sel)
next
  case (Err e)
  then show ?thesis
    using assms others_same_unused(2) [OF assms(1)] by (auto simp: kept_seal_inner_eq Let_def)
qed

lemma restore_refines:
  assumes "unused ptr s" "kept_restore ok ptr load store e st mono_now now_ms (kp_memory s) = ((r, st'), m)"
  shows "restore load store (state_in_memory (kp_memory s) e) st mono_now now_ms = (map_ok (in_memory m) r, st')
    \<and> others_same s i m"
proof -
  have "m = kp_memory s \<or> m = take_buffer ok ptr (key_at (ke_ptr e) (kp_memory s)) (kp_memory s)"
    using assms(2) by (auto simp: kept_restore_def new_derived_key_eq Let_def split: prod.splits clock_check.splits if_splits)
  then have "others_same s i m"
    using others_same_unused(1) [OF assms(1)] by (auto simp: others_same_def)
  moreover have "restore load store (state_in_memory (kp_memory s) e) st mono_now now_ms = (map_ok (in_memory m) r, st')"
    using assms(2)
    by (auto simp: kept_restore_def restore_def new_derived_key_eq in_memory_def state_in_memory_def
        spawn_expiry_timer_def Let_def
        simp del: take_buffer_sel split: prod.splits clock_check.splits if_splits option.splits)
  ultimately show ?thesis by simp
qed

lemma export_refines:
  assumes "unused ptr s" "kept_export_for_persistence ptr k (kp_memory s) = (r, m)"
  shows "export_for_persistence (in_memory (kp_memory s) k) = map_ok (state_in_memory m) r \<and> others_same s j m"
proof (cases "km_slot k")
  case None
  then show ?thesis
    using assms by (auto simp: kept_export_for_persistence_def export_for_persistence_def in_memory_def others_same_def)
next
  case (Some key)
  then show ?thesis
    using assms others_same_unused(3) [OF assms(1)]
    by (auto simp: kept_export_for_persistence_def export_for_persistence_def in_memory_def state_in_memory_def
        simp del: write_buffer_sel)
qed

section \<open>Locked while alive\<close>

text \<open>A placement where every lock succeeds and no key shares a page with a live one.\<close>

definition all_locked :: "('i \<rightharpoonup> nat \<times> bytes) \<Rightarrow> nat set \<Rightarrow> bool" where
  "all_locked K L \<longleftrightarrow> (\<forall>i p bs. K i = Some (p, bs) \<longrightarrow> pages p (length bs) \<subseteq> L)
    \<and> (\<forall>i j p bs q cs. K i = Some (p, bs) \<longrightarrow> K j = Some (q, cs) \<longrightarrow> i \<noteq> j \<longrightarrow>
        pages p (length bs) \<inter> pages q (length cs) = {})"

definition apart :: "('i \<rightharpoonup> nat \<times> bytes) \<Rightarrow> nat set \<Rightarrow> bool" where
  "apart K P \<longleftrightarrow> (\<forall>i p bs. K i = Some (p, bs) \<longrightarrow> pages p (length bs) \<inter> P = {})"

lemma all_locked_take:
  assumes "all_locked K L" "apart K (pages ptr (length bs))"
  shows "all_locked (K(i \<mapsto> (ptr, bs))) (L \<union> pages ptr (length bs))"
  unfolding all_locked_def
proof (intro conjI allI impI)
  show "pages p (length cs) \<subseteq> L \<union> pages ptr (length bs)" if "(K(i \<mapsto> (ptr, bs))) j = Some (p, cs)" for j p cs
    using that assms(1) unfolding all_locked_def by (cases "j = i") auto
  show "pages p (length cs) \<inter> pages q (length ds) = {}"
    if "(K(i \<mapsto> (ptr, bs))) j = Some (p, cs)" "(K(i \<mapsto> (ptr, bs))) k = Some (q, ds)" "j \<noteq> k" for j k p q cs ds
    using that assms unfolding all_locked_def apart_def by (cases "j = i"; cases "k = i") auto
qed

lemma all_locked_less:
  assumes "all_locked K L" "apart K P"
  shows "all_locked K ((L \<union> P') - P)"
  using assms unfolding all_locked_def apart_def by blast

lemma all_locked_give:
  assumes "all_locked K L" "K i = Some (ptr, bs)"
  shows "all_locked (K(i := None)) (L - pages ptr (length bs))"
proof -
  have "all_locked (K(i := None)) L" "apart (K(i := None)) (pages ptr (length bs))"
    using assms unfolding all_locked_def apart_def by auto
  from all_locked_less [OF this, of "{}"] show ?thesis by simp
qed

definition own_pages :: "bool \<Rightarrow> nat \<Rightarrow> nat \<Rightarrow> key_process \<Rightarrow> bool" where
  "own_pages ok ptr len s \<longleftrightarrow> ok \<and> apart (live_keys s) (pages ptr len)"

lemma keys_locked_step:
  assumes "key_step c load store own_pages s s'" "secrets_inv isl (owners s) (kp_memory s)"
    and "all_locked (live_keys s) (locked (kp_memory s))"
  shows "all_locked (live_keys s') (locked (kp_memory s'))"
proof -
  obtain e where e: "key_allowed own_pages e s" "kp_memory s' = after_effect e s" "owners s' = key_owners e (owners s)"
    using key_step_effect [OF assms(1,2)] by blast
  show ?thesis
  proof (cases e)
    case (Takes i ok ptr bs)
    show ?thesis
    proof (cases i)
      case (Inl j)
      then have "live_keys s' = (live_keys s)(j \<mapsto> (ptr, bs))"
        using e(3) Takes by (auto simp: live_keys_def fun_eq_iff)
      then show ?thesis
        using e Takes Inl all_locked_take [OF assms(3)] by (simp add: own_pages_def)
    next
      case (Inr x)
      then have "live_keys s' = live_keys s"
        using e(3) Takes by (auto simp: live_keys_def fun_eq_iff)
      then show ?thesis
        using e Takes Inr assms(3) by simp
    qed
  next
    case (Gives i ptr bs)
    show ?thesis
    proof (cases i)
      case (Inl j)
      then have "live_keys s' = (live_keys s)(j := None)" "live_keys s j = Some (ptr, bs)"
        using e Gives by (auto simp: live_keys_def fun_eq_iff)
      then show ?thesis
        using e Gives Inl all_locked_give [OF assms(3)] by simp
    next
      case (Inr x)
      then have "live_keys s' = live_keys s"
        using e(3) Gives by (auto simp: live_keys_def fun_eq_iff)
      then show ?thesis
        using e Gives Inr assms(3) by simp
    qed
  next
    case (Passes i ok ptr bs)
    then have "live_keys s' = live_keys s"
      using e(3) by (simp add: live_keys_def fun_eq_iff)
    then show ?thesis
      using e Passes all_locked_less [OF assms(3)] by (simp add: own_pages_def)
  next
    case Nothing
    then have "live_keys s' = live_keys s"
      using e(3) by (simp add: live_keys_def fun_eq_iff)
    then show ?thesis
      using e Nothing assms(3) by simp
  qed
qed

lemma keys_stay_locked:
  "key_reachable c load store own_pages s \<Longrightarrow> all_locked (live_keys s) (locked (kp_memory s))"
proof (induction rule: key_reachable.induct)
  case key_none
  then show ?case by (simp add: all_locked_def live_keys_def owners_def empty_process_def)
next
  case (key_more s s')
  then show ?case
    using keys_locked_step key_reachable_inv by blast
qed

text \<open>
  Otherwise not: locks do not add up, so giving back one key unlocks the page under every other
  key in it, while those keys are still there to be used.
\<close>

lemma shared_page_unlocks_a_live_key:
  assumes "key_reachable c load store placed s" "kp_messages s i = Some k" "km_slot k = Some p"
    and "kp_messages s j = Some k'" "km_slot k' = Some q" "i \<noteq> j"
    and "pages p (length (key_at p (kp_memory s))) \<inter> pages q (length (key_at q (kp_memory s))) \<noteq> {}"
    and "erase_slot k (kp_memory s) = (k1, m)"
  shows "key_at q m = key_at q (kp_memory s) \<and> \<not> pages q (length (key_at q m)) \<subseteq> locked m"
proof -
  have m: "m = give_back p (key_at p (kp_memory s)) (kp_memory s)"
    using assms(3,8) by (simp add: erase_slot_eq)
  have "p \<noteq> q"
    using keys.one_owner [OF assms(1), of "Inl i" p _ "Inl j"] assms(2-6) by (auto simp: owners_iff)
  then have "key_at q m = key_at q (kp_memory s)"
    by (simp add: m key_at_give_back del: give_back_sel)
  then show ?thesis
    using assms(7) by (auto simp: m)
qed

section \<open>Properties\<close>

text \<open>C9: Keeping the keys in memory implements the messages.  In every state a process can reach,
  opening, erasing, sealing, exporting and restoring over memory return what the operations on a
  message with its key in a field return, leave the message in the state those leave it in, and
  leave every other message of the process and every exported state as it was.\<close>

theorem key_memory_refines_messages:
  assumes "key_reachable c load store placed s" "kp_messages s i = Some k" "unused ptr s"
  shows "(let (r, k', m) = kept_open c k (kp_memory s)
      in open_msg c (in_memory (kp_memory s) k) = (r, in_memory m k') \<and> others_same s i m)
    \<and> (let (k', m) = erase_slot k (kp_memory s)
      in erase (in_memory (kp_memory s) k) = in_memory m k' \<and> others_same s i m)
    \<and> (let (r, m) = kept_seal_inner c ok ptr seed nonce wall pt mode ts w (kp_memory s)
      in seal_inner c seed nonce wall pt mode ts w = map_ok (in_memory m) r \<and> others_same s j m)
    \<and> (let (r, m) = kept_export_for_persistence ptr k (kp_memory s)
      in export_for_persistence (in_memory (kp_memory s) k) = map_ok (state_in_memory m) r \<and> others_same s j m)
    \<and> (let ((r, st'), m) = kept_restore ok ptr load store e st mono_now now_ms (kp_memory s)
      in restore load store (state_in_memory (kp_memory s) e) st mono_now now_ms = (map_ok (in_memory m) r, st')
        \<and> others_same s j m)"
proof -
  note inv = key_reachable_inv [OF assms(1)]
  show ?thesis
    using open_refines [OF inv assms(2)] erase_refines [OF inv assms(2)]
      seal_refines [OF assms(3), of c ok seed nonce wall pt mode ts w _ _ j]
      export_refines [OF assms(3), of k _ _ j]
      restore_refines [OF assms(3), of ok load store e st mono_now now_ms _ _ _ j]
    by (simp split: prod.splits)
qed

text \<open>C10: No key outlives its owner.  Whatever is sealed, opened, erased, exported, restored and
  dropped, a buffer that ever held a key, the boxed one of a message or the one in an exported
  state, is all zero unless it is the key of a message that still has one or of an exported
  state that is still held; no page is locked but those of such messages' keys; and where every
  lock succeeds and messages' keys do not share pages, every such key is locked.  An exported
  state keeps its copy of the key, unlocked, also when its message is opened or expires.\<close>

theorem keys_leave_no_trace:
  assumes "key_reachable c load store placed s"
  shows "(map_of (cells (kp_memory s)) ptr = Some bs \<and> \<not> set bs \<subseteq> {0} \<longrightarrow>
        (\<exists>i k. kp_messages s i = Some k \<and> km_slot k = Some ptr \<and> sd_key (in_memory (kp_memory s) k) = Some bs)
        \<or> (\<exists>x e. kp_exports s x = Some e \<and> ke_ptr e = ptr \<and> ps_key_bytes (state_in_memory (kp_memory s) e) = bs))
    \<and> (page \<in> locked (kp_memory s) \<longrightarrow> (\<exists>i k p. kp_messages s i = Some k \<and> km_slot k = Some p
        \<and> page \<in> pages p (length (key_at p (kp_memory s)))))
    \<and> (placed = own_pages \<and> kp_messages s i = Some k \<and> km_slot k = Some p \<longrightarrow>
        pages p (length (key_at p (kp_memory s))) \<subseteq> locked (kp_memory s))
    \<and> (kp_exports s x = Some e \<and> kp_messages s i = Some k \<longrightarrow>
        (let (k', m) = erase_slot k (kp_memory s) in state_in_memory m e = state_in_memory (kp_memory s) e))"
proof (intro conjI impI)
  show "(\<exists>i k. kp_messages s i = Some k \<and> km_slot k = Some ptr \<and> sd_key (in_memory (kp_memory s) k) = Some bs)
      \<or> (\<exists>x e. kp_exports s x = Some e \<and> ke_ptr e = ptr \<and> ps_key_bytes (state_in_memory (kp_memory s) e) = bs)"
    if cell: "map_of (cells (kp_memory s)) ptr = Some bs \<and> \<not> set bs \<subseteq> {0}"
  proof -
    obtain j where "owners s j = Some (ptr, bs)"
      using keys.secret_has_owner [OF assms] cell by blast
    then show ?thesis
      by (cases j) (auto simp: owners_iff bind_eq_Some_conv in_memory_def state_in_memory_def)
  qed
  show "\<exists>i k p. kp_messages s i = Some k \<and> km_slot k = Some p \<and> page \<in> pages p (length (key_at p (kp_memory s)))"
    if page: "page \<in> locked (kp_memory s)"
  proof -
    obtain j p bs where "isl j" "owners s j = Some (p, bs)" "page \<in> pages p (length bs)"
      using keys.lock_has_owner [OF assms page] .
    then show ?thesis
      by (cases j) (auto simp: owners_iff bind_eq_Some_conv)
  qed
  show "pages p (length (key_at p (kp_memory s))) \<subseteq> locked (kp_memory s)"
    if own: "placed = own_pages \<and> kp_messages s i = Some k \<and> km_slot k = Some p"
  proof -
    have "live_keys s i = Some (p, key_at p (kp_memory s))"
      using own by (simp add: live_keys_iff)
    then show ?thesis
      using keys_stay_locked [of c load store s] assms own unfolding all_locked_def by blast
  qed
  show "let (k', m) = erase_slot k (kp_memory s) in state_in_memory m e = state_in_memory (kp_memory s) e"
    if "kp_exports s x = Some e \<and> kp_messages s i = Some k"
    using that erase_refines [OF key_reachable_inv [OF assms], of i k] by (auto simp: others_same_def split: prod.split)
qed

text \<open>One message, sealed to be read once, whose key lies at address 8192.\<close>

definition one_key :: key_process where
  "one_key = (case kept_seal_inner toy_crypto True 8192 [1] (replicate 12 0) 0 [104, 105] ReadTriggered 0 0 fresh_memory of
     (Ok k, m) \<Rightarrow> empty_process\<lparr>kp_messages := [0 \<mapsto> k], kp_memory := m\<rparr> | _ \<Rightarrow> empty_process)"

lemma one_key_sealed:
  obtains k where "kept_seal_inner toy_crypto True 8192 [1] (replicate 12 0) 0 [104, 105] ReadTriggered 0 0 fresh_memory
      = (Ok k, kp_memory one_key)"
    "kp_messages one_key = [0 \<mapsto> k]" "km_slot k = Some 8192"
  by (simp add: one_key_def kept_seal_inner_eq seal_inner_def toy_crypto_def Let_def split: prod.split)

lemma one_key_exports: "kp_exports one_key = (\<lambda>_. None)"
  by (simp add: one_key_def empty_process_def split: prod.split result.split)

lemma one_key_reachable: "key_reachable toy_crypto load_watermark_ms store_watermark_ms own_pages one_key"
proof -
  obtain k where k: "kept_seal_inner toy_crypto True 8192 [1] (replicate 12 0) 0 [104, 105] ReadTriggered 0 0 fresh_memory
      = (Ok k, kp_memory one_key)" "kp_messages one_key = [0 \<mapsto> k]" "km_slot k = Some 8192"
    using one_key_sealed .
  have none: "slots empty_process = (\<lambda>_. None)"
    by (rule ext) (simp add: slots_def empty_process_def split: sum.split)
  have "key_step toy_crypto load_watermark_ms store_watermark_ms own_pages empty_process
      (empty_process\<lparr>kp_messages := (kp_messages empty_process)(0 \<mapsto> k), kp_memory := kp_memory one_key\<rparr>)"
    by (rule key_seal [where seed = "[1]" and nonce = "replicate 12 0" and ptr = 8192 and ok = True])
      (use k none in \<open>simp_all add: empty_process_def unused_def own_pages_def apart_def live_keys_def owners_def\<close>)
  moreover have "empty_process\<lparr>kp_messages := (kp_messages empty_process)(0 \<mapsto> k), kp_memory := kp_memory one_key\<rparr> = one_key"
    using k(2) one_key_exports by (simp add: empty_process_def)
  ultimately show ?thesis
    using key_more [OF key_none] by metis
qed

theorem key_memory_refines_messages_witness:
  "\<exists>k. kp_messages one_key 0 = Some k \<and> fst (kept_open toy_crypto k (kp_memory one_key)) = Ok [104, 105]"
proof -
  obtain k where k: "kept_seal_inner toy_crypto True 8192 [1] (replicate 12 0) 0 [104, 105] ReadTriggered 0 0 fresh_memory
      = (Ok k, kp_memory one_key)" "kp_messages one_key = [0 \<mapsto> k]" "km_slot k = Some 8192"
    using one_key_sealed .
  have "kp_messages one_key 0 = Some k" "unused 4096 one_key"
    using k(2,3) one_key_exports by (auto simp: unused_def ran_def slots_def split: sum.splits if_splits)
  then have "fst (kept_open toy_crypto k (kp_memory one_key)) = fst (open_msg toy_crypto (in_memory (kp_memory one_key) k))"
    using key_memory_refines_messages [OF one_key_reachable, of 0 k 4096, THEN conjunct1]
    by (cases "kept_open toy_crypto k (kp_memory one_key)") simp
  also have "\<dots> = Ok [104, 105]"
    using k(1,3) by (auto simp: kept_seal_inner_eq seal_inner_def open_msg_def in_memory_def toy_crypto_def NONCE_LEN_def Let_def)
  finally show ?thesis
    using k(2) by simp
qed

theorem keys_leave_no_trace_witness:
  "pages 8192 (length (key_at 8192 (kp_memory one_key))) \<subseteq> locked (kp_memory one_key)"
proof -
  obtain k where "kp_messages one_key = [0 \<mapsto> k]" "km_slot k = Some 8192"
    using one_key_sealed by metis
  then show ?thesis
    using keys_leave_no_trace [OF one_key_reachable, of 0 "[]" 0 0 k 8192] by simp
qed

end
