(* ===== verification/Spec2Isabelle.thy ===== *)
theory Spec2Isabelle
  imports Session Self_Destruct Clock_Guard Trust Bundle Relay Relay_Sync Dead_Drop Mixnet Transport
    Mesh_Transport Client_Store Relay_Server Gateway Mixnode Sim_Harness Plaintext Mobile_Radio Tls Cli Relay_Spec
    Mix_Network Daemons Gateway_Relay Bluez_Radio Cli_Demo Jni_Bridge Key_Memory
begin

text \<open>
  Verification of PARDA, a private messenger: end-to-end encrypted messages that may destroy
  themselves, carried by a relay server, by a network of mixes in front of it, or by a mesh of
  nearby devices.  The Rust crates are modelled as functional programs, one theory for each
  component, and proved correct component by component and as they are put together.

  \<^bold>\<open>How the program is put together.\<close>  A client holds an identity and sessions (\<open>protocol/\<close>),
  keeps its history in an encrypted database (\<open>client-store/\<close>) and hands envelopes to a
  transport: straight to the relay, through mix nodes, or over the mesh.  The relay (\<open>server/\<close>)
  queues envelopes in SQL tables until they are fetched; the gateway (\<open>gateway/\<close>) guards it from
  outside; a mix node (\<open>mixnode/\<close>) delays and forwards Sphinx packets and hands the last hop's
  content to the relay.  On the mesh (\<open>mesh/\<close>) every device stores and forwards bundles addressed
  to blinded dead drops, over a radio that is simulated, BlueZ or, through JNI
  (\<open>mobile-bridge/\<close>), Android's.  The servers share their TLS setup (\<open>tls/\<close>), and \<open>cli/\<close> puts the
  client side together.

  \<^bold>\<open>How the code is modelled.\<close>  A struct is a \<open>record\<close>, an enum a \<open>datatype\<close>, a machine integer a
  word of its width, \<open>Result\<close> the datatype \<open>result\<close> with \<open>and_then\<close> for \<open>?\<close>, and a panic an error
  with its text where a caller can observe it.  State is passed explicitly: what a method mutates
  is an argument and part of the result.  What a function draws at random or reads from a clock,
  the environment or a device is an argument.  A shared lock makes a function one atomic step of
  an \<open>inductive\<close> relation, and a function that takes its lock twice two steps.  A \<open>HashMap\<close> is
  a map, or an association list where its iteration order shows; an SQL table is its list of
  rows, or \<open>None\<close> before it was created.  Code of other packages (libsignal, Sphinx, ciphers, SQLCipher,
  serde, bp7, HTTP clients, rustls, the JVM) is a record of functions with its documented
  behaviour as a named hypothesis \<open>..._law\<close>, and each law has an instance (\<open>toy_...\<close>) on which the
  theorems are applied.
\<close>

text \<open>
  \<^bold>\<open>The theories, bottom up.\<close>

  \<^item> \<open>Prelude\<close>, \<open>Std_Text\<close>: results, integer and byte operations, durations, association lists; the
    string operations of Rust's standard library.
  \<^item> \<open>Errors\<close>, \<open>Envelope\<close>: \<open>protocol/src/error.rs\<close>, \<open>mesh/src/error.rs\<close>, \<open>protocol/src/envelope.rs\<close>.
  \<^item> \<open>Clock_Guard\<close>, \<open>Self_Destruct\<close>: \<open>clock_guard.rs\<close> and \<open>self_destruct.rs\<close>; any number of callers and
    the expiry timer interleave as steps, and a read-triggered message opens at most once.
  \<^item> \<open>Secure_Memory\<close>, \<open>Key_Memory\<close>, \<open>Plaintext\<close>: \<open>secure_memory.rs\<close>, the buffers of derived keys in
    \<open>self_destruct.rs\<close>, the plaintext handles of \<open>plaintext_ffi.rs\<close> and \<open>plaintext_exports.rs\<close>.
    Memory refines messages, and nothing secret stays in a buffer given back.  The system locks
    pages, and its locks do not add up: the exact guarantee, and where it ends, is proved.
  \<^item> \<open>Trust\<close>, \<open>Signal_Store\<close>, \<open>Identity\<close>, \<open>Session\<close>: fingerprints and verified peers, the in-memory
    libsignal store, prekey bundles and certificates, the session manager.
  \<^item> \<open>Dead_Drop\<close>, \<open>Bundle\<close>, \<open>Relay\<close>, \<open>Relay_Sync\<close>, \<open>Mesh_Transport\<close>: addresses and windows, bundles, the
    bounded store of a node, the sync protocol of two nodes as a terminating and converging
    machine, sending and receiving with the claim watermark.
  \<^item> \<open>Radio\<close>, \<open>Sim_Harness\<close>, \<open>Bluez_Radio\<close>, \<open>Mobile_Radio\<close>, \<open>Jni_Bridge\<close>: the three radios and their links,
    many nodes propagating bundles, the table of requests that wait for the JVM, and the typed
    calls into Kotlin.
  \<^item> \<open>Mixnet\<close>, \<open>Transport\<close>, \<open>Mixnode\<close>: packets, the three transports, the mix node's handlers and tasks.
  \<^item> \<open>Relay_Server\<close>, \<open>Relay_Spec\<close>: \<open>server/\<close> over its tables, and the abstract mailboxes it refines.
  \<^item> \<open>Gateway\<close>, \<open>Tls\<close>, \<open>Client_Store\<close>, \<open>Cli\<close>: keys and token buckets over rounded floating point,
    TLS settings, the client's database, the command line peer and its stand-in relay.
  \<^item> Compositions: \<open>Mix_Network\<close> (clients, mix nodes and relay), \<open>Gateway_Relay\<close> (the gateway in
    front of the relay's router), \<open>Daemons\<close> (the three \<open>main\<close> functions and the successive lives
    of a relay on one file), \<open>Cli_Demo\<close> (the demo, from enrolment to burning the session).

  \<^bold>\<open>Interfaces.\<close>  The traits and contracts between components are locales, each interpreted on the
  code's own definitions: \<open>watermark_store\<close>, \<open>trust_store\<close>, \<open>one_time_keys\<close> (two tables of the
  Signal store), \<open>anonymous_carrier\<close> (what the hybrid transport asks of the mesh), \<open>mesh_radio\<close>,
  \<open>message_link\<close> (the simulated and the BlueZ link) and \<open>secret_owner\<close> (plaintext handles and
  message keys in locked memory).

  \<^bold>\<open>What is proved.\<close>  Invariants over all reachable states (storage bounds, at-most-once delivery,
  pending tables, locked memory, histories without self-destructing messages); refinements
  (relay to mailboxes across restarts, memory to messages, gateway to relay); liveness on the
  side conditions the code needs (packets reach the mailbox, bundles spread one hop a round,
  the demo ends as advertised); exact error behaviour and fail-closed paths; round trips of
  encodings and persisted state; bounds (session budgets, buckets, certificate lifetimes).
  Where the code does not do what it says, a theorem or lemma shows the divergence.
\<close>

text \<open>
  \<^bold>\<open>Bounds and fuel.\<close>  Loops of the code are structural recursions or terminate by a proved
  measure (\<open>strip_while\<close>, \<open>lossy\<close>, \<open>advance\<close>).  The sync of two nodes is a step relation; that
  every run of it ends is \<open>sync_completes\<close>.  \<open>run_until\<close> of \<open>Mix_Network\<close> runs at most \<open>fuel\<close> due
  tasks of the mix nodes; a fuel of at least the length of the packet's path suffices, as each
  hop spawns one task, and the theorems ask for no more.  Loops that run as long as the process
  (timers, cover traffic, polling, accept loops) are modelled by one round, or by runs of any
  number of rounds.  Counters that wrap at \<open>2\<^sup>6\<^sup>4\<close> are words; where an identifier would be drawn
  twice after that many draws, the hypothesis that there are fewer is stated.

  \<^bold>\<open>Not modelled.\<close>  What is inside the packages named above.  Log texts, printed texts and \<open>clap\<close>'s
  parsing of arguments.  Sockets, the async runtime's scheduling within a step, and the sleeps
  between rounds.  The memory of stack copies, and of buffers other than those of keys and
  plaintext handles.  Failures of the disk under SQLite.  Timing: constant-time comparison is
  modelled by its result.  The Kotlin and Dart code of the apps is outside the Rust program; of
  it the declarations of the methods called from Rust are used, to type those calls.  The trait
  declarations, accessors without a body of their own, imports and the unit tests have no
  definitions, which is what the uncovered lines of the sources are.
\<close>

end
